(* ===== verification/Prelude.thy ===== *)
theory Prelude
  imports Main "HOL-Library.Word" "HOL-Library.List_Lexorder" "HOL-Library.Char_ord"
begin

text \<open>
  Shared vocabulary of the development: the result type of fallible Go functions, the
  machine integers the code uses, Go byte strings with their comparison, and the generic
  list and map facts the component theories rely on. Nothing here models code of the
  repository.
\<close>

section \<open>Fallible results\<close>

text \<open>
  A Go function that returns \<open>(T, error)\<close> is a function into \<open>'e + 'a\<close>: \<open>Inl e\<close> is a
  non-nil error, \<open>Inr x\<close> the value returned with a nil error.
\<close>

type_synonym ('e, 'a) res = "'e + 'a"

definition rbind :: "('e, 'a) res \<Rightarrow> ('a \<Rightarrow> ('e, 'b) res) \<Rightarrow> ('e, 'b) res" where
  "rbind r f = (case r of Inl e \<Rightarrow> Inl e | Inr x \<Rightarrow> f x)"

lemma rbind_simps [simp]:
  "rbind (Inl e) f = Inl e"
  "rbind (Inr x) f = f x"
  by (simp_all add: rbind_def)

lemma rbind_eq_Inr_conv: "rbind r f = Inr y \<longleftrightarrow> (\<exists>x. r = Inr x \<and> f x = Inr y)"
  by (cases r) simp_all

lemma rbind_eq_Inl_conv: "rbind r f = Inl e \<longleftrightarrow> r = Inl e \<or> (\<exists>x. r = Inr x \<and> f x = Inl e)"
  by (cases r) auto

definition ok :: "('e, 'a) res \<Rightarrow> bool" where
  "ok r = (case r of Inl _ \<Rightarrow> False | Inr _ \<Rightarrow> True)"

lemma ok_simps [simp]: "ok (Inr x)" "\<not> ok (Inl e)"
  by (simp_all add: ok_def)

section \<open>Machine integers and byte strings\<close>

type_synonym i64 = "64 word"
type_synonym i32 = "32 word"
type_synonym u64 = "64 word"
type_synonym u32 = "32 word"

text \<open>
  A Go string is a byte sequence; an Isabelle \<open>char\<close> is a byte, so \<open>string\<close> is that
  sequence exactly and \<open>length\<close> is Go's \<open>len\<close>. With the two imported order theories
  \<open>s < t\<close> is Go's string comparison: bytewise lexicographic with unsigned bytes.
\<close>

abbreviation byte_val :: "char \<Rightarrow> nat" where
  "byte_val \<equiv> of_char"

abbreviation byte_of :: "nat \<Rightarrow> char" where
  "byte_of \<equiv> char_of"

abbreviation newline :: char where
  "newline \<equiv> CHR 0x0A"

lemma byte_val_bound: "byte_val c < 256"
  by simp

lemma byte_of_inject: "m < 256 \<Longrightarrow> n < 256 \<Longrightarrow> byte_of m = byte_of n \<longleftrightarrow> m = n"
  by (simp add: char_of_eq_iff take_bit_eq_mod)

lemma byte_val_of: "n < 256 \<Longrightarrow> byte_val (byte_of n) = n"
  by simp

section \<open>Lists\<close>

lemma takeWhile_eq_all_append:
  "\<forall>x\<in>set xs. P x \<Longrightarrow> \<not> P y \<Longrightarrow> takeWhile P (xs @ y # ys) = xs"
  by (induction xs) auto

lemma dropWhile_eq_tail_append:
  "\<forall>x\<in>set xs. P x \<Longrightarrow> \<not> P y \<Longrightarrow> dropWhile P (xs @ y # ys) = y # ys"
  by (induction xs) auto

lemma dropWhile_length_less: "dropWhile P xs = y # ys \<Longrightarrow> length ys < length xs"
  using length_dropWhile_le [of P xs] by simp

end
