(* ===== verification/GoLib.thy ===== *)
theory GoLib
  imports Prelude
begin

text \<open>
  The parts of the Go standard library the modelled code calls, as executable functions on
  byte strings: \<open>strings.HasPrefix\<close>, \<open>TrimPrefix\<close>, \<open>Split\<close>, \<open>Join\<close>, \<open>ToUpper\<close> on ASCII,
  \<open>hex.EncodeToString\<close>, \<open>base64.RawURLEncoding\<close>, decimal printing and \<open>ParseInt\<close>, and the
  UTF-8 decoder step behind \<open>utf8.ValidString\<close>. The lemmas are the codec laws the
  components use: decoding undoes encoding, encodings are injective, and which bytes an
  encoding can contain.
\<close>

section \<open>Package strings\<close>

fun has_prefix :: "string \<Rightarrow> string \<Rightarrow> bool" where
  "has_prefix s [] = True"
| "has_prefix [] (p # ps) = False"
| "has_prefix (c # s) (p # ps) = (c = p \<and> has_prefix s ps)"

definition has_suffix :: "string \<Rightarrow> string \<Rightarrow> bool" where
  "has_suffix s p = has_prefix (rev s) (rev p)"

definition trim_prefix :: "string \<Rightarrow> string \<Rightarrow> string" where
  "trim_prefix s p = (if has_prefix s p then drop (length p) s else s)"

fun split_on :: "char \<Rightarrow> string \<Rightarrow> string list" where
  "split_on sep [] = [[]]"
| "split_on sep (c # s) =
     (if c = sep then [] # split_on sep s
      else (case split_on sep s of [] \<Rightarrow> [[c]] | w # ws \<Rightarrow> (c # w) # ws))"

fun join_with :: "char \<Rightarrow> string list \<Rightarrow> string" where
  "join_with sep [] = []"
| "join_with sep [w] = w"
| "join_with sep (w # v # ws) = w @ sep # join_with sep (v # ws)"

fun index_byte :: "string \<Rightarrow> char \<Rightarrow> nat option" where
  "index_byte [] b = None"
| "index_byte (c # s) b = (if c = b then Some 0 else map_option Suc (index_byte s b))"

definition upper_byte :: "char \<Rightarrow> char" where
  "upper_byte c = (if 97 \<le> byte_val c \<and> byte_val c \<le> 122 then byte_of (byte_val c - 32) else c)"

definition lower_byte :: "char \<Rightarrow> char" where
  "lower_byte c = (if 65 \<le> byte_val c \<and> byte_val c \<le> 90 then byte_of (byte_val c + 32) else c)"

text \<open>Bytes are compared bit by bit when a definition is evaluated.\<close>

definition is_ctrl :: "char \<Rightarrow> bool" where [code_abbrev]: "is_ctrl c \<longleftrightarrow> byte_val c < 32"

definition is_ascii :: "char \<Rightarrow> bool" where [code_abbrev]: "is_ascii c \<longleftrightarrow> byte_val c < 128"

lemma byte_val_bits: "byte_val c = horner_sum of_bool 2 [digit0 c, digit1 c, digit2 c, digit3 c, digit4 c, digit5 c, digit6 c, digit7 c]"
  by (cases c) (simp add: of_char_def)

lemma is_ctrl_code [code]: "is_ctrl c \<longleftrightarrow> \<not> digit5 c \<and> \<not> digit6 c \<and> \<not> digit7 c"
  unfolding is_ctrl_def byte_val_bits by (simp add: of_bool_def)

lemma is_ascii_code [code]: "is_ascii c \<longleftrightarrow> \<not> digit7 c"
  unfolding is_ascii_def byte_val_bits by (simp add: of_bool_def)

definition set_digit5 :: "bool \<Rightarrow> char \<Rightarrow> char" where
  "set_digit5 b c = Char (digit0 c) (digit1 c) (digit2 c) (digit3 c) (digit4 c) b (digit6 c) (digit7 c)"

definition letter_bits :: "char \<Rightarrow> bool" where
  "letter_bits c \<longleftrightarrow> \<not> digit7 c \<and> digit6 c \<and> (digit0 c \<or> digit1 c \<or> digit2 c \<or> digit3 c \<or> digit4 c) \<and>
     \<not> (digit4 c \<and> digit3 c \<and> (digit2 c \<or> digit1 c \<and> digit0 c))"

lemma upper_byte_code [code]: "upper_byte c = (if letter_bits c \<and> digit5 c then set_digit5 False c else c)"
proof (cases c)
  case (Char b0 b1 b2 b3 b4 b5 b6 b7)
  then show ?thesis
    by (cases b0; cases b1; cases b2; cases b3; cases b4; cases b5; cases b6; cases b7)
      (simp_all add: upper_byte_def letter_bits_def set_digit5_def of_char_def char_of_def bit_0)
qed

lemma lower_byte_code [code]: "lower_byte c = (if letter_bits c \<and> \<not> digit5 c then set_digit5 True c else c)"
proof (cases c)
  case (Char b0 b1 b2 b3 b4 b5 b6 b7)
  then show ?thesis
    by (cases b0; cases b1; cases b2; cases b3; cases b4; cases b5; cases b6; cases b7)
      (simp_all add: lower_byte_def letter_bits_def set_digit5_def of_char_def char_of_def bit_0)
qed

lemma has_prefix_conv: "has_prefix s p \<longleftrightarrow> (\<exists>t. s = p @ t)"
  by (induction s p rule: has_prefix.induct) auto

lemma has_prefix_append [simp]: "has_prefix (p @ t) p"
  by (auto simp: has_prefix_conv)

lemma has_prefix_refl [simp]: "has_prefix s s"
  using has_prefix_append [of s "[]"] by simp

lemma has_prefix_trans: "has_prefix s t \<Longrightarrow> has_prefix t u \<Longrightarrow> has_prefix s u"
  by (auto simp: has_prefix_conv)

lemma has_suffix_conv: "has_suffix s p \<longleftrightarrow> (\<exists>t. s = t @ p)"
  unfolding has_suffix_def has_prefix_conv by (metis rev_append rev_rev_ident)

lemma trim_prefix_append [simp]: "trim_prefix (p @ t) p = t"
  by (simp add: trim_prefix_def)

lemma split_on_not_Nil [simp]: "split_on sep s \<noteq> []"
  by (induction s) (auto split: list.splits)

lemma join_split [simp]: "join_with sep (split_on sep s) = s"
proof (induction s)
  case (Cons c s)
  obtain w ws where ws: "split_on sep s = w # ws"
    by (cases "split_on sep s") auto
  with Cons.IH show ?case by (cases ws) auto
qed simp

lemma split_on_no_sep: "w \<in> set (split_on sep s) \<Longrightarrow> sep \<notin> set w"
proof (induction s arbitrary: w)
  case (Cons c s)
  obtain v vs where vs: "split_on sep s = v # vs"
    by (cases "split_on sep s") auto
  with Cons show ?case by (auto split: if_splits)
qed simp

lemma split_on_word: "sep \<notin> set w \<Longrightarrow> split_on sep w = [w]"
  by (induction w) auto

lemma split_on_append_sep:
  "sep \<notin> set w \<Longrightarrow> split_on sep (w @ sep # s) = w # split_on sep s"
  by (induction w) auto

lemma split_join:
  "ws \<noteq> [] \<Longrightarrow> \<forall>w\<in>set ws. sep \<notin> set w \<Longrightarrow> split_on sep (join_with sep ws) = ws"
  by (induction sep ws rule: join_with.induct) (auto simp: split_on_word split_on_append_sep)

lemma index_byte_Some:
  "b \<notin> set u \<Longrightarrow> index_byte (u @ b # v) b = Some (length u)"
  by (induction u) auto

lemma index_byte_None_iff: "index_byte s b = None \<longleftrightarrow> b \<notin> set s"
  by (induction s) auto

lemma index_byte_SomeD:
  "index_byte s b = Some i \<Longrightarrow> i < length s \<and> s ! i = b \<and> b \<notin> set (take i s)"
proof (induction s arbitrary: i)
  case (Cons c s)
  then show ?case by (cases i) (auto split: if_splits)
qed simp

section \<open>Hexadecimal\<close>

definition hex_digit :: "nat \<Rightarrow> char" where
  "hex_digit n = (if n < 10 then byte_of (48 + n) else byte_of (87 + n))"

definition hex_byte :: "char \<Rightarrow> string" where
  "hex_byte c = [hex_digit (byte_val c div 16), hex_digit (byte_val c mod 16)]"

definition hex_encode :: "string \<Rightarrow> string" where
  "hex_encode s = concat (map hex_byte s)"

definition hex_val :: "char \<Rightarrow> nat option" where
  "hex_val c = (let n = byte_val c in
     if 48 \<le> n \<and> n \<le> 57 then Some (n - 48)
     else if 97 \<le> n \<and> n \<le> 102 then Some (n - 87)
     else if 65 \<le> n \<and> n \<le> 70 then Some (n - 55)
     else None)"

lemma hex_val_digit [simp]: "n < 16 \<Longrightarrow> hex_val (hex_digit n) = Some n"
  by (auto simp: hex_val_def hex_digit_def Let_def)

lemma hex_digit_inject: "m < 16 \<Longrightarrow> n < 16 \<Longrightarrow> hex_digit m = hex_digit n \<longleftrightarrow> m = n"
  by (metis hex_val_digit option.inject)

lemma hex_byte_inject: "hex_byte a = hex_byte b \<longleftrightarrow> a = b"
proof
  assume "hex_byte a = hex_byte b"
  moreover have "byte_val a div 16 < 16" "byte_val b div 16 < 16"
    using byte_val_bound [of a] byte_val_bound [of b] by linarith+
  ultimately have "byte_val a div 16 = byte_val b div 16" "byte_val a mod 16 = byte_val b mod 16"
    by (auto simp: hex_byte_def hex_digit_inject)
  then have "byte_val a = byte_val b" by (metis div_mult_mod_eq)
  then show "a = b" by simp
qed simp

lemma hex_encode_inject: "hex_encode s = hex_encode t \<Longrightarrow> s = t"
proof (induction s arbitrary: t)
  case Nil
  then show ?case by (cases t) (auto simp: hex_encode_def hex_byte_def)
next
  case (Cons c s)
  then obtain d t' where t: "t = d # t'"
    by (cases t) (auto simp: hex_encode_def hex_byte_def)
  with Cons.prems have "hex_byte c = hex_byte d" "hex_encode s = hex_encode t'"
    by (auto simp: hex_encode_def hex_byte_def)
  with Cons.IH t show ?case by (simp add: hex_byte_inject)
qed

definition is_lower_hex :: "char \<Rightarrow> bool" where
  "is_lower_hex c = ((48 \<le> byte_val c \<and> byte_val c \<le> 57) \<or> (97 \<le> byte_val c \<and> byte_val c \<le> 102))"

lemma is_lower_hex_digit [simp]: "n < 16 \<Longrightarrow> is_lower_hex (hex_digit n)"
  by (auto simp: is_lower_hex_def hex_digit_def)

lemma hex_encode_lower: "\<forall>c\<in>set (hex_encode s). is_lower_hex c"
proof -
  have "byte_val c div 16 < 16" for c :: char
    using byte_val_bound [of c] by linarith
  then show ?thesis by (auto simp: hex_encode_def hex_byte_def)
qed

lemma length_hex_encode [simp]: "length (hex_encode s) = 2 * length s"
  by (induction s) (auto simp: hex_encode_def hex_byte_def)

section \<open>Unpadded base64url\<close>

text \<open>
  \<open>base64.RawURLEncoding\<close>: three bytes become four characters of the URL alphabet, a
  one- or two-byte tail becomes two or three characters, no padding. The decoder skips
  carriage returns and newlines anywhere in its input and, not being strict, ignores the
  unused low bits of a short tail.
\<close>

definition b64_char :: "nat \<Rightarrow> char" where
  "b64_char n =
     (if n < 26 then byte_of (65 + n)
      else if n < 52 then byte_of (71 + n)
      else if n < 62 then byte_of (n - 4)
      else if n = 62 then CHR ''-'' else CHR ''_'')"

definition b64_val :: "char \<Rightarrow> nat option" where
  "b64_val c = (let n = byte_val c in
     if 65 \<le> n \<and> n \<le> 90 then Some (n - 65)
     else if 97 \<le> n \<and> n \<le> 122 then Some (n - 71)
     else if 48 \<le> n \<and> n \<le> 57 then Some (n + 4)
     else if n = 45 then Some 62
     else if n = 95 then Some 63
     else None)"

fun b64_encode_nat :: "nat list \<Rightarrow> nat list" where
  "b64_encode_nat [] = []"
| "b64_encode_nat [a] = [a div 4, a mod 4 * 16]"
| "b64_encode_nat [a, b] = [a div 4, a mod 4 * 16 + b div 16, b mod 16 * 4]"
| "b64_encode_nat (a # b # c # s) =
     a div 4 # (a mod 4 * 16 + b div 16) # (b mod 16 * 4 + c div 64) # c mod 64 # b64_encode_nat s"

fun b64_decode_nat :: "nat list \<Rightarrow> nat list option" where
  "b64_decode_nat [] = Some []"
| "b64_decode_nat [w] = None"
| "b64_decode_nat [w, x] = Some [w * 4 + x div 16]"
| "b64_decode_nat [w, x, y] = Some [w * 4 + x div 16, x mod 16 * 16 + y div 4]"
| "b64_decode_nat (w # x # y # z # s) =
     map_option (\<lambda>r. (w * 4 + x div 16) # (x mod 16 * 16 + y div 4) # (y mod 4 * 64 + z) # r)
       (b64_decode_nat s)"

definition b64_encode :: "string \<Rightarrow> string" where
  "b64_encode s = map b64_char (b64_encode_nat (map byte_val s))"

definition b64_decode :: "string \<Rightarrow> string option" where
  "b64_decode s =
     (let t = filter (\<lambda>c. c \<noteq> CHR 0x0D \<and> c \<noteq> CHR 0x0A) s in
      if list_all (\<lambda>c. b64_val c \<noteq> None) t
      then map_option (map byte_of) (b64_decode_nat (map (the \<circ> b64_val) t))
      else None)"

lemma b64_val_char: "n < 64 \<Longrightarrow> b64_val (b64_char n) = Some n"
  by (auto simp: b64_val_def b64_char_def Let_def)

lemma b64_char_no_crlf: "n < 64 \<Longrightarrow> b64_char n \<noteq> CHR 0x0D \<and> b64_char n \<noteq> CHR 0x0A"
  using b64_val_char [of n] by (auto simp: b64_val_def)

lemma b64_encode_nat_bound: "\<forall>a\<in>set s. a < 256 \<Longrightarrow> \<forall>n\<in>set (b64_encode_nat s). n < 64"
proof (induction s rule: b64_encode_nat.induct)
  case (4 a b c s)
  have "a div 4 < 64" "b div 16 < 16" "c div 64 < 4"
    using 4 by (auto simp: div_less_iff_less_mult)
  moreover have "a mod 4 < 4" "b mod 16 < 16" by simp_all
  ultimately show ?case using 4 by auto
qed (auto simp: div_less_iff_less_mult intro: order_less_le_trans)

lemma b64_decode_encode_nat: "\<forall>a\<in>set s. a < 256 \<Longrightarrow> b64_decode_nat (b64_encode_nat s) = Some s"
proof (induction s rule: b64_encode_nat.induct)
  case (4 a b c s)
  have "b div 16 < 16" "c div 64 < 4"
    using 4 by (auto simp: div_less_iff_less_mult)
  then have "(a mod 4 * 16 + b div 16) div 16 = a mod 4" "(a mod 4 * 16 + b div 16) mod 16 = b div 16"
    "(b mod 16 * 4 + c div 64) div 4 = b mod 16" "(b mod 16 * 4 + c div 64) mod 4 = c div 64"
    by auto
  with 4 show ?case by (simp add: mult.commute [of "_ div _"])
next
  case (3 a b)
  have "b div 16 < 16" using 3 by (auto simp: div_less_iff_less_mult)
  then have "(a mod 4 * 16 + b div 16) div 16 = a mod 4" "(a mod 4 * 16 + b div 16) mod 16 = b div 16"
    by auto
  then show ?case by (simp add: mult.commute [of "_ div _"])
qed (simp_all add: mult.commute [of "_ div _"])

theorem b64_decode_encode [simp]: "b64_decode (b64_encode s) = Some s"
proof -
  let ?n = "b64_encode_nat (map byte_val s)"
  have bound: "\<forall>n\<in>set ?n. n < 64"
    by (rule b64_encode_nat_bound) auto
  have "filter (\<lambda>c. c \<noteq> CHR 0x0D \<and> c \<noteq> CHR 0x0A) (map b64_char ?n) = map b64_char ?n"
    using bound by (auto simp: filter_id_conv b64_char_no_crlf)
  moreover have "map (the \<circ> b64_val) (map b64_char ?n) = ?n"
    using bound by (auto simp: b64_val_char intro: map_idI)
  moreover have "b64_decode_nat ?n = Some (map byte_val s)"
    by (rule b64_decode_encode_nat) auto
  ultimately show ?thesis
    using bound by (auto simp: b64_decode_def b64_encode_def list_all_iff b64_val_char comp_def)
qed

lemma b64_encode_Nil_iff [simp]: "b64_encode s = [] \<longleftrightarrow> s = []"
  by (cases "map byte_val s" rule: b64_encode_nat.cases) (auto simp: b64_encode_def)

section \<open>Decimal integers\<close>

fun dec_nat :: "nat \<Rightarrow> string" where
  "dec_nat n = (if n < 10 then [byte_of (48 + n)] else dec_nat (n div 10) @ [byte_of (48 + n mod 10)])"

declare dec_nat.simps [simp del]

definition dec_int :: "int \<Rightarrow> string" where
  "dec_int i = (if i < 0 then CHR ''-'' # dec_nat (nat (- i)) else dec_nat (nat i))"

definition is_digit :: "char \<Rightarrow> bool" where
  "is_digit c = (48 \<le> byte_val c \<and> byte_val c \<le> 57)"

definition digits_val :: "string \<Rightarrow> nat" where
  "digits_val s = foldl (\<lambda>a c. a * 10 + (byte_val c - 48)) 0 s"

text \<open>
  \<open>strconv.ParseInt(s, 10, 64)\<close>: an optional sign, at least one digit, nothing else, and a
  value in the signed 64-bit range.
\<close>

definition parse_digits :: "string \<Rightarrow> nat option" where
  "parse_digits s = (if s \<noteq> [] \<and> list_all is_digit s then Some (digits_val s) else None)"

definition parse_int64 :: "string \<Rightarrow> int option" where
  "parse_int64 s =
     (let (neg, ds) = (case s of c # t \<Rightarrow>
             if c = CHR ''-'' then (True, t) else if c = CHR ''+'' then (False, t) else (False, s)
           | [] \<Rightarrow> (False, s))
      in (case parse_digits ds of
            None \<Rightarrow> None
          | Some n \<Rightarrow> (let i = (if neg then - int n else int n)
                       in if - (2 ^ 63) \<le> i \<and> i < 2 ^ 63 then Some i else None)))"

lemma is_digit_byte [simp]: "d < 10 \<Longrightarrow> is_digit (byte_of (48 + d))"
  by (simp add: is_digit_def)

lemma dec_nat_digits: "list_all is_digit (dec_nat n)"
proof (induction n rule: dec_nat.induct)
  case (1 n)
  show ?case
  proof (cases "n < 10")
    case True
    then show ?thesis by (subst dec_nat.simps) simp
  next
    case False
    with 1 show ?thesis by (subst dec_nat.simps) simp
  qed
qed

lemma dec_nat_not_Nil [simp]: "dec_nat n \<noteq> []"
  by (subst dec_nat.simps) simp

lemma digits_val_snoc [simp]: "digits_val (s @ [c]) = digits_val s * 10 + (byte_val c - 48)"
  by (simp add: digits_val_def)

lemma digits_val_dec_nat [simp]: "digits_val (dec_nat n) = n"
proof (induction n rule: dec_nat.induct)
  case (1 n)
  show ?case
  proof (cases "n < 10")
    case True
    then show ?thesis by (subst dec_nat.simps) (simp add: digits_val_def)
  next
    case False
    with 1 have "digits_val (dec_nat (n div 10)) = n div 10" by simp
    with False show ?thesis by (subst dec_nat.simps) simp
  qed
qed

lemma parse_digits_dec_nat [simp]: "parse_digits (dec_nat n) = Some n"
  by (simp add: parse_digits_def dec_nat_digits)

lemma dec_nat_hd: "\<exists>c s. dec_nat n = c # s \<and> is_digit c"
  using dec_nat_digits [of n] by (cases "dec_nat n") auto

theorem parse_int64_dec_int:
  assumes "- (2 ^ 63) \<le> i" "i < 2 ^ 63"
  shows "parse_int64 (dec_int i) = Some i"
proof (cases "i < 0")
  case True
  then have "dec_int i = CHR ''-'' # dec_nat (nat (- i))" by (simp add: dec_int_def)
  with True assms show ?thesis by (simp add: parse_int64_def Let_def)
next
  case False
  obtain c s where cs: "dec_nat (nat i) = c # s" "is_digit c"
    using dec_nat_hd by blast
  then have "c \<noteq> CHR ''-''" "c \<noteq> CHR ''+''" by (auto simp: is_digit_def)
  moreover have "parse_digits (c # s) = Some (nat i)"
    using parse_digits_dec_nat [of "nat i"] cs by simp
  ultimately show ?thesis
    using False assms cs by (simp add: parse_int64_def dec_int_def Let_def)
qed

section \<open>UTF-8\<close>

text \<open>
  \<open>rune_len s\<close> is the size of the well-formed UTF-8 sequence at the head of \<open>s\<close>, and 0
  where \<open>utf8.DecodeRune\<close> reports \<open>RuneError\<close> with width at most one: overlong forms,
  surrogates, values above U+10FFFF, stray continuation bytes, truncated sequences.
\<close>

definition in_range :: "nat \<Rightarrow> nat \<Rightarrow> char \<Rightarrow> bool" where
  "in_range lo hi c = (lo \<le> byte_val c \<and> byte_val c \<le> hi)"

definition rune_width :: "char \<Rightarrow> nat" where
  "rune_width a = (let x = byte_val a in
     if x < 128 then 1
     else if 194 \<le> x \<and> x \<le> 223 then 2
     else if 224 \<le> x \<and> x \<le> 239 then 3
     else if 240 \<le> x \<and> x \<le> 244 then 4
     else 0)"

definition second_ok :: "char \<Rightarrow> char \<Rightarrow> bool" where
  "second_ok a b = (let x = byte_val a in
     in_range (if x = 224 then 160 else if x = 240 then 144 else 128)
       (if x = 237 then 159 else if x = 244 then 143 else 191) b)"

fun rune_len :: "string \<Rightarrow> nat" where
  "rune_len [] = 0"
| "rune_len (a # s) =
     (let n = rune_width a; t = take (n - 1) s in
      if n \<noteq> 0 \<and> length t = n - 1 \<and> list_all (in_range 128 191) t
         \<and> (case t of [] \<Rightarrow> True | b # _ \<Rightarrow> second_ok a b)
      then n else 0)"

function valid_utf8 :: "string \<Rightarrow> bool" where
  "valid_utf8 s =
     (if s = [] then True
      else if rune_len s = 0 then False
      else valid_utf8 (drop (rune_len s) s))"
  by pat_completeness auto
termination
  by (relation "measure length") auto

declare valid_utf8.simps [simp del]

lemma valid_utf8_Nil [simp]: "valid_utf8 []"
  by (simp add: valid_utf8.simps)

lemma rune_len_le: "rune_len s \<le> length s"
  by (cases s) (auto simp: Let_def split: if_splits)

lemma rune_len_ascii [simp]: "byte_val c < 128 \<Longrightarrow> rune_len (c # s) = Suc 0"
  by (simp add: rune_width_def)

lemma rune_len_append: "rune_len s \<noteq> 0 \<Longrightarrow> rune_len (s @ t) = rune_len s"
proof (cases s)
  case (Cons a u)
  assume "rune_len s \<noteq> 0"
  with Cons have "length (take (rune_width a - 1) u) = rune_width a - 1"
    by (auto simp: Let_def split: if_splits)
  then have "take (rune_width a - 1) (u @ t) = take (rune_width a - 1) u"
    by simp
  then have "rune_len (a # (u @ t)) = rune_len (a # u)"
    unfolding rune_len.simps Let_def by (simp only:)
  with Cons show ?thesis by simp
qed simp

text \<open>A well-formed sequence is one ASCII byte or consists of bytes from 128 on.\<close>

lemma rune_len_high:
  assumes "rune_len (a # s) \<noteq> 0" "128 \<le> byte_val a" "b \<in> set (take (rune_len (a # s)) (a # s))"
  shows "128 \<le> byte_val b"
proof -
  let ?n = "rune_width a"
  have n: "rune_len (a # s) = ?n" "?n \<noteq> 0" "list_all (in_range 128 191) (take (?n - 1) s)"
    using assms(1) by (auto simp: Let_def split: if_splits)
  then have "take (rune_len (a # s)) (a # s) = a # take (?n - 1) s"
    by (cases ?n) auto
  with assms n show ?thesis by (auto simp: list_all_iff in_range_def)
qed

lemma valid_utf8_ascii: "list_all (\<lambda>c. byte_val c < 128) s \<Longrightarrow> valid_utf8 s"
  by (induction s) (simp_all add: valid_utf8.simps [of "_ # _"] del: rune_len.simps)

end
