(* ===== verification/Json.thy ===== *)
theory Json
  imports GoLib
begin

text \<open>
  Go's \<open>encoding/json\<close> as the log files and request bodies use it: \<open>json.Marshal\<close> of
  strings, integers, objects and arrays with Go's escaping, a parser with the grammar,
  nesting limit and string decoding of \<open>json.Unmarshal\<close>, and the rules for filling a
  struct field from an object (names compared up to case folding, the last matching member
  wins, a \<open>null\<close> leaves the field alone, a value of another type is an error). The main
  results are the round trip \<open>parse_print\<close> and that the parser's fuel is always enough.
\<close>

section \<open>String literals\<close>

abbreviation quote_char :: char where
  "quote_char \<equiv> CHR 0x22"

abbreviation backslash :: char where
  "backslash \<equiv> CHR 0x5C"

definition esc_byte :: "char \<Rightarrow> string" where
  "esc_byte c = (let n = byte_val c in
     if n = 34 \<or> n = 92 then [backslash, c]
     else if n = 8 then [backslash, CHR ''b'']
     else if n = 12 then [backslash, CHR ''f'']
     else if n = 10 then [backslash, CHR ''n'']
     else if n = 13 then [backslash, CHR ''r'']
     else if n = 9 then [backslash, CHR ''t'']
     else if n < 32 \<or> n = 60 \<or> n = 62 \<or> n = 38 then backslash # ''u00'' @ hex_byte c
     else [c])"

definition line_sep :: string where
  "line_sep = [CHR 0xE2, CHR 0x80, CHR 0xA8]"

definition para_sep :: string where
  "para_sep = [CHR 0xE2, CHR 0x80, CHR 0xA9]"

definition replacement :: string where
  "replacement = [CHR 0xEF, CHR 0xBF, CHR 0xBD]"

function quote_body :: "string \<Rightarrow> string" where
  "quote_body [] = []"
| "quote_body (c # t) =
     (if byte_val c < 128 then esc_byte c @ quote_body t
      else if rune_len (c # t) = 0 then backslash # ''ufffd'' @ quote_body t
      else if take 3 (c # t) = line_sep then backslash # ''u2028'' @ quote_body (drop 3 (c # t))
      else if take 3 (c # t) = para_sep then backslash # ''u2029'' @ quote_body (drop 3 (c # t))
      else take (rune_len (c # t)) (c # t) @ quote_body (drop (rune_len (c # t)) (c # t)))"
  by pat_completeness auto
termination
  by (relation "measure length") auto

declare quote_body.simps(2) [simp del]

definition quote :: "string \<Rightarrow> string" where
  "quote s = quote_char # quote_body s @ [quote_char]"

definition utf8_encode :: "nat \<Rightarrow> string" where
  "utf8_encode r =
     (if r < 128 then [byte_of r]
      else if r < 2048 then [byte_of (192 + r div 64), byte_of (128 + r mod 64)]
      else if (55296 \<le> r \<and> r \<le> 57343) \<or> 1114111 < r then replacement
      else if r < 65536 then
        [byte_of (224 + r div 4096), byte_of (128 + r div 64 mod 64), byte_of (128 + r mod 64)]
      else
        [byte_of (240 + r div 262144), byte_of (128 + r div 4096 mod 64),
         byte_of (128 + r div 64 mod 64), byte_of (128 + r mod 64)])"

definition simple_escape :: "char \<Rightarrow> char option" where
  "simple_escape e =
     (if e = quote_char \<or> e = backslash \<or> e = CHR ''/'' then Some e
      else if e = CHR ''b'' then Some (CHR 0x08)
      else if e = CHR ''f'' then Some (CHR 0x0C)
      else if e = CHR ''n'' then Some (CHR 0x0A)
      else if e = CHR ''r'' then Some (CHR 0x0D)
      else if e = CHR ''t'' then Some (CHR 0x09)
      else None)"

fun hex4 :: "string \<Rightarrow> nat option" where
  "hex4 (a # b # c # d # s) =
     (case (hex_val a, hex_val b, hex_val c, hex_val d) of
        (Some w, Some x, Some y, Some z) \<Rightarrow> Some (((w * 16 + x) * 16 + y) * 16 + z)
      | _ \<Rightarrow> None)"
| "hex4 _ = None"

text \<open>
  \<open>u_escape u\<close> reads what follows \<open>\u\<close>: the code point and the rest. A surrogate that does
  not start a valid pair decodes to U+FFFD and consumes its own escape only.
\<close>

definition u_escape :: "string \<Rightarrow> (nat \<times> string) option" where
  "u_escape u =
     (case hex4 u of
        None \<Rightarrow> None
      | Some r \<Rightarrow>
          if 55296 \<le> r \<and> r \<le> 57343 then
            (case (take 2 (drop 4 u) = [backslash, CHR ''u''], hex4 (drop 6 u)) of
               (True, Some r2) \<Rightarrow>
                 if r \<le> 56319 \<and> 56320 \<le> r2 \<and> r2 \<le> 57343
                 then Some (65536 + (r - 55296) * 1024 + (r2 - 56320), drop 10 u)
                 else Some (65533, drop 4 u)
             | _ \<Rightarrow> Some (65533, drop 4 u))
          else Some (r, drop 4 u))"

lemma u_escape_length [termination_simp]: "u_escape u = Some (r, v) \<Longrightarrow> length v \<le> length u"
  by (auto simp: u_escape_def split: option.splits if_splits bool.splits)

function unquote_body :: "string \<Rightarrow> (string \<times> string) option" where
  "unquote_body [] = None"
| "unquote_body (c # t) =
     (if c = quote_char then Some ([], t)
      else if c = backslash then
        (case t of
           [] \<Rightarrow> None
         | e # u \<Rightarrow>
             if e = CHR ''u'' then
               (case u_escape u of
                  None \<Rightarrow> None
                | Some (r, v) \<Rightarrow> map_option (apfst (\<lambda>s. utf8_encode r @ s)) (unquote_body v))
             else
               (case simple_escape e of
                  None \<Rightarrow> None
                | Some x \<Rightarrow> map_option (apfst (\<lambda>s. x # s)) (unquote_body u)))
      else if byte_val c < 32 then None
      else if byte_val c < 128 then map_option (apfst (\<lambda>s. c # s)) (unquote_body t)
      else if rune_len (c # t) = 0 then map_option (apfst (\<lambda>s. replacement @ s)) (unquote_body t)
      else map_option (apfst (\<lambda>s. take (rune_len (c # t)) (c # t) @ s))
             (unquote_body (drop (rune_len (c # t)) (c # t))))"
  by pat_completeness auto
termination
  by (relation "measure length") (auto dest: u_escape_length)

declare unquote_body.simps(2) [simp del]

lemma rune_len_take:
  assumes "rune_len s \<noteq> 0"
  shows "rune_len (take (rune_len s) s @ w) = rune_len s"
proof (cases s)
  case (Cons a u)
  let ?n = "rune_width a"
  have n: "rune_len s = ?n" "?n \<noteq> 0" "length (take (?n - 1) u) = ?n - 1"
    using assms Cons by (auto simp: Let_def split: if_splits)
  then have "take (?n - 1) (take (?n - 1) u @ w) = take (?n - 1) u"
    by simp
  then have "rune_len (a # (take (?n - 1) u @ w)) = rune_len (a # u)"
    unfolding rune_len.simps Let_def by (simp only:)
  moreover have "take ?n (a # u) = a # take (?n - 1) u"
    using n(2) by (cases ?n) auto
  ultimately show ?thesis using Cons n by simp
qed (use assms in simp)

lemma byte_eq_of: "byte_val c = n \<Longrightarrow> c = byte_of n"
  by auto

lemma u_escape_byte:
  assumes "byte_val c < 128"
  shows "u_escape (CHR ''0'' # CHR ''0'' # hex_byte c @ w) = Some (byte_val c, w)"
proof -
  have "byte_val c div 16 < 16" using assms by (simp add: div_less_iff_less_mult)
  then show ?thesis using assms
    by (simp add: u_escape_def hex_byte_def hex_val_def [of "CHR ''0''"])
qed

lemma unquote_esc_byte:
  assumes "byte_val c < 128"
  shows "unquote_body (esc_byte c @ w) = map_option (apfst (\<lambda>s. c # s)) (unquote_body w)"
proof -
  consider "byte_val c = 34" | "byte_val c = 92" | "byte_val c = 8" | "byte_val c = 12"
    | "byte_val c = 10" | "byte_val c = 13" | "byte_val c = 9"
    | (u) "byte_val c \<notin> {34, 92, 8, 12, 10, 13, 9}"
        "byte_val c < 32 \<or> byte_val c = 60 \<or> byte_val c = 62 \<or> byte_val c = 38"
    | (plain) "byte_val c \<notin> {34, 92}" "\<not> byte_val c < 32"
        "byte_val c \<noteq> 60" "byte_val c \<noteq> 62" "byte_val c \<noteq> 38"
    by fastforce
  then show ?thesis
  proof cases
    case u
    then have "esc_byte c = backslash # CHR ''u'' # CHR ''0'' # CHR ''0'' # hex_byte c"
      by (auto simp: esc_byte_def Let_def)
    then have "unquote_body (esc_byte c @ w) = map_option (apfst (\<lambda>s. utf8_encode (byte_val c) @ s)) (unquote_body w)"
      using u_escape_byte [OF assms] by (simp add: unquote_body.simps(2))
    then show ?thesis using assms by (simp add: utf8_encode_def)
  next
    case plain
    then have "esc_byte c = [c]" "c \<noteq> quote_char" "c \<noteq> backslash"
      by (auto simp: esc_byte_def Let_def)
    with plain assms show ?thesis by (simp add: unquote_body.simps(2))
  qed (auto dest!: byte_eq_of simp: char_of_def bit_0 esc_byte_def Let_def unquote_body.simps(2) simple_escape_def)
qed

lemma unquote_rune:
  assumes "rune_len s \<noteq> 0" "128 \<le> byte_val (hd s)"
  shows "unquote_body (take (rune_len s) s @ w) =
    map_option (apfst (\<lambda>x. take (rune_len s) s @ x)) (unquote_body w)"
proof -
  obtain c t where s: "s = c # t" using assms by (cases s) auto
  let ?n = "rune_len s"
  obtain m where m: "?n = Suc m" using assms by (cases ?n) auto
  have len: "length (take ?n s) = ?n" using rune_len_le [of s] by simp
  have cons: "take ?n s @ w = c # (take m t @ w)" using s m by simp
  have "rune_len (c # (take m t @ w)) = ?n" using rune_len_take [OF assms(1), of w] cons by simp
  moreover have "c \<noteq> quote_char" "c \<noteq> backslash" "\<not> byte_val c < 32" "\<not> byte_val c < 128"
    using assms s by auto
  ultimately have "unquote_body (c # (take m t @ w)) =
      map_option (apfst (\<lambda>x. take ?n (take ?n s @ w) @ x)) (unquote_body (drop ?n (take ?n s @ w)))"
    using assms(1) cons by (simp add: unquote_body.simps(2) del: rune_len.simps)
  moreover have "take ?n (take ?n s @ w) = take ?n s" "drop ?n (take ?n s @ w) = w"
    using len by simp_all
  ultimately show ?thesis using cons by metis
qed

lemma utf8_encode_seps: "utf8_encode 8232 = line_sep" "utf8_encode 8233 = para_sep"
  by (simp_all add: utf8_encode_def line_sep_def para_sep_def char_of_def bit_0)

lemma unquote_u2028: "unquote_body (backslash # ''u2028'' @ w) = map_option (apfst (\<lambda>s. line_sep @ s)) (unquote_body w)"
  by (simp add: unquote_body.simps(2) u_escape_def hex_val_def utf8_encode_seps)

lemma unquote_u2029: "unquote_body (backslash # ''u2029'' @ w) = map_option (apfst (\<lambda>s. para_sep @ s)) (unquote_body w)"
  by (simp add: unquote_body.simps(2) u_escape_def hex_val_def utf8_encode_seps)

lemma rune_len_seps:
  "take 3 s = line_sep \<Longrightarrow> rune_len s = 3" "take 3 s = para_sep \<Longrightarrow> rune_len s = 3"
proof -
  have "take 3 s = x \<Longrightarrow> rune_len x = 3 \<Longrightarrow> rune_len s = 3" for x
    by (metis append_take_drop_id rune_len_append zero_neq_numeral)
  then show "take 3 s = line_sep \<Longrightarrow> rune_len s = 3" "take 3 s = para_sep \<Longrightarrow> rune_len s = 3"
    by (simp_all add: line_sep_def para_sep_def rune_width_def in_range_def second_ok_def)
qed

lemma valid_utf8_drop: "valid_utf8 s \<Longrightarrow> s \<noteq> [] \<Longrightarrow> rune_len s \<noteq> 0 \<and> valid_utf8 (drop (rune_len s) s)"
  by (subst (asm) valid_utf8.simps) (auto split: if_splits)

theorem unquote_quote_body:
  "valid_utf8 s \<Longrightarrow> unquote_body (quote_body s @ quote_char # w) = Some (s, w)"
proof (induction s rule: quote_body.induct)
  case 1
  then show ?case by (simp add: unquote_body.simps(2))
next
  case (2 c t)
  let ?s = "c # t"
  have v: "rune_len ?s \<noteq> 0" "valid_utf8 (drop (rune_len ?s) ?s)"
    using valid_utf8_drop [OF 2(6)] by simp_all
  consider (ascii) "byte_val c < 128" | (ls) "\<not> byte_val c < 128" "take 3 ?s = line_sep"
    | (ps) "\<not> byte_val c < 128" "take 3 ?s \<noteq> line_sep" "take 3 ?s = para_sep"
    | (rune) "\<not> byte_val c < 128" "take 3 ?s \<noteq> line_sep" "take 3 ?s \<noteq> para_sep"
    by blast
  then show ?case
  proof cases
    case ascii
    then have "unquote_body (quote_body t @ quote_char # w) = Some (t, w)"
      using 2(1) v by (simp del: rune_len.simps)
    with ascii show ?thesis by (simp add: quote_body.simps(2) unquote_esc_byte)
  next
    case ls
    then have "unquote_body (quote_body (drop 3 ?s) @ quote_char # w) = Some (drop 3 ?s, w)"
      using 2(3) v rune_len_seps(1) [OF ls(2)] by (simp del: rune_len.simps)
    moreover have "line_sep @ drop 3 ?s = ?s" using ls(2) by (metis append_take_drop_id)
    ultimately show ?thesis
      using ls v unquote_u2028 [of "quote_body (drop 3 ?s) @ quote_char # w"]
      by (simp add: quote_body.simps(2) del: rune_len.simps)
  next
    case ps
    then have "unquote_body (quote_body (drop 3 ?s) @ quote_char # w) = Some (drop 3 ?s, w)"
      using 2(4) v rune_len_seps(2) [OF ps(3)] by (simp del: rune_len.simps)
    moreover have "para_sep @ drop 3 ?s = ?s" using ps(3) by (metis append_take_drop_id)
    ultimately show ?thesis
      using ps v unquote_u2029 [of "quote_body (drop 3 ?s) @ quote_char # w"]
      by (simp add: quote_body.simps(2) del: rune_len.simps)
  next
    case rune
    then have "unquote_body (quote_body (drop (rune_len ?s) ?s) @ quote_char # w)
        = Some (drop (rune_len ?s) ?s, w)"
      using 2(5) v by (simp del: rune_len.simps)
    with rune v show ?thesis
      using unquote_rune [OF v(1), of "quote_body (drop (rune_len ?s) ?s) @ quote_char # w"]
      by (simp add: quote_body.simps(2) del: rune_len.simps)
  qed
qed

text \<open>No quoted string contains a control byte, so a quoted string never breaks a line.\<close>

lemma hex_byte_printable: "x \<in> set (hex_byte c) \<Longrightarrow> 32 \<le> byte_val x"
proof -
  have "byte_val c div 16 < 16" using byte_val_bound [of c] by linarith
  then have "\<forall>x\<in>set (hex_byte c). is_lower_hex x" by (simp add: hex_byte_def)
  then show "x \<in> set (hex_byte c) \<Longrightarrow> 32 \<le> byte_val x" by (auto simp: is_lower_hex_def)
qed

lemma esc_byte_printable: "x \<in> set (esc_byte c) \<Longrightarrow> 32 \<le> byte_val x"
  unfolding esc_byte_def Let_def
  by (auto dest: hex_byte_printable split: if_splits)

lemma quote_body_printable: "x \<in> set (quote_body s) \<Longrightarrow> 32 \<le> byte_val x"
proof (induction s rule: quote_body.induct)
  case (2 c t)
  show ?case
  proof (cases "byte_val c < 128")
    case True
    with 2 show ?thesis by (auto simp: quote_body.simps(2) dest: esc_byte_printable)
  next
    case False
    have high: "rune_len (c # t) \<noteq> 0 \<Longrightarrow> x \<in> set (take (rune_len (c # t)) (c # t)) \<Longrightarrow> 32 \<le> byte_val x"
      using rune_len_high [of c t x] False by simp
    show ?thesis
      using 2 False high by (auto simp: quote_body.simps(2) simp del: rune_len.simps split: if_splits)
  qed
qed simp

section \<open>Values, printing and parsing\<close>

text \<open>A number keeps its literal text, as \<open>json.Number\<close> and the field decoders see it.\<close>

datatype json =
    JNull
  | JBool bool
  | JNum string
  | JStr string
  | JArr "json list"
  | JObj "(string \<times> json) list"

fun print_value :: "json \<Rightarrow> string"
and print_elems :: "json list \<Rightarrow> string"
and print_members :: "(string \<times> json) list \<Rightarrow> string" where
  "print_value JNull = ''null''"
| "print_value (JBool b) = (if b then ''true'' else ''false'')"
| "print_value (JNum l) = l"
| "print_value (JStr s) = quote s"
| "print_value (JArr []) = ''[]''"
| "print_value (JArr (v # vs)) = CHR ''['' # print_value v @ print_elems vs"
| "print_value (JObj []) = ''{}''"
| "print_value (JObj ((k, v) # ms)) =
     CHR ''{'' # quote k @ CHR '':'' # print_value v @ print_members ms"
| "print_elems [] = '']''"
| "print_elems (v # vs) = CHR '','' # print_value v @ print_elems vs"
| "print_members [] = ''}''"
| "print_members ((k, v) # ms) = CHR '','' # quote k @ CHR '':'' # print_value v @ print_members ms"

definition is_ws :: "char \<Rightarrow> bool" where
  "is_ws c = (byte_val c \<in> {32, 9, 10, 13})"

lemma is_ws_code [code]: "is_ws c \<longleftrightarrow> c = CHR 0x20 \<or> c = CHR 0x09 \<or> c = CHR 0x0A \<or> c = CHR 0x0D"
proof -
  have "byte_val c = n \<longleftrightarrow> c = byte_of n" if "n < 256" for n using that by (auto simp: of_char_of)
  then show ?thesis by (simp add: is_ws_def char_of_def bit_0)
qed

definition skip_ws :: "string \<Rightarrow> string" where
  "skip_ws = dropWhile is_ws"

definition eat :: "char \<Rightarrow> string \<Rightarrow> string option" where
  "eat c s = (case skip_ws s of [] \<Rightarrow> None | x # r \<Rightarrow> if x = c then Some r else None)"

text \<open>
  The number grammar: an optional minus, an integer part without superfluous leading
  zeros, an optional fraction, an optional exponent.
\<close>

definition int_part :: "string \<Rightarrow> (string \<times> string) option" where
  "int_part s =
     (case s of
        [] \<Rightarrow> None
      | c # r \<Rightarrow> if c = CHR ''0'' then Some ([c], r)
                else if is_digit c then Some (c # takeWhile is_digit r, dropWhile is_digit r)
                else None)"

definition digits1 :: "string \<Rightarrow> (string \<times> string) option" where
  "digits1 s =
     (case s of
        [] \<Rightarrow> None
      | c # r \<Rightarrow> if is_digit c then Some (takeWhile is_digit s, dropWhile is_digit s) else None)"

definition frac_part :: "string \<Rightarrow> (string \<times> string) option" where
  "frac_part s =
     (case s of
        [] \<Rightarrow> Some ([], s)
      | c # r \<Rightarrow> if c = CHR ''.'' then map_option (apfst (\<lambda>d. c # d)) (digits1 r) else Some ([], s))"

definition exp_part :: "string \<Rightarrow> (string \<times> string) option" where
  "exp_part s =
     (case s of
        [] \<Rightarrow> Some ([], s)
      | c # r \<Rightarrow>
          if c = CHR ''e'' \<or> c = CHR ''E'' then
            (case r of
               x # q \<Rightarrow> if x = CHR ''+'' \<or> x = CHR ''-''
                       then map_option (apfst (\<lambda>d. c # x # d)) (digits1 q)
                       else map_option (apfst (\<lambda>d. c # d)) (digits1 r)
             | [] \<Rightarrow> None)
          else Some ([], s))"

definition parse_number :: "string \<Rightarrow> (string \<times> string) option" where
  "parse_number s =
     (let (sg, r) = (case s of c # r \<Rightarrow> if c = CHR ''-'' then ([c], r) else ([], s) | [] \<Rightarrow> ([], s)) in
      case int_part r of None \<Rightarrow> None | Some (i, r1) \<Rightarrow>
      (case frac_part r1 of None \<Rightarrow> None | Some (f, r2) \<Rightarrow>
      (case exp_part r2 of None \<Rightarrow> None | Some (e, r3) \<Rightarrow> Some (sg @ i @ f @ e, r3))))"

text \<open>\<open>maxNestingDepth\<close> of the standard library's scanner.\<close>

definition max_depth :: nat where
  "max_depth = 10000"

definition at_max_depth :: "nat \<Rightarrow> bool" where [code_abbrev]: "at_max_depth d \<longleftrightarrow> max_depth \<le> d"

lemma at_max_depth_code [code]: "at_max_depth d \<longleftrightarrow> (10000 :: int) \<le> int d"
  by (auto simp: at_max_depth_def max_depth_def)

primrec parse_elems ::
  "(string \<Rightarrow> (json \<times> string) option) \<Rightarrow> nat \<Rightarrow> string \<Rightarrow> (json list \<times> string) option" where
  "parse_elems p 0 s = None"
| "parse_elems p (Suc k) s =
     (case eat (CHR '']'') s of
        Some r \<Rightarrow> Some ([], r)
      | None \<Rightarrow>
          Option.bind (eat (CHR '','') s) (\<lambda>r.
          Option.bind (p r) (\<lambda>(v, r1).
          map_option (apfst (\<lambda>vs. v # vs)) (parse_elems p k r1))))"

definition parse_member ::
  "(string \<Rightarrow> (json \<times> string) option) \<Rightarrow> string \<Rightarrow> ((string \<times> json) \<times> string) option" where
  "parse_member p s =
     Option.bind (eat quote_char s) (\<lambda>r.
     Option.bind (unquote_body r) (\<lambda>(key, r1).
     Option.bind (eat (CHR '':'') r1) (\<lambda>r2.
     map_option (apfst (\<lambda>v. (key, v))) (p r2))))"

primrec parse_members ::
  "(string \<Rightarrow> (json \<times> string) option) \<Rightarrow> nat \<Rightarrow> string \<Rightarrow> ((string \<times> json) list \<times> string) option" where
  "parse_members p 0 s = None"
| "parse_members p (Suc k) s =
     (case eat (CHR ''}'') s of
        Some r \<Rightarrow> Some ([], r)
      | None \<Rightarrow>
          Option.bind (eat (CHR '','') s) (\<lambda>r.
          Option.bind (parse_member p r) (\<lambda>(m, r1).
          map_option (apfst (\<lambda>ms. m # ms)) (parse_members p k r1))))"

definition parse_array ::
  "(string \<Rightarrow> (json \<times> string) option) \<Rightarrow> nat \<Rightarrow> string \<Rightarrow> (json \<times> string) option" where
  "parse_array p k r =
     (case eat (CHR '']'') r of
        Some q \<Rightarrow> Some (JArr [], q)
      | None \<Rightarrow> Option.bind (p r) (\<lambda>(v, r1). map_option (apfst (\<lambda>vs. JArr (v # vs))) (parse_elems p k r1)))"

definition parse_object ::
  "(string \<Rightarrow> (json \<times> string) option) \<Rightarrow> nat \<Rightarrow> string \<Rightarrow> (json \<times> string) option" where
  "parse_object p k r =
     (case eat (CHR ''}'') r of
        Some q \<Rightarrow> Some (JObj [], q)
      | None \<Rightarrow> Option.bind (parse_member p r) (\<lambda>(m, r1).
          map_option (apfst (\<lambda>ms. JObj (m # ms))) (parse_members p k r1)))"

definition parse_word :: "string \<Rightarrow> (json \<times> string) option" where
  "parse_word s =
     (if has_prefix s ''null'' then Some (JNull, drop 4 s)
      else if has_prefix s ''true'' then Some (JBool True, drop 4 s)
      else if has_prefix s ''false'' then Some (JBool False, drop 5 s)
      else None)"

primrec parse_value :: "nat \<Rightarrow> nat \<Rightarrow> string \<Rightarrow> (json \<times> string) option" where
  "parse_value 0 d s = None"
| "parse_value (Suc k) d s =
     (case skip_ws s of
        [] \<Rightarrow> None
      | c # r \<Rightarrow>
          if c = quote_char then map_option (apfst JStr) (unquote_body r)
          else if c = CHR ''['' then
            (if max_depth \<le> d then None else parse_array (parse_value k (Suc d)) k r)
          else if c = CHR ''{'' then
            (if max_depth \<le> d then None else parse_object (parse_value k (Suc d)) k r)
          else if c = CHR ''-'' \<or> is_digit c then map_option (apfst JNum) (parse_number (c # r))
          else parse_word (c # r))"

definition json_parse :: "string \<Rightarrow> json option" where
  "json_parse s =
     (case parse_value (Suc (length s)) 0 s of
        None \<Rightarrow> None
      | Some (v, r) \<Rightarrow> if skip_ws r = [] then Some v else None)"

section \<open>Round trip\<close>

fun wf_json :: "json \<Rightarrow> bool" where
  "wf_json JNull = True"
| "wf_json (JBool b) = True"
| "wf_json (JNum l) = (l \<in> range dec_int)"
| "wf_json (JStr s) = valid_utf8 s"
| "wf_json (JArr vs) = list_all wf_json vs"
| "wf_json (JObj ms) = list_all (\<lambda>(k, v). valid_utf8 k \<and> wf_json v) ms"

fun json_depth :: "json \<Rightarrow> nat" where
  "json_depth (JArr vs) = Suc (foldr max (map json_depth vs) 0)"
| "json_depth (JObj ms) = Suc (foldr max (map (\<lambda>(k, v). json_depth v) ms) 0)"
| "json_depth _ = 0"

definition ends_number :: "string \<Rightarrow> bool" where
  "ends_number w = (case w of [] \<Rightarrow> True
     | c # _ \<Rightarrow> \<not> is_digit c \<and> c \<noteq> CHR ''.'' \<and> c \<noteq> CHR ''e'' \<and> c \<noteq> CHR ''E'')"

lemma dec_nat_zero: "dec_nat 0 = ''0''"
  by (simp add: dec_nat.simps char_of_def bit_0)

lemma dec_nat_no_leading_zero: "0 < n \<Longrightarrow> hd (dec_nat n) \<noteq> CHR ''0''"
proof (induction n rule: dec_nat.induct)
  case (1 n)
  show ?case
  proof (cases "n < 10")
    case True
    have "byte_of (48 + n) \<noteq> CHR ''0''"
    proof
      assume "byte_of (48 + n) = CHR ''0''"
      then have "byte_val (byte_of (48 + n)) = byte_val (CHR ''0'')" by (rule arg_cong)
      with True 1(2) show False by simp
    qed
    with True show ?thesis by (subst dec_nat.simps) simp
  next
    case False
    then have "hd (dec_nat (n div 10)) \<noteq> CHR ''0''" using 1(1) by simp
    with False show ?thesis by (subst dec_nat.simps) simp
  qed
qed

lemma int_part_dec_nat:
  assumes "ends_number w"
  shows "int_part (dec_nat n @ w) = Some (dec_nat n, w)"
proof (cases "n = 0")
  case True
  then show ?thesis by (simp add: int_part_def dec_nat_zero)
next
  case False
  obtain c s where cs: "dec_nat n = c # s" "is_digit c" using dec_nat_hd by blast
  have "c \<noteq> CHR ''0''" using dec_nat_no_leading_zero [of n] False cs by simp
  moreover have "list_all is_digit s" using dec_nat_digits [of n] cs by simp
  then have "takeWhile is_digit (s @ w) = s" "dropWhile is_digit (s @ w) = w"
    using assms by (cases w; auto simp: ends_number_def takeWhile_append list_all_iff dropWhile_append)+
  ultimately show ?thesis using cs by (simp add: int_part_def)
qed

lemma parse_number_dec_int:
  assumes "ends_number w"
  shows "parse_number (dec_int i @ w) = Some (dec_int i, w)"
proof -
  have fe: "frac_part w = Some ([], w)" "exp_part w = Some ([], w)"
    using assms by (auto simp: frac_part_def exp_part_def ends_number_def split: list.splits)
  show ?thesis
  proof (cases "i < 0")
    case True
    then show ?thesis using assms fe
      by (simp add: dec_int_def parse_number_def int_part_dec_nat)
  next
    case False
    obtain c s where cs: "dec_nat (nat i) = c # s" "is_digit c" using dec_nat_hd by blast
    then have "c \<noteq> CHR ''-''" by (auto simp: is_digit_def)
    moreover have "int_part (c # s @ w) = Some (c # s, w)"
      using int_part_dec_nat [OF assms, of "nat i"] cs by simp
    ultimately show ?thesis using False fe cs
      by (simp add: dec_int_def parse_number_def)
  qed
qed

lemma not_ws_chars [simp]:
  "\<not> is_ws quote_char" "\<not> is_ws (CHR ''['')" "\<not> is_ws (CHR '']'')" "\<not> is_ws (CHR ''{'')"
  "\<not> is_ws (CHR ''}'')" "\<not> is_ws (CHR '','')" "\<not> is_ws (CHR '':'')" "\<not> is_ws (CHR ''-'')"
  "\<not> is_ws (CHR ''n'')" "\<not> is_ws (CHR ''t'')" "\<not> is_ws (CHR ''f'')"
  by (simp_all add: is_ws_def)

lemma digit_not_ws: "is_digit c \<Longrightarrow> \<not> is_ws c"
  by (auto simp: is_digit_def is_ws_def)

lemma skip_ws_Cons [simp]: "\<not> is_ws c \<Longrightarrow> skip_ws (c # r) = c # r"
  by (simp add: skip_ws_def)

lemma eat_Cons [simp]: "\<not> is_ws c \<Longrightarrow> eat x (c # r) = (if c = x then Some r else None)"
  by (simp add: eat_def)

lemma dec_int_hd: "\<exists>c s. dec_int i = c # s \<and> (c = CHR ''-'' \<or> is_digit c)"
  using dec_nat_hd [of "nat i"] by (auto simp: dec_int_def)

lemma print_value_hd:
  assumes "wf_json v"
  shows "\<exists>c s. print_value v = c # s \<and> \<not> is_ws c \<and> c \<noteq> CHR '']'' \<and> c \<noteq> CHR ''}''"
proof (cases v)
  case (JNum l)
  then obtain i where "l = dec_int i" using assms by auto
  then show ?thesis using JNum dec_int_hd [of i] digit_not_ws by (fastforce simp: is_digit_def)
next
  case (JArr vs)
  then show ?thesis by (cases vs) auto
next
  case (JObj ms)
  then show ?thesis by (cases ms) auto
qed (auto simp: quote_def)

lemma ends_number_elems [simp]: "ends_number (print_elems vs @ w)"
  by (cases vs) (simp_all add: ends_number_def is_digit_def)

lemma ends_number_members [simp]: "ends_number (print_members ms @ w)"
  by (induction ms rule: list.induct) (auto simp: ends_number_def is_digit_def)

definition reads_back :: "(string \<Rightarrow> (json \<times> string) option) \<Rightarrow> json \<Rightarrow> bool" where
  "reads_back p v \<longleftrightarrow> (\<forall>w. ends_number w \<longrightarrow> p (print_value v @ w) = Some (v, w))"

lemma parse_elems_print:
  "\<forall>v\<in>set vs. reads_back p v \<Longrightarrow> length vs < k \<Longrightarrow>
   parse_elems p k (print_elems vs @ w) = Some (vs, w)"
proof (induction vs arbitrary: k)
  case Nil
  then show ?case by (cases k) auto
next
  case (Cons v vs)
  then obtain j where k: "k = Suc j" "length vs < j" by (cases k) auto
  have "p (print_value v @ print_elems vs @ w) = Some (v, print_elems vs @ w)"
    using Cons.prems(1) by (simp add: reads_back_def)
  moreover have "parse_elems p j (print_elems vs @ w) = Some (vs, w)"
    using Cons k by simp
  ultimately show ?case using k by simp
qed

lemma parse_member_print:
  assumes "reads_back p v" "valid_utf8 key" "ends_number w"
  shows "parse_member p (quote key @ CHR '':'' # print_value v @ w) = Some ((key, v), w)"
  using assms unquote_quote_body [of key "CHR '':'' # print_value v @ w"]
  by (simp add: parse_member_def quote_def reads_back_def)

lemma parse_members_print:
  "\<forall>(key, v)\<in>set ms. valid_utf8 key \<and> reads_back p v \<Longrightarrow> length ms < k \<Longrightarrow>
   parse_members p k (print_members ms @ w) = Some (ms, w)"
proof (induction ms arbitrary: k)
  case Nil
  then show ?case by (cases k) auto
next
  case (Cons m ms)
  obtain key v where m: "m = (key, v)" by (cases m)
  from Cons obtain j where k: "k = Suc j" "length ms < j" by (cases k) auto
  have "parse_member p (quote key @ CHR '':'' # print_value v @ print_members ms @ w)
      = Some ((key, v), print_members ms @ w)"
    using Cons.prems(1) m by (intro parse_member_print) auto
  moreover have "parse_members p j (print_members ms @ w) = Some (ms, w)"
    using Cons k by auto
  ultimately show ?case using k m by simp
qed

lemma length_print_elems: "length vs < length (print_elems vs)"
  by (induction vs) (auto simp: split_beta)

lemma length_print_members: "length ms < length (print_members ms)"
  by (induction ms) (auto simp: split_beta)

lemma length_print_elem: "v \<in> set vs \<Longrightarrow> length (print_value v) < length (print_elems vs)"
  by (induction vs) auto

lemma length_print_member: "(key, v) \<in> set ms \<Longrightarrow> length (print_value v) < length (print_members ms)"
  by (induction ms) (auto simp: split_beta)

lemma length_print_arr:
  "length vs < length (print_value (JArr vs))"
  "v \<in> set vs \<Longrightarrow> length (print_value v) < length (print_value (JArr vs))"
  using length_print_elems [of "tl vs"] length_print_elem [of v "tl vs"] by (cases vs; auto)+

lemma length_print_obj:
  "length ms < length (print_value (JObj ms))"
  "(key, v) \<in> set ms \<Longrightarrow> length (print_value v) < length (print_value (JObj ms))"
proof -
  show "length ms < length (print_value (JObj ms))"
    using length_print_members [of "tl ms"] by (cases ms) (auto simp: split_beta)
  show "(key, v) \<in> set ms \<Longrightarrow> length (print_value v) < length (print_value (JObj ms))"
    using length_print_member [of key v "tl ms"] by (cases ms) (auto simp: split_beta)
qed

lemma print_value_arr_obj:
  "print_value (JArr vs) = CHR ''['' # tl (print_value (JArr vs))"
  "print_value (JObj ms) = CHR ''{'' # tl (print_value (JObj ms))"
  by (cases vs; simp) (cases ms, simp, auto)

lemma foldr_max_ge: "x \<in> set xs \<Longrightarrow> x \<le> foldr max xs (0::nat)"
  by (induction xs) auto

lemma reads_backI:
  assumes "\<And>w. ends_number w \<Longrightarrow> p (print_value v @ w) = Some (v, w)"
  shows "reads_back p v"
  using assms by (simp add: reads_back_def)

lemma eat_print_value:
  assumes "wf_json v"
  shows "eat (CHR '']'') (print_value v @ w) = None" "eat (CHR ''}'') (print_value v @ w) = None"
  using print_value_hd [OF assms] by auto

lemma parse_array_print:
  assumes "\<forall>v\<in>set vs. reads_back p v \<and> wf_json v" "length vs \<le> k"
  shows "parse_array p k (tl (print_value (JArr vs)) @ w) = Some (JArr vs, w)"
proof (cases vs)
  case (Cons v us)
  then have "p (print_value v @ print_elems us @ w) = Some (v, print_elems us @ w)"
    using assms by (simp add: reads_back_def)
  moreover have "parse_elems p k (print_elems us @ w) = Some (us, w)"
    using assms Cons by (intro parse_elems_print) auto
  ultimately show ?thesis
    using Cons assms eat_print_value(1) [of v] by (simp add: parse_array_def)
qed (simp add: parse_array_def)

lemma parse_object_print:
  assumes "\<forall>(key, v)\<in>set ms. valid_utf8 key \<and> reads_back p v" "length ms \<le> k"
  shows "parse_object p k (tl (print_value (JObj ms)) @ w) = Some (JObj ms, w)"
proof (cases ms)
  case (Cons m us)
  obtain key v where m: "m = (key, v)" by (cases m)
  have "parse_member p (quote key @ CHR '':'' # print_value v @ print_members us @ w)
      = Some ((key, v), print_members us @ w)"
    using assms Cons m by (intro parse_member_print) auto
  moreover have "parse_members p k (print_members us @ w) = Some (us, w)"
    using assms Cons by (intro parse_members_print) auto
  moreover have "eat (CHR ''}'') (quote key @ u) = None" for u
    by (simp add: quote_def)
  ultimately show ?thesis using Cons m by (simp add: parse_object_def)
qed (simp add: parse_object_def)

theorem parse_print:
  "wf_json v \<Longrightarrow> d + json_depth v \<le> max_depth \<Longrightarrow> length (print_value v) \<le> k \<Longrightarrow>
   reads_back (parse_value k d) v"
proof (induction v arbitrary: k d)
  case JNull
  then obtain j where "k = Suc j" by (cases k) auto
  then show ?case by (intro reads_backI) (simp add: parse_word_def is_digit_def)
next
  case (JBool b)
  then obtain j where "k = Suc j" by (cases k) (auto split: if_splits)
  then show ?case by (intro reads_backI) (simp add: parse_word_def is_digit_def)
next
  case (JNum l)
  then obtain i where l: "l = dec_int i" by auto
  obtain c s where cs: "dec_int i = c # s" "c = CHR ''-'' \<or> is_digit c" using dec_int_hd by blast
  obtain j where k: "k = Suc j" using JNum l cs by (cases k) auto
  have "c \<noteq> quote_char" "c \<noteq> CHR ''[''" "c \<noteq> CHR ''{''" "\<not> is_ws c"
    using cs(2) digit_not_ws by (auto simp: is_digit_def)
  then show ?case
    using k l cs parse_number_dec_int [of _ i] by (intro reads_backI) auto
next
  case (JStr s)
  then obtain j where "k = Suc j" by (cases k) (auto simp: quote_def)
  then show ?case using JStr
    by (intro reads_backI) (simp add: quote_def unquote_quote_body)
next
  case (JArr vs)
  obtain t where pr: "print_value (JArr vs) = CHR ''['' # t" using print_value_arr_obj(1) by blast
  note len = length_print_arr [where vs = vs]
  obtain j where k: "k = Suc j" using JArr.prems(3) pr by (cases k) auto
  have d: "v \<in> set vs \<Longrightarrow> Suc d + json_depth v \<le> max_depth" for v
    using JArr.prems foldr_max_ge [of "json_depth v" "map json_depth vs"] by fastforce
  have "\<forall>v\<in>set vs. reads_back (parse_value j (Suc d)) v \<and> wf_json v"
    using JArr.IH JArr.prems d len(2) k by (fastforce simp: list_all_iff)
  moreover have "length vs \<le> j" using len(1) JArr.prems(3) k by simp
  ultimately have "parse_array (parse_value j (Suc d)) j (t @ w) = Some (JArr vs, w)" for w
    using parse_array_print [of vs _ j w] pr by (simp del: print_value.simps)
  moreover have "\<not> max_depth \<le> d" using JArr.prems by simp
  ultimately show ?case using k pr
    by (intro reads_backI) (simp del: print_value.simps)
next
  case (JObj ms)
  obtain t where pr: "print_value (JObj ms) = CHR ''{'' # t" using print_value_arr_obj(2) by blast
  note len = length_print_obj [where ms = ms]
  obtain j where k: "k = Suc j" using JObj.prems(3) pr by (cases k) auto
  have d: "(key, v) \<in> set ms \<Longrightarrow> Suc d + json_depth v \<le> max_depth" for key v
    using JObj.prems foldr_max_ge [of "json_depth v" "map (\<lambda>(k, v). json_depth v) ms"]
    by (fastforce simp: image_iff)
  have "\<forall>(key, v)\<in>set ms. valid_utf8 key \<and> reads_back (parse_value j (Suc d)) v"
    using JObj.IH JObj.prems d len(2) k by (fastforce simp: list_all_iff)
  moreover have "length ms \<le> j" using len(1) JObj.prems(3) k by simp
  ultimately have "parse_object (parse_value j (Suc d)) j (t @ w) = Some (JObj ms, w)" for w
    using parse_object_print [of ms _ j w] pr by (simp del: print_value.simps)
  moreover have "\<not> max_depth \<le> d" using JObj.prems by simp
  ultimately show ?case using k pr
    by (intro reads_backI) (simp del: print_value.simps)
qed

lemma skip_ws_all: "list_all is_ws w \<Longrightarrow> skip_ws w = []"
  by (simp add: skip_ws_def list_all_iff)

theorem json_parse_print:
  assumes "wf_json v" "json_depth v \<le> max_depth" "list_all is_ws w"
  shows "json_parse (print_value v @ w) = Some v"
proof -
  have "ends_number w"
    using assms(3) by (cases w) (auto simp: ends_number_def is_ws_def is_digit_def)
  moreover have "reads_back (parse_value (Suc (length (print_value v @ w))) 0) v"
    using assms by (intro parse_print) auto
  ultimately have "parse_value (Suc (length (print_value v @ w))) 0 (print_value v @ w) = Some (v, w)"
    unfolding reads_back_def by blast
  then show ?thesis using assms(3)
    unfolding json_parse_def by (simp add: skip_ws_all del: parse_value.simps)
qed

lemma dec_int_printable: "x \<in> set (dec_int i) \<Longrightarrow> 32 \<le> byte_val x"
  using dec_nat_digits by (auto simp: dec_int_def list_all_iff is_digit_def split: if_splits; fastforce)

lemma print_printable:
  "wf_json v \<Longrightarrow> x \<in> set (print_value v) \<Longrightarrow> 32 \<le> byte_val x"
  "list_all wf_json vs \<Longrightarrow> x \<in> set (print_elems vs) \<Longrightarrow> 32 \<le> byte_val x"
  "list_all (\<lambda>(k, v). valid_utf8 k \<and> wf_json v) ms \<Longrightarrow> x \<in> set (print_members ms) \<Longrightarrow> 32 \<le> byte_val x"
  by (induction v and vs and ms rule: print_value_print_elems_print_members.induct)
     (auto simp: quote_def dest: quote_body_printable dec_int_printable split: if_splits)

section \<open>The parser's fuel\<close>

text \<open>
  Every successful parse consumes input, so the length of the input bounds both the nesting
  and the number of elements: more fuel than that never changes the result.
\<close>

definition consumes :: "(string \<Rightarrow> ('a \<times> string) option) \<Rightarrow> bool" where
  "consumes p \<longleftrightarrow> (\<forall>s v r. p s = Some (v, r) \<longrightarrow> length r < length s)"

lemma consumesD: "consumes p \<Longrightarrow> p s = Some (v, r) \<Longrightarrow> length r < length s"
  by (auto simp: consumes_def)

lemma skip_ws_length: "length (skip_ws s) \<le> length s"
  by (simp add: skip_ws_def length_dropWhile_le)

lemma eat_length: "eat c s = Some r \<Longrightarrow> length r < length s"
  using skip_ws_length [of s] by (auto simp: eat_def split: list.splits if_splits)

lemma unquote_body_length: "unquote_body s = Some (x, r) \<Longrightarrow> length r < length s"
proof (induction s arbitrary: x r rule: measure_induct_rule [of length])
  case (less s)
  show ?case
  proof (cases s)
    case Nil
    with less.prems show ?thesis by simp
  next
    case (Cons c t)
    have IH: "unquote_body u = Some (y, r) \<Longrightarrow> length u \<le> length t \<Longrightarrow> length r < Suc (length t)" for u y
      using less.IH [of u y r] Cons by simp
    have drop: "rune_len (c # t) \<noteq> 0 \<Longrightarrow> length (drop (rune_len (c # t)) (c # t)) \<le> length t" by simp
    show ?thesis
      using less.prems [unfolded Cons unquote_body.simps(2)] Cons
      by (auto simp del: rune_len.simps split: if_splits list.splits option.splits
            dest!: u_escape_length IH drop)
  qed
qed

lemma digits1_length: "digits1 s = Some (x, r) \<Longrightarrow> length r \<le> length s"
  using length_dropWhile_le [of is_digit s] by (auto simp: digits1_def split: list.splits if_splits)

lemma int_part_length: "int_part s = Some (x, r) \<Longrightarrow> length r < length s"
  using length_dropWhile_le [of is_digit "tl s"] by (auto simp: int_part_def split: list.splits if_splits)

lemma frac_part_length: "frac_part s = Some (x, r) \<Longrightarrow> length r \<le> length s"
  by (auto simp: frac_part_def dest!: digits1_length split: list.splits if_splits)

lemma exp_part_length: "exp_part s = Some (x, r) \<Longrightarrow> length r \<le> length s"
  by (auto simp: exp_part_def dest!: digits1_length split: list.splits if_splits)

lemma parse_number_length: "parse_number s = Some (x, r) \<Longrightarrow> length r < length s"
  by (auto simp: parse_number_def split: list.splits if_splits option.splits
      dest!: int_part_length frac_part_length exp_part_length)

lemma parse_word_length: "parse_word s = Some (x, r) \<Longrightarrow> length r < length s"
  by (auto simp: parse_word_def has_prefix_conv split: if_splits)

lemma parse_elems_length:
  "consumes p \<Longrightarrow> parse_elems p k s = Some (vs, r) \<Longrightarrow> length r < length s"
proof (induction k arbitrary: s vs)
  case (Suc k)
  then show ?case
    by (fastforce split: option.splits simp: bind_eq_Some_conv dest: eat_length consumesD)
qed simp

lemma parse_member_length:
  "consumes p \<Longrightarrow> parse_member p s = Some (m, r) \<Longrightarrow> length r < length s"
  by (fastforce simp: parse_member_def bind_eq_Some_conv dest: eat_length unquote_body_length consumesD)

lemma parse_members_length:
  "consumes p \<Longrightarrow> parse_members p k s = Some (ms, r) \<Longrightarrow> length r < length s"
proof (induction k arbitrary: s ms)
  case (Suc k)
  then show ?case
    by (fastforce split: option.splits simp: bind_eq_Some_conv dest: eat_length parse_member_length)
qed simp

lemma parse_array_length:
  assumes "consumes p" "parse_array p k s = Some (v, q)"
  shows "length q < length s"
proof (cases "eat (CHR '']'') s")
  case None
  with assms(2) obtain u r1 vs where "p s = Some (u, r1)" "parse_elems p k r1 = Some (vs, q)"
    by (auto simp: parse_array_def bind_eq_Some_conv)
  then show ?thesis
    using consumesD [OF assms(1)] parse_elems_length [OF assms(1)] by fastforce
qed (use assms in \<open>auto simp: parse_array_def dest: eat_length\<close>)

lemma parse_object_length:
  assumes "consumes p" "parse_object p k s = Some (v, q)"
  shows "length q < length s"
proof (cases "eat (CHR ''}'') s")
  case None
  with assms(2) obtain u r1 vs where "parse_member p s = Some (u, r1)" "parse_members p k r1 = Some (vs, q)"
    by (auto simp: parse_object_def bind_eq_Some_conv)
  then show ?thesis
    using parse_member_length [OF assms(1)] parse_members_length [OF assms(1)] by fastforce
qed (use assms in \<open>auto simp: parse_object_def dest: eat_length\<close>)

lemma consumes_parse_value: "consumes (parse_value k d)"
proof (induction k arbitrary: d)
  case 0
  then show ?case by (simp add: consumes_def)
next
  case (Suc k)
  note arr = parse_array_length [OF Suc] and obj = parse_object_length [OF Suc]
  have "length q < length (skip_ws s)" if "parse_value (Suc k) d s = Some (v, q)" for s v q
    using that by (auto split: list.splits if_splits
        dest!: arr obj unquote_body_length parse_number_length parse_word_length)
  then show ?case
    unfolding consumes_def using skip_ws_length order_less_le_trans by blast
qed

text \<open>Two element parsers that agree on everything shorter give the same list parsers.\<close>

lemma parse_elems_cong:
  assumes "consumes p"
  shows "\<forall>u. length u < length s \<longrightarrow> p u = q u \<Longrightarrow> length s < k \<Longrightarrow> length s < j \<Longrightarrow>
    parse_elems p k s = parse_elems q j s"
proof (induction k arbitrary: s j)
  case (Suc k)
  obtain i where j: "j = Suc i" using Suc.prems by (cases j) auto
  have "Option.bind (p r) (\<lambda>(v, r1). map_option (apfst (\<lambda>vs. v # vs)) (parse_elems p k r1)) =
        Option.bind (q r) (\<lambda>(v, r1). map_option (apfst (\<lambda>vs. v # vs)) (parse_elems q i r1))"
    if r: "eat (CHR '','') s = Some r" for r
  proof -
    have len: "length r < length s" by (rule eat_length [OF r])
    have "parse_elems p k r1 = parse_elems q i r1" if "p r = Some (v, r1)" for v r1
    proof (rule Suc.IH)
      have "length r1 < length r" by (rule consumesD [OF assms that])
      with len Suc.prems j show "\<forall>u. length u < length r1 \<longrightarrow> p u = q u" "length r1 < k" "length r1 < i"
        by auto
    qed
    moreover have pq: "p r = q r" using Suc.prems(1) len by blast
    ultimately show ?thesis by (cases "q r") (auto simp: pq)
  qed
  then show ?case using j by (cases "eat (CHR '','') s") (auto split: option.splits)
qed simp

lemma parse_member_cong:
  assumes "\<forall>u. length u < length s \<longrightarrow> p u = q u"
  shows "parse_member p s = parse_member q s"
proof -
  have "p u = q u" if "eat quote_char s = Some r" "unquote_body r = Some (key, r1)" "eat (CHR '':'') r1 = Some u"
    for r key r1 u
    using eat_length [OF that(1)] unquote_body_length [OF that(2)] eat_length [OF that(3)] assms by auto
  then show ?thesis
    by (auto simp: parse_member_def intro!: Option.bind_cong)
qed

lemma parse_members_cong:
  assumes "consumes p"
  shows "\<forall>u. length u < length s \<longrightarrow> p u = q u \<Longrightarrow> length s < k \<Longrightarrow> length s < j \<Longrightarrow>
    parse_members p k s = parse_members q j s"
proof (induction k arbitrary: s j)
  case (Suc k)
  obtain i where j: "j = Suc i" using Suc.prems by (cases j) auto
  have "Option.bind (parse_member p r) (\<lambda>(m, r1). map_option (apfst (\<lambda>ms. m # ms)) (parse_members p k r1)) =
        Option.bind (parse_member q r) (\<lambda>(m, r1). map_option (apfst (\<lambda>ms. m # ms)) (parse_members q i r1))"
    if r: "eat (CHR '','') s = Some r" for r
  proof -
    have len: "length r < length s" by (rule eat_length [OF r])
    have pq: "parse_member p r = parse_member q r"
      using Suc.prems(1) len by (intro parse_member_cong) auto
    have "parse_members p k r1 = parse_members q i r1" if "parse_member p r = Some (m, r1)" for m r1
    proof (rule Suc.IH)
      have "length r1 < length r" by (rule parse_member_length [OF assms that])
      with len Suc.prems j show "\<forall>u. length u < length r1 \<longrightarrow> p u = q u" "length r1 < k" "length r1 < i"
        by auto
    qed
    then show ?thesis by (cases "parse_member q r") (auto simp: pq)
  qed
  then show ?case using j by (cases "eat (CHR '','') s") (auto split: option.splits)
qed simp

lemma parse_array_cong:
  assumes "consumes p" "\<forall>u. length u \<le> length s \<longrightarrow> p u = q u" "length s \<le> k" "length s \<le> j"
  shows "parse_array p k s = parse_array q j s"
proof -
  have "parse_elems p k r = parse_elems q j r" if "p s = Some (v, r)" for v r
    using consumesD [OF assms(1) that] assms by (intro parse_elems_cong) auto
  then show ?thesis
    using assms(2) by (cases "q s") (auto simp: parse_array_def split: option.splits)
qed

lemma parse_object_cong:
  assumes "consumes p" "\<forall>u. length u \<le> length s \<longrightarrow> p u = q u" "length s \<le> k" "length s \<le> j"
  shows "parse_object p k s = parse_object q j s"
proof -
  have pq: "parse_member p s = parse_member q s"
    using assms by (intro parse_member_cong) auto
  have "parse_members p k r = parse_members q j r" if "parse_member p s = Some (v, r)" for v r
    using parse_member_length [OF assms(1) that] assms by (intro parse_members_cong) auto
  then show ?thesis
    by (cases "parse_member q s") (auto simp: pq parse_object_def split: option.splits)
qed

theorem parse_value_fuel:
  "length s < k \<Longrightarrow> length s < j \<Longrightarrow> parse_value k d s = parse_value j d s"
proof (induction k arbitrary: s d j)
  case (Suc k)
  obtain i where j: "j = Suc i" using Suc.prems by (cases j) auto
  have eq: "parse_value k (Suc d) u = parse_value i (Suc d) u" if "length u < length s" for u
    using that Suc.prems j by (intro Suc.IH) auto
  have "parse_array (parse_value k (Suc d)) k r = parse_array (parse_value i (Suc d)) i r"
    "parse_object (parse_value k (Suc d)) k r = parse_object (parse_value i (Suc d)) i r"
    if "skip_ws s = c # r" for c r
  proof -
    have "length r < length s" using skip_ws_length [of s] that by simp
    with eq Suc.prems j show
      "parse_array (parse_value k (Suc d)) k r = parse_array (parse_value i (Suc d)) i r"
      "parse_object (parse_value k (Suc d)) k r = parse_object (parse_value i (Suc d)) i r"
      by (auto intro!: parse_array_cong parse_object_cong consumes_parse_value)
  qed
  then show ?case using j by (auto split: list.splits)
qed simp

section \<open>Filling struct fields\<close>

text \<open>
  Field names match up to the folding of \<open>foldName\<close>: ASCII letters by case, and the Kelvin
  sign and the long s with K and S. Each accessor folds over the matching members in
  order; \<open>None\<close> is an \<open>UnmarshalTypeError\<close>.
\<close>

fun fold_name :: "string \<Rightarrow> string" where
  "fold_name (a # b # c # s) =
     (if [a, b, c] = [CHR 0xE2, CHR 0x84, CHR 0xAA] then CHR ''K'' # fold_name s
      else if [a, b] = [CHR 0xC5, CHR 0xBF] then CHR ''S'' # fold_name (c # s)
      else upper_byte a # fold_name (b # c # s))"
| "fold_name [a, b] =
     (if [a, b] = [CHR 0xC5, CHR 0xBF] then ''S'' else [upper_byte a, upper_byte b])"
| "fold_name [a] = [upper_byte a]"
| "fold_name [] = []"

definition field_vals :: "string \<Rightarrow> (string \<times> json) list \<Rightarrow> json list" where
  "field_vals name ms = map snd (filter (\<lambda>(k, v). fold_name k = fold_name name) ms)"

fun str_field :: "string \<Rightarrow> json list \<Rightarrow> string option" where
  "str_field x [] = Some x"
| "str_field x (JStr s # vs) = str_field s vs"
| "str_field x (JNull # vs) = str_field x vs"
| "str_field x (_ # vs) = None"

fun int64_field :: "int \<Rightarrow> json list \<Rightarrow> int option" where
  "int64_field x [] = Some x"
| "int64_field x (JNum l # vs) = Option.bind (parse_int64 l) (\<lambda>i. int64_field i vs)"
| "int64_field x (JNull # vs) = int64_field x vs"
| "int64_field x (_ # vs) = None"

fun bool_field :: "bool \<Rightarrow> json list \<Rightarrow> bool option" where
  "bool_field x [] = Some x"
| "bool_field x (JBool b # vs) = bool_field b vs"
| "bool_field x (JNull # vs) = bool_field x vs"
| "bool_field x (_ # vs) = None"

text \<open>A nested struct is decoded in place, so the members of repeated objects add up.\<close>

fun obj_field :: "(string \<times> json) list \<Rightarrow> json list \<Rightarrow> (string \<times> json) list option" where
  "obj_field ms [] = Some ms"
| "obj_field ms (JObj ns # vs) = obj_field (ms @ ns) vs"
| "obj_field ms (JNull # vs) = obj_field ms vs"
| "obj_field ms (_ # vs) = None"

text \<open>The members a top-level struct is filled from; a top-level \<open>null\<close> fills nothing.\<close>

definition json_members :: "string \<Rightarrow> (string \<times> json) list option" where
  "json_members s = Option.bind (json_parse s) (\<lambda>v. obj_field [] [v])"

definition json_int :: "int \<Rightarrow> json" where
  "json_int i = JNum (dec_int i)"

lemma wf_json_int [simp]: "wf_json (json_int i)"
  by (simp add: json_int_def)

lemma json_depth_int [simp]: "json_depth (json_int i) = 0"
  by (simp add: json_int_def)

lemma int64_field_json_int [simp]:
  "- (2 ^ 63) \<le> i \<Longrightarrow> i < 2 ^ 63 \<Longrightarrow> int64_field x (json_int i # vs) = int64_field i vs"
  by (simp add: json_int_def parse_int64_dec_int)

lemma json_members_print:
  assumes "wf_json (JObj ms)" "json_depth (JObj ms) \<le> max_depth" "list_all is_ws w"
  shows "json_members (print_value (JObj ms) @ w) = Some ms"
  using json_parse_print [OF assms] by (simp add: json_members_def)

lemma sint_i64_bounds: "- (2 ^ 63) \<le> sint (x :: i64)" "sint (x :: i64) < 2 ^ 63"
  using sint_ge [of x] sint_lt [of x] by simp_all

lemma int64_field_sint [simp]:
  "int64_field x (json_int (sint (w :: i64)) # vs) = int64_field (sint w) vs"
  using sint_i64_bounds [of w] by (rule int64_field_json_int)

end
