(* ===== verification/JsonLines.thy ===== *)
theory JsonLines
  imports Json
begin

text \<open>
  Append-only JSON-lines files, the on-disk shape that the handle store and the audit sink
  share. A reader delivers bytes until end of file or until a read error; both components
  consume it with the same \<open>ReadBytes\<close> loop, \<open>scan_lines\<close> here: a complete line goes to the
  component's line function, trailing bytes without a newline are reported as a torn tail.
  The locale \<open>line_log\<close> states what a component's line encoder and line function promise
  each other; inside it the recovery facts are proved once for both components.
\<close>

section \<open>The line loop\<close>

record stream =
  st_bytes :: string
  st_fault :: bool  \<comment> \<open>the read after the last byte fails instead of reporting end of file\<close>

datatype 'e scan_err = LineErr nat 'e | ReadErr

function scan_loop :: "('st \<Rightarrow> string \<Rightarrow> 'e + 'st) \<Rightarrow> nat \<Rightarrow> 'st \<Rightarrow> string \<Rightarrow> bool \<Rightarrow> ('e scan_err, 'st \<times> nat) res" where
  "scan_loop f n st s fault =
     (case dropWhile (\<lambda>c. c \<noteq> newline) s of
        x # rest \<Rightarrow>
          (case f st (takeWhile (\<lambda>c. c \<noteq> newline) s @ [newline]) of
             Inl e \<Rightarrow> Inl (LineErr (Suc n) e)
           | Inr st' \<Rightarrow> scan_loop f (Suc n) st' rest fault)
      | [] \<Rightarrow>
          if s \<noteq> [] then Inr (st, length s)
          else if fault then Inl ReadErr
          else Inr (st, 0))"
  by pat_completeness auto
termination
  by (relation "measure (\<lambda>(f, n, st, s, fault). length s)") (auto dest: dropWhile_length_less)

declare scan_loop.simps [simp del]

definition scan_lines :: "('st \<Rightarrow> string \<Rightarrow> 'e + 'st) \<Rightarrow> 'st \<Rightarrow> stream \<Rightarrow> ('e scan_err, 'st \<times> nat) res" where
  "scan_lines f st r = scan_loop f 0 st (st_bytes r) (st_fault r)"

lemma scan_loop_line:
  assumes "newline \<notin> set l"
  shows "scan_loop f n st (l @ newline # s) fault =
    (case f st (l @ [newline]) of Inl e \<Rightarrow> Inl (LineErr (Suc n) e)
     | Inr st' \<Rightarrow> scan_loop f (Suc n) st' s fault)"
proof -
  have "dropWhile (\<lambda>c. c \<noteq> newline) (l @ newline # s) = newline # s"
    "takeWhile (\<lambda>c. c \<noteq> newline) (l @ newline # s) = l"
    using assms by (auto intro!: dropWhile_eq_tail_append takeWhile_eq_all_append)
  then show ?thesis by (subst scan_loop.simps) simp
qed

lemma scan_loop_tail:
  assumes "newline \<notin> set t"
  shows "scan_loop f n st t fault =
    (if t \<noteq> [] then Inr (st, length t) else if fault then Inl ReadErr else Inr (st, 0))"
proof -
  have "dropWhile (\<lambda>c. c \<noteq> newline) t = []"
    using assms by (auto simp: dropWhile_eq_Nil_conv)
  then show ?thesis by (subst scan_loop.simps) (simp del: dropWhile_eq_Nil_conv)
qed

lemma scan_loop_tail_eof:
  "newline \<notin> set t \<Longrightarrow> scan_loop f n st t False = Inr (st, length t)"
  by (simp add: scan_loop_tail)

text \<open>A clean end of file never reports more torn bytes than the file holds.\<close>

lemma scan_loop_torn_le: "scan_loop f n st s fault = Inr (st', torn) \<Longrightarrow> torn \<le> length s"
proof (induction f n st s fault rule: scan_loop.induct)
  case (1 f n st s fault)
  show ?case
  proof (cases "dropWhile (\<lambda>c. c \<noteq> newline) s")
    case Nil
    with 1(2) show ?thesis by (subst (asm) scan_loop.simps) (auto split: if_splits)
  next
    case (Cons x rest)
    then obtain st1 where st1: "f st (takeWhile (\<lambda>c. c \<noteq> newline) s @ [newline]) = Inr st1"
      "scan_loop f (Suc n) st1 rest fault = Inr (st', torn)"
      using 1(2) by (subst (asm) scan_loop.simps) (auto split: sum.splits)
    then have "torn \<le> length rest" using 1(1) Cons by simp
    with dropWhile_length_less [OF Cons] show ?thesis by simp
  qed
qed

section \<open>What a line encoder and a line function promise each other\<close>

text \<open>
  \<open>enc a\<close> is the text appended for an entry \<open>a\<close> (without its newline), \<open>step\<close> the function
  run on a complete line during recovery, \<open>apply_entry\<close> the effect of an acknowledged entry
  on the in-memory state, and \<open>fits st a\<close> the condition under which \<open>a\<close> may be appended in
  state \<open>st\<close>.
\<close>

locale line_log =
  fixes enc :: "'a \<Rightarrow> string"
    and step :: "'st \<Rightarrow> string \<Rightarrow> 'e + 'st"
    and apply_entry :: "'a \<Rightarrow> 'st \<Rightarrow> 'st"
    and fits :: "'st \<Rightarrow> 'a \<Rightarrow> bool"
  assumes enc_no_newline: "fits st a \<Longrightarrow> newline \<notin> set (enc a)"
    and step_enc: "fits st a \<Longrightarrow> step st (enc a @ [newline]) = Inr (apply_entry a st)"
begin

fun all_fit :: "'st \<Rightarrow> 'a list \<Rightarrow> bool" where
  "all_fit st [] = True"
| "all_fit st (a # as) = (fits st a \<and> all_fit (apply_entry a st) as)"

definition log_text :: "'a list \<Rightarrow> string" where
  "log_text as = concat (map (\<lambda>a. enc a @ [newline]) as)"

lemma log_text_simps [simp]:
  "log_text [] = []"
  "log_text (a # as) = enc a @ newline # log_text as"
  "log_text (as @ bs) = log_text as @ log_text bs"
  by (simp_all add: log_text_def)

lemma all_fit_append: "all_fit st (as @ bs) \<longleftrightarrow> all_fit st as \<and> all_fit (fold apply_entry as st) bs"
  by (induction as arbitrary: st) auto

lemma scan_log:
  "all_fit st as \<Longrightarrow>
   scan_loop step n st (log_text as @ t) fault = scan_loop step (n + length as) (fold apply_entry as st) t fault"
  by (induction as arbitrary: st n) (auto simp: scan_loop_line enc_no_newline step_enc)

lemma recover:
  assumes "all_fit st as" "newline \<notin> set t"
  shows "scan_lines step st \<lparr>st_bytes = log_text as @ t, st_fault = False\<rparr>
    = Inr (fold apply_entry as st, length t)"
  using assms by (simp add: scan_lines_def scan_log scan_loop_tail_eof)

lemma recover_log:
  "all_fit st as \<Longrightarrow> scan_lines step st \<lparr>st_bytes = log_text as, st_fault = False\<rparr>
    = Inr (fold apply_entry as st, 0)"
  using recover [of st as "[]"] by simp

text \<open>
  A crash while the last entry is being written leaves a prefix of its line. Recovery yields
  the state without the entry and reports exactly the fragment as torn, or, when the whole
  line reached the disk, the state with the entry.
\<close>

lemma recover_crash:
  assumes "all_fit st as" "fits (fold apply_entry as st) a"
  shows "scan_lines step st \<lparr>st_bytes = log_text as @ take n (enc a @ [newline]), st_fault = False\<rparr> =
    (if n \<le> length (enc a) then Inr (fold apply_entry as st, n)
     else Inr (apply_entry a (fold apply_entry as st), 0))"
proof (cases "n \<le> length (enc a)")
  case True
  then have "take n (enc a @ [newline]) = take n (enc a)" "length (take n (enc a)) = n"
    by simp_all
  moreover have "newline \<notin> set (take n (enc a))"
    using enc_no_newline [OF assms(2)] by (meson in_set_takeD)
  ultimately show ?thesis using recover [OF assms(1), of "take n (enc a)"] True by simp
next
  case False
  then have "log_text as @ take n (enc a @ [newline]) = log_text (as @ [a])" by simp
  moreover have "all_fit st (as @ [a])" using assms by (simp add: all_fit_append)
  ultimately show ?thesis using recover_log [of st "as @ [a]"] False by simp
qed

text \<open>
  A read error inside a line is reported as a torn tail: the bytes delivered before the
  error have no newline after them, and the loop looks at them before it looks at the error.
\<close>

lemma read_error_as_torn:
  assumes "all_fit st as" "newline \<notin> set t" "t \<noteq> []"
  shows "scan_lines step st \<lparr>st_bytes = log_text as @ t, st_fault = True\<rparr>
    = Inr (fold apply_entry as st, length t)"
  using assms by (simp add: scan_lines_def scan_log scan_loop_tail)

end

end
