(* ===== verification/HandleStore.thy ===== *)
theory HandleStore
  imports JsonLines "HOL-Library.AList"
begin

text \<open>
  The durable \<open>file_id\<close> handle store (\<open>src/internal/handlestore\<close> without its paging, which is
  in \<open>HandleList\<close>): the record type, the JSON-lines log with its put and del envelopes, replay,
  construction with torn-tail repair, the failure latch, and the operations Put,
  EnsureObject, Get, Delete and Close. The file is part of the state, so durability and crash
  recovery are statements about its bytes.
\<close>

section \<open>Records, inputs and errors\<close>

record handle_record =
  hr_file_id :: string
  hr_scope :: string
  hr_object_ref :: string
  hr_filename :: string
  hr_mime :: string
  hr_size :: i64
  hr_created_at :: string
  hr_policy_ref :: string
  hr_sha256 :: string

record put_input =
  pi_scope :: string
  pi_object_ref :: string
  pi_filename :: string
  pi_mime :: string
  pi_size :: i64
  pi_policy_ref :: string
  pi_sha256 :: string

record ensure_input =
  ei_scope :: string
  ei_object_ref :: string
  ei_filename :: string
  ei_mime :: string
  ei_size :: i64
  ei_policy_ref :: string

datatype hs_err = ErrNotFound | ErrStoreUnavailable | ErrMalformedCursor

definition audit_object_handle :: "handle_record \<Rightarrow> string" where
  "audit_object_handle r = hr_object_ref r"

definition hs_audit_reason :: "hs_err option \<Rightarrow> string" where
  "hs_audit_reason e = (case e of
     None \<Rightarrow> ''''
   | Some ErrNotFound \<Rightarrow> ''not_found''
   | Some ErrStoreUnavailable \<Rightarrow> ''internal''
   | Some ErrMalformedCursor \<Rightarrow> '''')"

text \<open>\<open>objectid.New\<close>: the hexadecimal form of 16 random bytes, the argument here.\<close>

definition objectid_new :: "string \<Rightarrow> string" where
  "objectid_new rnd = hex_encode rnd"

section \<open>The index and the tombstone mask\<close>

text \<open>
  \<open>recs\<close> is a Go map; the association list keeps its entries in one of the possible iteration
  orders. The two nested maps are the Go maps of maps: a scope without entry is a nil inner
  map.
\<close>

record hs_mem =
  hm_recs :: "(string \<times> handle_record) list"
  hm_index :: "string \<rightharpoonup> (string \<rightharpoonup> string)"
  hm_tomb :: "string \<rightharpoonup> (string \<rightharpoonup> bool)"

definition empty_mem :: hs_mem where
  "empty_mem = \<lparr>hm_recs = [], hm_index = Map.empty, hm_tomb = Map.empty\<rparr>"

definition normalize_ref :: "string \<Rightarrow> string" where
  "normalize_ref r = trim_prefix r ''/''"

definition index_ref :: "string \<Rightarrow> string \<Rightarrow> string \<Rightarrow> hs_mem \<Rightarrow> hs_mem" where
  "index_ref scope ref fid m =
     (let key = normalize_ref ref;
          by_ref = (case hm_index m scope of None \<Rightarrow> Map.empty | Some b \<Rightarrow> b);
          tomb = (case hm_tomb m scope of
                    None \<Rightarrow> hm_tomb m
                  | Some ts \<Rightarrow> (hm_tomb m)(scope \<mapsto> ts(key := None)))
      in m\<lparr>hm_index := (hm_index m)(scope \<mapsto> by_ref(key \<mapsto> fid)), hm_tomb := tomb\<rparr>)"

definition unindex_ref :: "string \<Rightarrow> string \<Rightarrow> hs_mem \<Rightarrow> hs_mem" where
  "unindex_ref scope ref m =
     (let key = normalize_ref ref;
          idx = (case hm_index m scope of
                   None \<Rightarrow> hm_index m
                 | Some b \<Rightarrow> (hm_index m)(scope \<mapsto> b(key := None)));
          ts = (case hm_tomb m scope of None \<Rightarrow> Map.empty | Some ts \<Rightarrow> ts)
      in m\<lparr>hm_index := idx, hm_tomb := (hm_tomb m)(scope \<mapsto> ts(key \<mapsto> True))\<rparr>)"

definition tombstoned :: "hs_mem \<Rightarrow> string \<Rightarrow> string \<Rightarrow> bool" where
  "tombstoned m scope key =
     (case hm_tomb m scope of None \<Rightarrow> False | Some ts \<Rightarrow> ts key = Some True)"

definition indexed :: "hs_mem \<Rightarrow> string \<Rightarrow> string \<Rightarrow> string option" where
  "indexed m scope key = (case hm_index m scope of None \<Rightarrow> None | Some b \<Rightarrow> b key)"

text \<open>
  The two in-memory mutations: what Put does after its append and replay does for a put
  line, and what Delete does after its append and replay does for a del line.
\<close>

definition fold_put :: "handle_record \<Rightarrow> hs_mem \<Rightarrow> hs_mem" where
  "fold_put r m =
     index_ref (hr_scope r) (hr_object_ref r) (hr_file_id r)
       (m\<lparr>hm_recs := AList.update (hr_file_id r) r (hm_recs m)\<rparr>)"

definition fold_del :: "string \<Rightarrow> hs_mem \<Rightarrow> hs_mem" where
  "fold_del fid m =
     (let m' = (case map_of (hm_recs m) fid of
                  Some r \<Rightarrow> unindex_ref (hr_scope r) (hr_object_ref r) m
                | None \<Rightarrow> m)
      in m'\<lparr>hm_recs := AList.delete fid (hm_recs m')\<rparr>)"

section \<open>The log\<close>

datatype envelope =
    PutEnvelope handle_record
  | DelEnvelope string string

definition record_json :: "handle_record \<Rightarrow> json" where
  "record_json r = JObj
     [(''file_id'', JStr (hr_file_id r)),
      (''scope'', JStr (hr_scope r)),
      (''object_ref'', JStr (hr_object_ref r)),
      (''filename'', JStr (hr_filename r)),
      (''mime'', JStr (hr_mime r)),
      (''size'', json_int (sint (hr_size r))),
      (''created_at'', JStr (hr_created_at r)),
      (''downloadable_policy_ref'', JStr (hr_policy_ref r)),
      (''sha256'', JStr (hr_sha256 r))]"

fun envelope_json :: "envelope \<Rightarrow> json" where
  "envelope_json (PutEnvelope r) = JObj [(''op'', JStr ''put''), (''record'', record_json r)]"
| "envelope_json (DelEnvelope fid scope) =
     JObj [(''op'', JStr ''del''), (''file_id'', JStr fid), (''scope'', JStr scope)]"

definition envelope_line :: "envelope \<Rightarrow> string" where
  "envelope_line e = print_value (envelope_json e)"

definition decode_record :: "(string \<times> json) list \<Rightarrow> handle_record option" where
  "decode_record ms =
     Option.bind (str_field [] (field_vals ''file_id'' ms)) (\<lambda>fid.
     Option.bind (str_field [] (field_vals ''scope'' ms)) (\<lambda>scope.
     Option.bind (str_field [] (field_vals ''object_ref'' ms)) (\<lambda>ref.
     Option.bind (str_field [] (field_vals ''filename'' ms)) (\<lambda>name.
     Option.bind (str_field [] (field_vals ''mime'' ms)) (\<lambda>mime.
     Option.bind (int64_field 0 (field_vals ''size'' ms)) (\<lambda>size.
     Option.bind (str_field [] (field_vals ''created_at'' ms)) (\<lambda>created.
     Option.bind (str_field [] (field_vals ''downloadable_policy_ref'' ms)) (\<lambda>policy.
     Option.bind (str_field [] (field_vals ''sha256'' ms)) (\<lambda>sha.
     Some \<lparr>hr_file_id = fid, hr_scope = scope, hr_object_ref = ref, hr_filename = name,
           hr_mime = mime, hr_size = word_of_int size, hr_created_at = created,
           hr_policy_ref = policy, hr_sha256 = sha\<rparr>)))))))))"

datatype line_fault = BadOp | BadPut | BadDel | EmptyFileId | UnknownOp

definition apply_line :: "hs_mem \<Rightarrow> string \<Rightarrow> line_fault + hs_mem" where
  "apply_line m line =
     (case Option.bind (json_members line) (\<lambda>ms. str_field [] (field_vals ''op'' ms)) of
        None \<Rightarrow> Inl BadOp
      | Some op \<Rightarrow>
          (let ms = the (json_members line) in
           if op = ''put'' then
             (case Option.bind (obj_field [] (field_vals ''record'' ms)) decode_record of
                None \<Rightarrow> Inl BadPut
              | Some r \<Rightarrow> if hr_file_id r = [] then Inl EmptyFileId else Inr (fold_put r m))
           else if op = ''del'' then
             (case (str_field [] (field_vals ''file_id'' ms), str_field [] (field_vals ''scope'' ms)) of
                (Some fid, Some _) \<Rightarrow> if fid = [] then Inl EmptyFileId else Inr (fold_del fid m)
              | _ \<Rightarrow> Inl BadDel)
           else Inl UnknownOp))"

definition replay :: "stream \<Rightarrow> (line_fault scan_err, hs_mem \<times> nat) res" where
  "replay r = scan_lines apply_line empty_mem r"


lemma fold_names:
  "fold_name ''file_id'' = ''FILE_ID''" "fold_name ''scope'' = ''SCOPE''"
  "fold_name ''object_ref'' = ''OBJECT_REF''" "fold_name ''filename'' = ''FILENAME''"
  "fold_name ''mime'' = ''MIME''" "fold_name ''size'' = ''SIZE''"
  "fold_name ''created_at'' = ''CREATED_AT''"
  "fold_name ''downloadable_policy_ref'' = ''DOWNLOADABLE_POLICY_REF''"
  "fold_name ''sha256'' = ''SHA256''" "fold_name ''op'' = ''OP''" "fold_name ''record'' = ''RECORD''"
  by (simp_all add: upper_byte_def char_of_def bit_0)

section \<open>The log entries read back\<close>

definition wf_record :: "handle_record \<Rightarrow> bool" where
  "wf_record r \<longleftrightarrow> hr_file_id r \<noteq> [] \<and> valid_utf8 (hr_file_id r) \<and> valid_utf8 (hr_scope r) \<and>
     valid_utf8 (hr_object_ref r) \<and> valid_utf8 (hr_filename r) \<and> valid_utf8 (hr_mime r) \<and>
     valid_utf8 (hr_created_at r) \<and> valid_utf8 (hr_policy_ref r) \<and> valid_utf8 (hr_sha256 r)"

fun wf_envelope :: "envelope \<Rightarrow> bool" where
  "wf_envelope (PutEnvelope r) = wf_record r"
| "wf_envelope (DelEnvelope fid scope) = (fid \<noteq> [] \<and> valid_utf8 fid \<and> valid_utf8 scope)"

fun apply_envelope :: "envelope \<Rightarrow> hs_mem \<Rightarrow> hs_mem" where
  "apply_envelope (PutEnvelope r) m = fold_put r m"
| "apply_envelope (DelEnvelope fid scope) m = fold_del fid m"

lemma valid_names:
  "valid_utf8 ''file_id''" "valid_utf8 ''scope''" "valid_utf8 ''object_ref''" "valid_utf8 ''filename''"
  "valid_utf8 ''mime''" "valid_utf8 ''size''" "valid_utf8 ''created_at''"
  "valid_utf8 ''downloadable_policy_ref''" "valid_utf8 ''sha256''" "valid_utf8 ''op''"
  "valid_utf8 ''record''" "valid_utf8 ''put''" "valid_utf8 ''del''"
  by (simp_all add: valid_utf8_ascii)

lemma wf_record_json: "wf_record r \<Longrightarrow> wf_json (record_json r)"
  by (simp add: record_json_def wf_record_def valid_names)

lemma wf_envelope_json: "wf_envelope e \<Longrightarrow> wf_json (envelope_json e)"
  by (cases e) (auto simp: valid_names wf_record_json)

lemma depth_envelope_json: "json_depth (envelope_json e) \<le> max_depth"
  by (cases e) (auto simp: record_json_def max_depth_def)

lemma decode_record_json:
  assumes "record_json r = JObj ms"
  shows "decode_record ms = Some r"
proof -
  have ms: "ms = [(''file_id'', JStr (hr_file_id r)), (''scope'', JStr (hr_scope r)),
      (''object_ref'', JStr (hr_object_ref r)), (''filename'', JStr (hr_filename r)),
      (''mime'', JStr (hr_mime r)), (''size'', json_int (sint (hr_size r))),
      (''created_at'', JStr (hr_created_at r)),
      (''downloadable_policy_ref'', JStr (hr_policy_ref r)), (''sha256'', JStr (hr_sha256 r))]"
    using assms by (simp add: record_json_def)
  show ?thesis
    unfolding ms decode_record_def field_vals_def
    by (simp add: fold_names sint_i64_bounds del: fold_name.simps)
qed

lemma apply_line_envelope:
  assumes "wf_envelope e"
  shows "apply_line m (envelope_line e @ [newline]) = Inr (apply_envelope e m)"
proof -
  obtain ms where ms: "envelope_json e = JObj ms" by (cases e) auto
  have "json_members (envelope_line e @ [newline]) = Some ms"
    unfolding envelope_line_def ms
    using wf_envelope_json [OF assms] depth_envelope_json [of e] ms
    by (intro json_members_print) (auto simp: is_ws_def)
  then show ?thesis
  proof (cases e)
    case (PutEnvelope r)
    then obtain rs where rs: "record_json r = JObj rs" by (simp add: record_json_def)
    with PutEnvelope ms \<open>json_members _ = Some ms\<close> assms show ?thesis
      by (auto simp: apply_line_def field_vals_def fold_names decode_record_json [OF rs] wf_record_def
          simp del: fold_name.simps)
  next
    case (DelEnvelope fid scope)
    with ms \<open>json_members _ = Some ms\<close> assms show ?thesis
      by (auto simp: apply_line_def field_vals_def fold_names simp del: fold_name.simps)
  qed
qed

lemma envelope_line_no_newline: "wf_envelope e \<Longrightarrow> newline \<notin> set (envelope_line e)"
  using print_printable(1) [OF wf_envelope_json] by (fastforce simp: envelope_line_def)

interpretation hlog: line_log envelope_line apply_line apply_envelope "\<lambda>_. wf_envelope"
  by unfold_locales (simp_all add: apply_line_envelope envelope_line_no_newline)

section \<open>The store\<close>

text \<open>
  \<open>ds_file\<close> is the content of the log file that survives a crash, \<open>ds_open\<close> whether the store
  still owns its descriptor. \<open>ds_on_latch\<close> says whether a latch callback is registered and
  \<open>ds_latch_calls\<close> counts its invocations.
\<close>

record disk_store =
  ds_mem :: hs_mem
  ds_file :: string
  ds_failed :: bool
  ds_closed :: bool
  ds_open :: bool
  ds_on_latch :: bool
  ds_latch_calls :: nat

text \<open>
  What the operating system does with one append: the write and the sync succeed, the write
  fails after some bytes, or the sync fails and some prefix of the line is on disk.
\<close>

datatype append_io = AppendOk | WriteFault nat | SyncFault nat

definition latch :: "disk_store \<Rightarrow> disk_store" where
  "latch s = s\<lparr>ds_failed := True, ds_on_latch := False,
     ds_latch_calls := (if ds_on_latch s then Suc (ds_latch_calls s) else ds_latch_calls s)\<rparr>"

definition durable_append :: "append_io \<Rightarrow> envelope \<Rightarrow> disk_store \<Rightarrow> (hs_err, unit) res \<times> disk_store" where
  "durable_append io e s =
     (let line = envelope_line e @ [newline] in
      case io of
        WriteFault n \<Rightarrow> (Inl ErrStoreUnavailable, latch (s\<lparr>ds_file := ds_file s @ take n line\<rparr>))
      | SyncFault n \<Rightarrow> (Inl ErrStoreUnavailable, latch (s\<lparr>ds_file := ds_file s @ take n line\<rparr>))
      | AppendOk \<Rightarrow> (Inr (), s\<lparr>ds_file := ds_file s @ line\<rparr>))"

text \<open>
  What a request brings besides its arguments: whether its context is already done, the
  random bytes for a fresh id, the clock as RFC-3339 text, and the fate of an append.
\<close>

record req_env =
  rq_ctx_done :: bool
  rq_rnd :: string
  rq_now :: string
  rq_io :: append_io

definition put_record :: "req_env \<Rightarrow> put_input \<Rightarrow> handle_record" where
  "put_record q i =
     \<lparr>hr_file_id = objectid_new (rq_rnd q), hr_scope = pi_scope i, hr_object_ref = pi_object_ref i,
      hr_filename = pi_filename i, hr_mime = pi_mime i, hr_size = pi_size i,
      hr_created_at = rq_now q, hr_policy_ref = pi_policy_ref i, hr_sha256 = pi_sha256 i\<rparr>"

definition put :: "req_env \<Rightarrow> put_input \<Rightarrow> disk_store \<Rightarrow> (hs_err, handle_record) res \<times> disk_store" where
  "put q i s =
     (if rq_ctx_done q then (Inl ErrStoreUnavailable, s)
      else if ds_failed s \<or> ds_closed s then (Inl ErrStoreUnavailable, s)
      else
        (let r = put_record q i in
         case durable_append (rq_io q) (PutEnvelope r) s of
           (Inl e, s') \<Rightarrow> (Inl e, s')
         | (Inr _, s') \<Rightarrow> (Inr r, s'\<lparr>ds_mem := fold_put r (ds_mem s')\<rparr>)))"

definition ensure_record :: "req_env \<Rightarrow> ensure_input \<Rightarrow> handle_record" where
  "ensure_record q i =
     \<lparr>hr_file_id = objectid_new (rq_rnd q), hr_scope = ei_scope i, hr_object_ref = ei_object_ref i,
      hr_filename = ei_filename i, hr_mime = ei_mime i, hr_size = ei_size i,
      hr_created_at = rq_now q, hr_policy_ref = ei_policy_ref i, hr_sha256 = []\<rparr>"

definition ensured_lookup :: "hs_mem \<Rightarrow> string \<Rightarrow> string \<Rightarrow> handle_record option" where
  "ensured_lookup m scope key = Option.bind (indexed m scope key) (map_of (hm_recs m))"

definition ensure_object :: "req_env \<Rightarrow> ensure_input \<Rightarrow> disk_store \<Rightarrow> (hs_err, handle_record) res \<times> disk_store" where
  "ensure_object q i s =
     (if rq_ctx_done q then (Inl ErrStoreUnavailable, s)
      else if ds_failed s \<or> ds_closed s then (Inl ErrStoreUnavailable, s)
      else
        (let key = normalize_ref (ei_object_ref i) in
         if tombstoned (ds_mem s) (ei_scope i) key then (Inl ErrNotFound, s)
         else
           (case ensured_lookup (ds_mem s) (ei_scope i) key of
              Some r \<Rightarrow> (Inr r, s)
            | None \<Rightarrow>
                (let r = ensure_record q i in
                 case durable_append (rq_io q) (PutEnvelope r) s of
                   (Inl e, s') \<Rightarrow> (Inl e, s')
                 | (Inr _, s') \<Rightarrow> (Inr r, s'\<lparr>ds_mem := fold_put r (ds_mem s')\<rparr>)))))"

definition get_handle :: "string \<Rightarrow> string \<Rightarrow> disk_store \<Rightarrow> (hs_err, handle_record) res" where
  "get_handle fid scope s =
     (if scope = [] then Inl ErrNotFound
      else
        (case map_of (hm_recs (ds_mem s)) fid of
           None \<Rightarrow> Inl ErrNotFound
         | Some r \<Rightarrow> if hr_scope r \<noteq> scope then Inl ErrNotFound else Inr r))"

definition delete_handle :: "req_env \<Rightarrow> string \<Rightarrow> string \<Rightarrow> disk_store \<Rightarrow> (hs_err, unit) res \<times> disk_store" where
  "delete_handle q fid scope s =
     (if rq_ctx_done q then (Inl ErrStoreUnavailable, s)
      else if scope = [] then (Inl ErrNotFound, s)
      else if ds_failed s \<or> ds_closed s then (Inl ErrStoreUnavailable, s)
      else
        (case map_of (hm_recs (ds_mem s)) fid of
           None \<Rightarrow> (Inl ErrNotFound, s)
         | Some r \<Rightarrow>
             if hr_scope r \<noteq> scope then (Inl ErrNotFound, s)
             else
               (case durable_append (rq_io q) (DelEnvelope fid (hr_scope r)) s of
                  (Inl e, s') \<Rightarrow> (Inl e, s')
                | (Inr _, s') \<Rightarrow>
                    (let m = unindex_ref (hr_scope r) (hr_object_ref r) (ds_mem s')
                     in (Inr (), s'\<lparr>ds_mem := m\<lparr>hm_recs := AList.delete fid (hm_recs m)\<rparr>\<rparr>)))))"

definition latched :: "disk_store \<Rightarrow> bool" where
  "latched s = ds_failed s"

definition set_on_latch :: "disk_store \<Rightarrow> disk_store" where
  "set_on_latch s = (if \<not> ds_failed s then s\<lparr>ds_on_latch := True\<rparr> else s)"

definition close_store :: "bool \<Rightarrow> disk_store \<Rightarrow> bool \<times> disk_store" where
  "close_store close_ok s =
     (if ds_closed s then (True, s)
      else if \<not> ds_open s then (True, s\<lparr>ds_closed := True\<rparr>)
      else (close_ok, s\<lparr>ds_closed := True, ds_open := False\<rparr>))"

section \<open>Construction\<close>

datatype errno = EINVAL | ENOTSUP | OtherErrno

definition tolerated :: "errno \<Rightarrow> bool" where
  "tolerated e = (e = EINVAL \<or> e = ENOTSUP)"

definition sync_dir :: "errno option \<Rightarrow> errno option \<Rightarrow> bool" where
  "sync_dir open_err sync_err =
     (case open_err of
        Some e \<Rightarrow> tolerated e
      | None \<Rightarrow> (case sync_err of Some e \<Rightarrow> tolerated e | None \<Rightarrow> True))"

text \<open>
  What the operating system does while the log is opened. \<open>oe_read_fault\<close> is the number of
  bytes the replay reader delivers before a read error, if there is one.
\<close>

record open_env =
  oe_stat_err :: bool
  oe_open_err :: bool
  oe_sync_err :: bool
  oe_dir_open :: "errno option"
  oe_dir_sync :: "errno option"
  oe_reopen_err :: bool
  oe_read_fault :: "nat option"
  oe_trunc_err :: bool

datatype open_err =
    StatErr | OpenErr | SyncErr | DirErr | ReopenErr | TruncErr
  | InvalidLog "line_fault scan_err"

definition read_stream :: "open_env \<Rightarrow> string \<Rightarrow> stream" where
  "read_stream v bytes =
     (case oe_read_fault v of
        None \<Rightarrow> \<lparr>st_bytes = bytes, st_fault = False\<rparr>
      | Some n \<Rightarrow> \<lparr>st_bytes = take n bytes, st_fault = True\<rparr>)"

definition fresh_store :: "hs_mem \<Rightarrow> string \<Rightarrow> disk_store" where
  "fresh_store m bytes =
     \<lparr>ds_mem = m, ds_file = bytes, ds_failed = False, ds_closed = False, ds_open = True,
      ds_on_latch = False, ds_latch_calls = 0\<rparr>"

definition new_disk_store :: "open_env \<Rightarrow> string option \<Rightarrow> (open_err, disk_store) res" where
  "new_disk_store v file =
     (if oe_stat_err v then Inl StatErr
      else if oe_open_err v then Inl OpenErr
      else
        (case file of
           None \<Rightarrow>
             if oe_sync_err v then Inl SyncErr
             else if \<not> sync_dir (oe_dir_open v) (oe_dir_sync v) then Inl DirErr
             else Inr (fresh_store empty_mem [])
         | Some bytes \<Rightarrow>
             if bytes = [] then Inr (fresh_store empty_mem [])
             else if oe_reopen_err v then Inl ReopenErr
             else
               (case replay (read_stream v bytes) of
                  Inl e \<Rightarrow> Inl (InvalidLog e)
                | Inr (m, torn) \<Rightarrow>
                    if 0 < torn then
                      if oe_trunc_err v then Inl TruncErr
                      else if oe_sync_err v then Inl SyncErr
                      else Inr (fresh_store m (take (length bytes - torn) bytes))
                    else Inr (fresh_store m bytes))))"

end
