(* ===== verification/HandleScope.thy ===== *)
theory HandleScope
  imports HandleDurability
begin

text \<open>
  Scope binding, put-if-absent and the tombstone mask of the handle store. The records of one
  scope are all that Get and Delete for that scope can see, and operations of other scopes
  leave them alone; EnsureObject returns the same handle for the same object until it is
  deleted and none after that until it is put again.
\<close>

section \<open>The view of one scope\<close>

definition scope_view :: "string \<Rightarrow> disk_store \<Rightarrow> string \<Rightarrow> handle_record option" where
  "scope_view scope s fid =
     (case map_of (hm_recs (ds_mem s)) fid of
        None \<Rightarrow> None
      | Some r \<Rightarrow> if hr_scope r = scope then Some r else None)"

lemma get_handle_view:
  "get_handle fid scope s =
     (if scope = [] then Inl ErrNotFound
      else case scope_view scope s fid of None \<Rightarrow> Inl ErrNotFound | Some r \<Rightarrow> Inr r)"
  by (simp add: get_handle_def scope_view_def split: option.splits)

fun op_scope :: "hs_op \<Rightarrow> string option" where
  "op_scope (OpPut q i) = Some (pi_scope i)"
| "op_scope (OpEnsure q i) = Some (ei_scope i)"
| "op_scope (OpDelete q fid scope) = Some scope"
| "op_scope _ = None"

fun op_fresh :: "hs_op \<Rightarrow> disk_store \<Rightarrow> bool" where
  "op_fresh (OpPut q i) s = (objectid_new (rq_rnd q) \<notin> fst ` set (hm_recs (ds_mem s)))"
| "op_fresh (OpEnsure q i) s = (objectid_new (rq_rnd q) \<notin> fst ` set (hm_recs (ds_mem s)))"
| "op_fresh _ s = True"

fun all_fresh :: "hs_op list \<Rightarrow> disk_store \<Rightarrow> bool" where
  "all_fresh [] s = True"
| "all_fresh (op # ops) s = (op_fresh op s \<and> all_fresh ops (hs_step op s))"

lemma map_of_fold_put:
  "map_of (hm_recs (fold_put r m)) = (map_of (hm_recs m))(hr_file_id r \<mapsto> r)"
  by (simp add: update_conv')

lemma map_of_fold_del: "map_of (hm_recs (fold_del fid m)) = (map_of (hm_recs m))(fid := None)"
  by (simp add: delete_conv')

lemma step_mem:
  "ds_mem (hs_step op s) = ds_mem s \<or>
   (\<exists>e. op_entry op s = Some e \<and> ds_mem (hs_step op s) = apply_envelope e (ds_mem s))"
proof (cases "op_entry op s")
  case None
  with step_no_entry show ?thesis by blast
next
  case (Some e)
  show ?thesis
  proof (cases "op_io op")
    case AppendOk
    with step_entry_ok [OF Some] Some show ?thesis by blast
  qed (use step_entry_fault [OF Some] in auto)
qed

lemma scope_view_put:
  assumes "hr_file_id r \<notin> fst ` set (hm_recs (ds_mem s))" "hr_scope r \<noteq> scope"
    "ds_mem t = fold_put r (ds_mem s)"
  shows "scope_view scope t = scope_view scope s"
proof
  fix fid
  have "map_of (hm_recs (ds_mem s)) (hr_file_id r) = None"
    using assms(1) by (simp add: map_of_eq_None_iff)
  then show "scope_view scope t fid = scope_view scope s fid"
    using assms(2) by (simp add: scope_view_def assms(3) map_of_fold_put del: recs_fold_put)
qed

lemma scope_view_del:
  assumes "map_of (hm_recs (ds_mem s)) fid = Some r" "hr_scope r \<noteq> scope"
    "ds_mem t = fold_del fid (ds_mem s)"
  shows "scope_view scope t = scope_view scope s"
  using assms(1,2) by (auto simp: scope_view_def assms(3) map_of_fold_del fun_eq_iff simp del: recs_fold_del)

lemma scope_view_frame:
  assumes "op_fresh op s" "op_scope op \<noteq> Some scope"
  shows "scope_view scope (hs_step op s) = scope_view scope s"
proof -
  consider "ds_mem (hs_step op s) = ds_mem s"
    | e where "op_entry op s = Some e" "ds_mem (hs_step op s) = apply_envelope e (ds_mem s)"
    using step_mem by blast
  then show ?thesis
  proof cases
    case 1
    then show ?thesis by (auto simp: scope_view_def)
  next
    case 2
    show ?thesis
    proof (cases op)
      case (OpPut q i)
      with 2 assms show ?thesis
        by (intro scope_view_put [of "put_record q i"]) (auto simp: put_record_def split: if_splits)
    next
      case (OpEnsure q i)
      with 2 assms show ?thesis
        by (intro scope_view_put [of "ensure_record q i"]) (auto simp: ensure_record_def split: if_splits)
    next
      case (OpDelete q fid sc)
      with 2(1) obtain r where "map_of (hm_recs (ds_mem s)) fid = Some r" "hr_scope r = sc" "e = DelEnvelope fid sc"
        by (auto split: if_splits option.splits)
      with OpDelete 2(2) assms show ?thesis by (intro scope_view_del [of s fid r]) auto
    qed (use 2 in auto)
  qed
qed

text \<open>
  C16. Scopes do not interfere. Get for a scope depends only on that scope's records: a
  \<open>file_id\<close> of another scope answers exactly like an absent one, and an empty scope resolves
  nothing. Any run of operations issued for other scopes, with freshly drawn ids, leaves every
  Get answer of the scope as it was.
\<close>

theorem scope_isolation:
  assumes "all_fresh ops s" and "\<forall>op\<in>set ops. op_scope op \<noteq> Some scope"
  shows "get_handle fid scope (hs_run ops s) = get_handle fid scope s \<and>
    (get_handle fid scope s = Inr r \<longrightarrow> hr_scope r = scope \<and> scope \<noteq> []) \<and>
    (map_of (hm_recs (ds_mem s)) fid = Some other \<and> hr_scope other \<noteq> scope \<longrightarrow>
       get_handle fid scope s = Inl ErrNotFound)"
proof -
  have "scope_view scope (hs_run ops s) = scope_view scope s"
    using assms
  proof (induction ops arbitrary: s)
    case (Cons op ops)
    then show ?case using scope_view_frame [of op s scope] by (simp add: hs_run_Cons)
  qed (simp add: hs_run_def)
  then have "get_handle fid scope (hs_run ops s) = get_handle fid scope s"
    by (simp add: get_handle_view)
  then show ?thesis
    by (auto simp: get_handle_def split: if_splits option.splits)
qed

lemma put_healthy:
  "\<not> ds_failed s \<Longrightarrow> \<not> ds_closed s \<Longrightarrow>
   put (sample_req AppendOk rnd) i s =
     (Inr (put_record (sample_req AppendOk rnd) i),
      s\<lparr>ds_file := ds_file s @ envelope_line (PutEnvelope (put_record (sample_req AppendOk rnd) i)) @ [newline],
        ds_mem := fold_put (put_record (sample_req AppendOk rnd) i) (ds_mem s)\<rparr>)"
  by (simp add: put_def sample_req_def durable_append_def Let_def)

theorem scope_isolation_witness:
  "let s = hs_run [OpPut (sample_req AppendOk ''x'') (sample_put ''fs'' ''f'')] (fresh_store empty_mem []);
       ops = [OpPut (sample_req AppendOk ''y'') (sample_put ''other'' ''f''),
              OpDelete (sample_req AppendOk ''z'') (objectid_new ''x'') ''other''] in
   ok (get_handle (objectid_new ''x'') ''fs'' s) \<and>
   get_handle (objectid_new ''x'') ''fs'' (hs_run ops s) = get_handle (objectid_new ''x'') ''fs'' s"
proof -
  let ?s = "hs_run [OpPut (sample_req AppendOk ''x'') (sample_put ''fs'' ''f'')] (fresh_store empty_mem [])"
  let ?ops = "[OpPut (sample_req AppendOk ''y'') (sample_put ''other'' ''f''),
              OpDelete (sample_req AppendOk ''z'') (objectid_new ''x'') ''other'']"
  have ids: "objectid_new ''y'' \<noteq> objectid_new ''x''"
    by (auto simp: objectid_new_def dest: hex_encode_inject)
  have s: "\<not> ds_failed (fresh_store empty_mem [])" "\<not> ds_closed (fresh_store empty_mem [])"
    by (simp_all add: fresh_store_def)
  have recs: "hm_recs (ds_mem ?s) = [(objectid_new ''x'', put_record (sample_req AppendOk ''x'') (sample_put ''fs'' ''f''))]"
  proof -
    have "ds_mem ?s = fold_put (put_record (sample_req AppendOk ''x'') (sample_put ''fs'' ''f'')) empty_mem"
      by (simp add: hs_run_def put_healthy [OF s]) (simp add: fresh_store_def)
    then show ?thesis by (simp add: empty_mem_def) (simp add: put_record_def sample_req_def)
  qed
  have "all_fresh ?ops ?s"
    using ids recs by (simp add: sample_req_def)
  moreover have "\<forall>op\<in>set ?ops. op_scope op \<noteq> Some ''fs''" by (simp add: sample_put_def)
  moreover have "ok (get_handle (objectid_new ''x'') ''fs'' ?s)"
    using recs by (simp add: get_handle_def) (simp add: put_record_def sample_put_def)
  ultimately show ?thesis
    unfolding Let_def using scope_isolation [of ?ops ?s "''fs''" "objectid_new ''x''"] by blast
qed

section \<open>The index and the tombstone mask\<close>

lemma indexed_index_ref:
  "indexed (index_ref scope ref fid m) sc k =
     (if sc = scope \<and> k = normalize_ref ref then Some fid else indexed m sc k)"
  by (auto simp: indexed_def index_ref_def Let_def split: option.splits)

lemma tombstoned_index_ref:
  "tombstoned (index_ref scope ref fid m) sc k =
     (if sc = scope \<and> k = normalize_ref ref then False else tombstoned m sc k)"
  by (auto simp: tombstoned_def index_ref_def Let_def split: option.splits)

lemma indexed_unindex_ref:
  "indexed (unindex_ref scope ref m) sc k =
     (if sc = scope \<and> k = normalize_ref ref then None else indexed m sc k)"
  by (auto simp: indexed_def unindex_ref_def Let_def split: option.splits)

lemma tombstoned_unindex_ref:
  "tombstoned (unindex_ref scope ref m) sc k =
     (if sc = scope \<and> k = normalize_ref ref then True else tombstoned m sc k)"
  by (auto simp: tombstoned_def unindex_ref_def Let_def split: option.splits)

lemma indexed_recs [simp]: "indexed (m\<lparr>hm_recs := x\<rparr>) = indexed m"
  by (simp add: indexed_def fun_eq_iff)

lemma tombstoned_recs [simp]: "tombstoned (m\<lparr>hm_recs := x\<rparr>) = tombstoned m"
  by (simp add: tombstoned_def fun_eq_iff)

definition ref_of :: "handle_record \<Rightarrow> string" where
  "ref_of r = normalize_ref (hr_object_ref r)"

lemma indexed_fold_put:
  "indexed (fold_put r m) sc k = (if sc = hr_scope r \<and> k = ref_of r then Some (hr_file_id r) else indexed m sc k)"
  by (simp add: fold_put_def indexed_index_ref ref_of_def)

lemma tombstoned_fold_put:
  "tombstoned (fold_put r m) sc k = (if sc = hr_scope r \<and> k = ref_of r then False else tombstoned m sc k)"
  by (simp add: fold_put_def tombstoned_index_ref ref_of_def)

lemma indexed_fold_del:
  "map_of (hm_recs m) fid = Some r \<Longrightarrow>
   indexed (fold_del fid m) sc k = (if sc = hr_scope r \<and> k = ref_of r then None else indexed m sc k)"
  by (simp add: fold_del_def indexed_unindex_ref ref_of_def)

lemma tombstoned_fold_del:
  "map_of (hm_recs m) fid = Some r \<Longrightarrow>
   tombstoned (fold_del fid m) sc k = (if sc = hr_scope r \<and> k = ref_of r then True else tombstoned m sc k)"
  by (simp add: fold_del_def tombstoned_unindex_ref ref_of_def)

lemmas index_simps = indexed_fold_put tombstoned_fold_put indexed_fold_del tombstoned_fold_del

text \<open>
  The invariant of the in-memory state: ids are unique and filed under themselves, every index
  entry names a live record of its scope and object, and an indexed object is not masked.
\<close>

lemma put_record_simps [simp]:
  "hr_file_id (put_record q i) = objectid_new (rq_rnd q)" "hr_scope (put_record q i) = pi_scope i"
  "ref_of (put_record q i) = normalize_ref (pi_object_ref i)"
  by (simp_all add: put_record_def ref_of_def)

lemma ensure_record_simps [simp]:
  "hr_file_id (ensure_record q i) = objectid_new (rq_rnd q)" "hr_scope (ensure_record q i) = ei_scope i"
  "ref_of (ensure_record q i) = normalize_ref (ei_object_ref i)"
  by (simp_all add: ensure_record_def ref_of_def)

definition hs_inv :: "hs_mem \<Rightarrow> bool" where
  "hs_inv m \<longleftrightarrow> distinct (map fst (hm_recs m)) \<and> (\<forall>(k, r)\<in>set (hm_recs m). k = hr_file_id r) \<and>
     (\<forall>sc k fid. indexed m sc k = Some fid \<longrightarrow>
        (\<exists>r. map_of (hm_recs m) fid = Some r \<and> hr_scope r = sc \<and> ref_of r = k) \<and> \<not> tombstoned m sc k)"

lemma hs_invD:
  assumes "hs_inv m" "indexed m sc k = Some fid"
  shows "\<exists>r. map_of (hm_recs m) fid = Some r \<and> hr_scope r = sc \<and> ref_of r = k" "\<not> tombstoned m sc k"
  using assms by (auto simp: hs_inv_def)

lemma hs_inv_fold_put:
  assumes "hs_inv m" "hr_file_id r \<notin> fst ` set (hm_recs m)"
  shows "hs_inv (fold_put r m)"
proof -
  have fresh: "map_of (hm_recs m) (hr_file_id r) = None"
    using assms(2) by (simp add: map_of_eq_None_iff)
  have "distinct (map fst (hm_recs (fold_put r m)))" "\<forall>(k, x)\<in>set (hm_recs (fold_put r m)). k = hr_file_id x"
    using assms(1) by (auto simp: hs_inv_def distinct_update dest!: set_alist_update)
  moreover have "(\<exists>x. map_of (hm_recs (fold_put r m)) fid = Some x \<and> hr_scope x = sc \<and> ref_of x = k) \<and>
      \<not> tombstoned (fold_put r m) sc k" if "indexed (fold_put r m) sc k = Some fid" for sc k fid
  proof (cases "sc = hr_scope r \<and> k = ref_of r")
    case True
    with that show ?thesis by (simp add: index_simps update_conv')
  next
    case False
    with that have idx: "indexed m sc k = Some fid" by (auto simp: index_simps)
    then obtain x where x: "map_of (hm_recs m) fid = Some x" "hr_scope x = sc" "ref_of x = k"
      using hs_invD(1) [OF assms(1)] by blast
    moreover have "fid \<noteq> hr_file_id r" using x(1) fresh by auto
    ultimately show ?thesis using False hs_invD(2) [OF assms(1) idx] by (simp add: index_simps update_conv')
  qed
  ultimately show ?thesis by (simp add: hs_inv_def)
qed

lemma hs_inv_fold_del:
  assumes "hs_inv m"
  shows "hs_inv (fold_del fid m)"
proof (cases "map_of (hm_recs m) fid")
  case None
  then have "AList.delete fid (hm_recs m) = hm_recs m"
    by (simp add: map_of_eq_None_iff)
  then have "fold_del fid m = m"
    using None by (simp add: fold_del_def Let_def)
  with assms show ?thesis by simp
next
  case (Some r)
  have "distinct (map fst (hm_recs (fold_del fid m)))" "\<forall>(k, x)\<in>set (hm_recs (fold_del fid m)). k = hr_file_id x"
    using assms by (auto simp: hs_inv_def AList.delete_eq distinct_map_filter)
  moreover have "(\<exists>x. map_of (hm_recs (fold_del fid m)) f = Some x \<and> hr_scope x = sc \<and> ref_of x = k) \<and>
      \<not> tombstoned (fold_del fid m) sc k" if "indexed (fold_del fid m) sc k = Some f" for sc k f
  proof -
    from that have ne: "\<not> (sc = hr_scope r \<and> k = ref_of r)" and idx: "indexed m sc k = Some f"
      by (auto simp: indexed_fold_del [OF Some] split: if_splits)
    then obtain x where x: "map_of (hm_recs m) f = Some x" "hr_scope x = sc" "ref_of x = k"
      using hs_invD(1) [OF assms] by blast
    moreover have "f \<noteq> fid" using x ne Some by auto
    ultimately show ?thesis using ne hs_invD(2) [OF assms idx]
      by (simp add: tombstoned_fold_del [OF Some] delete_conv')
  qed
  ultimately show ?thesis by (simp add: hs_inv_def)
qed

lemma hs_inv_empty [simp]: "hs_inv empty_mem"
  by (simp add: hs_inv_def empty_mem_def indexed_def)




text \<open>What EnsureObject does on a store that accepts mutations.\<close>

lemma ensure_masked:
  "tombstoned (ds_mem s) (ei_scope i) (normalize_ref (ei_object_ref i)) \<Longrightarrow>
   \<not> rq_ctx_done q \<Longrightarrow> \<not> ds_failed s \<Longrightarrow> \<not> ds_closed s \<Longrightarrow> ensure_object q i s = (Inl ErrNotFound, s)"
  by (simp add: ensure_object_def Let_def)

lemma ensure_present:
  "indexed (ds_mem s) (ei_scope i) (normalize_ref (ei_object_ref i)) = Some fid \<Longrightarrow>
   map_of (hm_recs (ds_mem s)) fid = Some r \<Longrightarrow>
   \<not> tombstoned (ds_mem s) (ei_scope i) (normalize_ref (ei_object_ref i)) \<Longrightarrow>
   \<not> rq_ctx_done q \<Longrightarrow> \<not> ds_failed s \<Longrightarrow> \<not> ds_closed s \<Longrightarrow> ensure_object q i s = (Inr r, s)"
  by (simp add: ensure_object_def ensured_lookup_def Let_def)

lemma ensure_success:
  assumes "hs_inv (ds_mem s)" "ensure_object q i s = (Inr r, s')"
  shows "\<not> ds_failed s' \<and> \<not> ds_closed s' \<and> hr_scope r = ei_scope i \<and> ref_of r = normalize_ref (ei_object_ref i) \<and>
    indexed (ds_mem s') (hr_scope r) (ref_of r) = Some (hr_file_id r) \<and>
    map_of (hm_recs (ds_mem s')) (hr_file_id r) = Some r \<and> \<not> tombstoned (ds_mem s') (hr_scope r) (ref_of r)"
proof (cases "ensured_lookup (ds_mem s) (ei_scope i) (normalize_ref (ei_object_ref i))")
  case None
  with assms(2) have "r = ensure_record q i" "s' = s\<lparr>ds_file := ds_file s', ds_mem := fold_put r (ds_mem s)\<rparr>"
      "\<not> ds_failed s" "\<not> ds_closed s"
    by (auto simp: ensure_object_def durable_append_def Let_def split: if_splits append_io.splits)
  then show ?thesis
    by (cases s') (auto simp: index_simps update_conv')
next
  case (Some x)
  then have same: "s' = s" "r = x" "\<not> ds_failed s" "\<not> ds_closed s"
    using assms(2) by (auto simp: ensure_object_def Let_def split: if_splits)
  from Some obtain fid where fid: "indexed (ds_mem s) (ei_scope i) (normalize_ref (ei_object_ref i)) = Some fid"
    "map_of (hm_recs (ds_mem s)) fid = Some x"
    by (auto simp: ensured_lookup_def bind_eq_Some_conv)
  have "hr_file_id x = fid" using fid(2) assms(1) by (fastforce simp: hs_inv_def dest: map_of_SomeD)
  with same fid hs_invD [OF assms(1) fid(1)] show ?thesis by auto
qed

text \<open>
  EnsureObject is put-if-absent and idempotent: when it succeeds it returns a live record
  of exactly the requested scope and object, and every later EnsureObject for the same scope
  and the same object reference (with or without one leading slash, whatever its other
  arguments) returns that very record and changes nothing, so a reconcile never mints a second
  handle.
\<close>

lemma ensure_idempotent:
  assumes "hs_inv (ds_mem s)" and "ensure_object q i s = (Inr r, s')"
    and "ei_scope i' = ei_scope i" and "normalize_ref (ei_object_ref i') = normalize_ref (ei_object_ref i)"
    and "\<not> rq_ctx_done q'"
  shows "ensure_object q' i' s' = (Inr r, s') \<and> hr_scope r = ei_scope i \<and>
    normalize_ref (hr_object_ref r) = normalize_ref (ei_object_ref i)"
proof -
  note success = ensure_success [OF assms(1,2)]
  have "ensure_object q' i' s' = (Inr r, s')"
    using success assms(3-5) by (intro ensure_present [where fid = "hr_file_id r"]) auto
  with success show ?thesis by (simp add: ref_of_def)
qed

definition sample_ensure :: "string \<Rightarrow> string \<Rightarrow> ensure_input" where
  "sample_ensure scope ref = \<lparr>ei_scope = scope, ei_object_ref = ref, ei_filename = ''a'', ei_mime = ''b'',
     ei_size = 3, ei_policy_ref = []\<rparr>"

lemma ensure_fresh:
  "ensure_object (sample_req AppendOk rnd) (sample_ensure scope ref) (fresh_store empty_mem []) =
    (Inr (ensure_record (sample_req AppendOk rnd) (sample_ensure scope ref)),
     snd (ensure_object (sample_req AppendOk rnd) (sample_ensure scope ref) (fresh_store empty_mem [])))"
  by (simp add: ensure_object_def durable_append_def fresh_store_def empty_mem_def ensured_lookup_def indexed_def
      tombstoned_def Let_def sample_req_def)

text \<open>
  A deleted object does not reappear: after a successful Delete the id resolves to
  ErrNotFound, and from then on, over any run that contains no Put of that scope and object
  (reconciles, deletes, other Puts and disk faults included), EnsureObject for it never mints
  or returns a handle.
\<close>

lemma delete_masks_reconcile:
  assumes "hs_inv (ds_mem s)" and "map_of (hm_recs (ds_mem s)) fid = Some r"
    and "delete_handle q fid scope s = (Inr (), s')"
    and "\<forall>op\<in>set ops. \<forall>q i. op = OpPut q i \<longrightarrow> \<not> (pi_scope i = scope \<and> normalize_ref (pi_object_ref i) = ref_of r)"
    and "ei_scope ei = scope" and "normalize_ref (ei_object_ref ei) = ref_of r"
  shows "get_handle fid scope s' = Inl ErrNotFound \<and>
    (\<exists>e. fst (ensure_object q' ei (hs_run ops s')) = Inl e) \<and> snd (ensure_object q' ei (hs_run ops s')) = hs_run ops s'"
proof -
  from assms(2,3) have scope: "hr_scope r = scope"
    by (auto simp: delete_handle_def split: if_splits)
  from assms(2,3) have mem: "ds_mem s' = fold_del fid (ds_mem s)"
    by (auto simp: delete_handle_def durable_append_def fold_del_def Let_def split: if_splits append_io.splits)
  have tomb: "tombstoned (ds_mem s') scope (ref_of r)"
    using scope by (simp add: mem tombstoned_fold_del [OF assms(2)])
  have step: "tombstoned (ds_mem (hs_step op t)) scope (ref_of r)"
    if t: "tombstoned (ds_mem t) scope (ref_of r)"
      and op: "\<forall>q i. op = OpPut q i \<longrightarrow> \<not> (pi_scope i = scope \<and> normalize_ref (pi_object_ref i) = ref_of r)" for op t
  proof -
    have "tombstoned (apply_envelope e (ds_mem t)) scope (ref_of r)" if "op_entry op t = Some e" for e
      using that t op
      by (cases op) (auto simp: tombstoned_fold_put tombstoned_fold_del split: if_splits option.splits)
    with step_mem [of op t] t show ?thesis by auto
  qed
  have "tombstoned (ds_mem (hs_run ops t)) scope (ref_of r)" if "tombstoned (ds_mem t) scope (ref_of r)" for t
    using that assms(4) by (induction ops arbitrary: t) (auto simp: hs_run_def step)
  with tomb assms(5,6) show ?thesis
    by (auto simp: ensure_object_def Let_def get_handle_def mem delete_conv')
qed


lemma delete_healthy:
  "\<not> ds_failed s \<Longrightarrow> \<not> ds_closed s \<Longrightarrow> map_of (hm_recs (ds_mem s)) fid = Some r \<Longrightarrow> hr_scope r \<noteq> [] \<Longrightarrow>
   delete_handle (sample_req AppendOk rnd) fid (hr_scope r) s =
     (Inr (), s\<lparr>ds_file := ds_file s @ envelope_line (DelEnvelope fid (hr_scope r)) @ [newline],
        ds_mem := fold_del fid (ds_mem s)\<rparr>)"
  by (simp add: delete_handle_def sample_req_def durable_append_def fold_del_def Let_def)

definition store_with_put :: disk_store where
  "store_with_put = snd (put (sample_req AppendOk ''x'') (sample_put ''fs'' ''f'') (fresh_store empty_mem []))"

lemma store_with_put_facts:
  "ds_mem store_with_put = fold_put (put_record (sample_req AppendOk ''x'') (sample_put ''fs'' ''f'')) empty_mem"
  "\<not> ds_failed store_with_put" "\<not> ds_closed store_with_put"
proof -
  have s: "\<not> ds_failed (fresh_store empty_mem [])" "\<not> ds_closed (fresh_store empty_mem [])"
    by (simp_all add: fresh_store_def)
  show "ds_mem store_with_put = fold_put (put_record (sample_req AppendOk ''x'') (sample_put ''fs'' ''f'')) empty_mem"
    "\<not> ds_failed store_with_put" "\<not> ds_closed store_with_put"
    unfolding store_with_put_def put_healthy [OF s] by (simp_all add: fresh_store_def)
qed

text \<open>
  Two handles may name one object, since Put never looks for an existing one. Deleting the
  older handle then masks the object while the younger handle is still live: Get resolves it,
  EnsureObject reports that there is no handle and none may be minted.
\<close>

lemma delete_masks_sibling:
  assumes "\<not> ds_failed s" "\<not> ds_closed s" "hr_scope r1 \<noteq> []" "hr_file_id r1 \<noteq> hr_file_id r2"
    and "hr_scope r2 = hr_scope r1" "ref_of r2 = ref_of r1"
    and "ds_mem s = fold_put r2 (fold_put r1 m)"
    and "ei_scope i = hr_scope r1" "normalize_ref (ei_object_ref i) = ref_of r1"
    and t_def: "t = snd (delete_handle (sample_req AppendOk rnd) (hr_file_id r1) (hr_scope r1) s)"
  shows "get_handle (hr_file_id r2) (hr_scope r2) t = Inr r2 \<and>
    ensure_object (sample_req AppendOk rnd') i t = (Inl ErrNotFound, t)"
proof -
  have rec: "map_of (hm_recs (ds_mem s)) (hr_file_id r1) = Some r1"
    using assms(4,7) by (simp add: update_conv')
  have t: "ds_mem t = fold_del (hr_file_id r1) (ds_mem s)" "\<not> ds_failed t" "\<not> ds_closed t"
    unfolding t_def using delete_healthy [OF assms(1,2) rec assms(3), of rnd] assms(1,2) by simp_all
  have "tombstoned (ds_mem t) (hr_scope r1) (ref_of r1)"
    by (simp add: t tombstoned_fold_del [OF rec])
  then have "ensure_object (sample_req AppendOk rnd') i t = (Inl ErrNotFound, t)"
    using t assms(8,9) by (intro ensure_masked) (simp_all add: sample_req_def)
  moreover have "get_handle (hr_file_id r2) (hr_scope r2) t = Inr r2"
    using assms(3-7) by (simp add: get_handle_def t update_conv' delete_conv')
  ultimately show ?thesis by simp
qed

end
