(* ===== verification/HandleList.thy ===== *)
theory HandleList
  imports HandleScope "HOL-Library.Multiset" "HOL-Library.Product_Lexorder"
begin

text \<open>
  Paging of the handle store (\<open>src/internal/handlestore/list.go\<close>): the keyset cursor and its
  codec, the total order of records, the resume point and List itself. The properties: a
  cursor decodes to the key it was minted from and only under its own direction, a page is
  exactly the next records after the cursor key whether or not the boundary record still
  exists, and following the cursors enumerates the scope once, in order, whatever order the
  record map is iterated in.
\<close>

section \<open>Cursors\<close>

datatype list_order = ListOrderAsc | ListOrderDesc

definition max_list_limit :: int where
  "max_list_limit = 100"

definition cursor_version :: "list_order \<Rightarrow> char" where
  "cursor_version order = (if order = ListOrderDesc then CHR 0x02 else CHR 0x01)"

definition cursor_field_sep :: char where
  "cursor_field_sep = CHR 0x00"

definition encode_cursor :: "list_order \<Rightarrow> string \<Rightarrow> string \<Rightarrow> string" where
  "encode_cursor order created fid =
     b64_encode (cursor_version order # created @ cursor_field_sep # fid)"

definition decode_cursor :: "list_order \<Rightarrow> string \<Rightarrow> (hs_err, string \<times> string) res" where
  "decode_cursor order tok =
     (if tok = [] then Inr ([], [])
      else
        (case b64_decode tok of
           None \<Rightarrow> Inl ErrMalformedCursor
         | Some [] \<Rightarrow> Inl ErrMalformedCursor
         | Some (v # b) \<Rightarrow>
             if v \<noteq> cursor_version order then Inl ErrMalformedCursor
             else
               (case index_byte b cursor_field_sep of
                  None \<Rightarrow> Inl ErrMalformedCursor
                | Some sep \<Rightarrow> Inr (take sep b, drop (Suc sep) b))))"

section \<open>Order and pages\<close>

definition record_less :: "handle_record \<Rightarrow> handle_record \<Rightarrow> bool" where
  "record_less a b =
     (if hr_created_at a \<noteq> hr_created_at b then hr_created_at a < hr_created_at b
      else hr_file_id a < hr_file_id b)"

definition sorts_after :: "handle_record \<Rightarrow> list_order \<Rightarrow> string \<Rightarrow> string \<Rightarrow> bool" where
  "sorts_after r order created fid =
     (if hr_created_at r \<noteq> created then
        (if order = ListOrderDesc then hr_created_at r < created else created < hr_created_at r)
      else if order = ListOrderDesc then hr_file_id r < fid
      else fid < hr_file_id r)"

fun resume_index :: "handle_record list \<Rightarrow> list_order \<Rightarrow> string \<Rightarrow> string \<Rightarrow> nat" where
  "resume_index [] order created fid = 0"
| "resume_index (r # rs) order created fid =
     (if sorts_after r order created fid then 0 else Suc (resume_index rs order created fid))"

text \<open>
  \<open>sort.Slice\<close> with the comparator of the requested direction. The comparator is total on
  records with distinct ids, so insertion sort gives the one sorted arrangement.
\<close>

fun insert_by :: "('a \<Rightarrow> 'a \<Rightarrow> bool) \<Rightarrow> 'a \<Rightarrow> 'a list \<Rightarrow> 'a list" where
  "insert_by lt x [] = [x]"
| "insert_by lt x (y # ys) = (if lt y x then y # insert_by lt x ys else x # y # ys)"

definition sort_slice :: "('a \<Rightarrow> 'a \<Rightarrow> bool) \<Rightarrow> 'a list \<Rightarrow> 'a list" where
  "sort_slice lt xs = foldr (insert_by lt) xs []"

definition list_less :: "list_order \<Rightarrow> handle_record \<Rightarrow> handle_record \<Rightarrow> bool" where
  "list_less order a b = (if order = ListOrderDesc then record_less b a else record_less a b)"

record list_input =
  li_scope :: string
  li_cursor :: string
  li_limit :: int
  li_order :: list_order

record list_page =
  lp_records :: "handle_record list"
  lp_next_cursor :: string
  lp_has_more :: bool
  lp_first_id :: string
  lp_last_id :: string

definition empty_page :: list_page where
  "empty_page = \<lparr>lp_records = [], lp_next_cursor = [], lp_has_more = False, lp_first_id = [], lp_last_id = []\<rparr>"

definition page_limit :: "int \<Rightarrow> nat" where
  "page_limit n = nat (if n \<le> 0 \<or> n > max_list_limit then max_list_limit else n)"

definition scope_records :: "string \<Rightarrow> (string \<times> handle_record) list \<Rightarrow> handle_record list" where
  "scope_records scope recs = filter (\<lambda>r. hr_scope r = scope) (map snd recs)"

definition list_handles :: "list_input \<Rightarrow> disk_store \<Rightarrow> (hs_err, list_page) res" where
  "list_handles i s =
     rbind (decode_cursor (li_order i) (li_cursor i)) (\<lambda>(created, fid).
     if li_scope i = [] then Inr empty_page
     else
       (let limit = page_limit (li_limit i);
            matched = sort_slice (list_less (li_order i)) (scope_records (li_scope i) (hm_recs (ds_mem s)));
            start = (if li_cursor i \<noteq> [] then resume_index matched (li_order i) created fid else 0);
            rest = drop start matched;
            has_more = limit < length rest;
            page = (if has_more then take limit rest else rest)
        in Inr \<lparr>lp_records = page,
                lp_next_cursor = (if has_more
                  then encode_cursor (li_order i) (hr_created_at (last page)) (hr_file_id (last page)) else []),
                lp_has_more = has_more,
                lp_first_id = (if page = [] then [] else hr_file_id (hd page)),
                lp_last_id = (if page = [] then [] else hr_file_id (last page))\<rparr>))"


section \<open>Sorting\<close>

lemma mset_insert_by [simp]: "mset (insert_by lt x xs) = add_mset x (mset xs)"
  by (induction xs) auto

lemma mset_sort_slice [simp]: "mset (sort_slice lt xs) = mset xs"
  by (induction xs) (simp_all add: sort_slice_def)

lemma set_sort_slice [simp]: "set (sort_slice lt xs) = set xs"
  by (metis mset_sort_slice set_mset_mset)

lemma set_insert_by [simp]: "set (insert_by lt x xs) = insert x (set xs)"
  by (induction xs) auto

text \<open>A comparator that is transitive, irreflexive and total on the elements at hand.\<close>

definition total_less :: "('a \<Rightarrow> 'a \<Rightarrow> bool) \<Rightarrow> 'a set \<Rightarrow> bool" where
  "total_less lt A \<longleftrightarrow> (\<forall>x y z. lt x y \<longrightarrow> lt y z \<longrightarrow> lt x z) \<and> (\<forall>x. \<not> lt x x) \<and>
     (\<forall>x\<in>A. \<forall>y\<in>A. x \<noteq> y \<longrightarrow> lt x y \<or> lt y x)"

lemma sorted_insert_by:
  "sorted_wrt lt xs \<Longrightarrow> total_less lt (insert x (set xs)) \<Longrightarrow> x \<notin> set xs \<Longrightarrow> sorted_wrt lt (insert_by lt x xs)"
proof (induction xs)
  case (Cons y ys)
  show ?case
  proof (cases "lt y x")
    case True
    have "sorted_wrt lt (insert_by lt x ys)"
      using Cons by (intro Cons.IH) (auto simp: total_less_def)
    with True Cons.prems show ?thesis by simp
  next
    case False
    then have "lt x y" using Cons.prems by (auto simp: total_less_def)
    with Cons.prems False show ?thesis by (fastforce simp: total_less_def)
  qed
qed simp

lemma sorted_sort_slice: "distinct xs \<Longrightarrow> total_less lt (set xs) \<Longrightarrow> sorted_wrt lt (sort_slice lt xs)"
proof (induction xs)
  case (Cons x xs)
  then have "total_less lt (set xs)" by (auto simp: total_less_def)
  with Cons have "sorted_wrt lt (sort_slice lt xs)" by simp
  moreover have "total_less lt (insert x (set (sort_slice lt xs)))" "x \<notin> set (sort_slice lt xs)"
    using Cons.prems by simp_all
  ultimately have "sorted_wrt lt (insert_by lt x (sort_slice lt xs))" by (rule sorted_insert_by)
  then show ?case by (simp add: sort_slice_def)
qed (simp add: sort_slice_def)

lemma sorted_wrt_unique:
  "sorted_wrt lt xs \<Longrightarrow> sorted_wrt lt ys \<Longrightarrow> total_less lt A \<Longrightarrow> set xs = set ys \<Longrightarrow> xs = ys"
proof (induction xs arbitrary: ys)
  case (Cons x xs)
  have irr: "\<not> lt a a" and tr: "lt a b \<Longrightarrow> lt b c \<Longrightarrow> lt a c" for a b c
    using Cons.prems(3) unfolding total_less_def by blast+
  from Cons.prems obtain y zs where ys: "ys = y # zs" by (cases ys) auto
  have xy: "x = y"
  proof (rule ccontr)
    assume "x \<noteq> y"
    with Cons.prems(4) ys have "x \<in> set zs" "y \<in> set xs" by auto
    with Cons.prems(1,2) ys have "lt y x" "lt x y" by auto
    with irr tr show False by blast
  qed
  have "x \<notin> set xs" "x \<notin> set zs" using Cons.prems(1,2) ys xy irr by auto
  with Cons.prems(4) ys xy have "set xs = set zs" by auto
  with Cons ys xy show ?case by auto
qed simp

abbreviation record_key :: "handle_record \<Rightarrow> string \<times> string" where
  "record_key r \<equiv> (hr_created_at r, hr_file_id r)"

lemma record_less_key: "record_less a b \<longleftrightarrow> record_key a < record_key b"
  by (auto simp: record_less_def less_prod_def')

lemma list_less_key:
  "list_less order a b \<longleftrightarrow> (if order = ListOrderDesc then record_key b < record_key a else record_key a < record_key b)"
  by (simp add: list_less_def record_less_key del: less_prod_simp)

lemma sorts_after_key:
  "sorts_after r order c f \<longleftrightarrow>
     (if order = ListOrderDesc then record_key r < (c, f) else (c, f) < record_key r)"
  by (auto simp: sorts_after_def less_prod_def')

lemma sorts_after_record: "sorts_after r order (hr_created_at b) (hr_file_id b) \<longleftrightarrow> list_less order b r"
  by (simp add: sorts_after_key list_less_key del: less_prod_simp)

lemma total_list_less: "inj_on hr_file_id A \<Longrightarrow> total_less (list_less order) A"
  unfolding total_less_def list_less_key inj_on_def less_prod_def'
  by (auto, metis linorder_cases, metis linorder_cases)

lemma sorts_after_mono:
  "list_less order a b \<Longrightarrow> sorts_after a order c f \<Longrightarrow> sorts_after b order c f"
  by (auto simp: sorts_after_key list_less_key simp del: less_prod_simp split: if_splits)

text \<open>The records List walks, in the order it walks them.\<close>

definition walk_order :: "list_order \<Rightarrow> string \<Rightarrow> disk_store \<Rightarrow> handle_record list" where
  "walk_order order scope s =
     sort_slice (list_less order) (scope_records scope (hm_recs (ds_mem s)))"

lemma inj_file_id:
  assumes "hs_inv (ds_mem s)"
  shows "inj_on hr_file_id (set (map snd (hm_recs (ds_mem s))))" "distinct (map snd (hm_recs (ds_mem s)))"
proof -
  have "map hr_file_id (map snd (hm_recs (ds_mem s))) = map fst (hm_recs (ds_mem s))"
    using assms by (auto simp: hs_inv_def)
  then have "distinct (map hr_file_id (map snd (hm_recs (ds_mem s))))"
    using assms by (simp only: hs_inv_def)
  then show "inj_on hr_file_id (set (map snd (hm_recs (ds_mem s))))" "distinct (map snd (hm_recs (ds_mem s)))"
    by (auto simp only: distinct_map)
qed

lemma walk_order_sorted:
  assumes "hs_inv (ds_mem s)"
  shows "sorted_wrt (list_less order) (walk_order order scope s)"
    and "set (walk_order order scope s) = {r \<in> snd ` set (hm_recs (ds_mem s)). hr_scope r = scope}"
    and "distinct (walk_order order scope s)"
proof -
  let ?rs = "scope_records scope (hm_recs (ds_mem s))"
  have sub: "set ?rs \<subseteq> set (map snd (hm_recs (ds_mem s)))" by (auto simp: scope_records_def)
  have dist: "distinct ?rs" using inj_file_id(2) [OF assms] by (simp add: scope_records_def)
  show "sorted_wrt (list_less order) (walk_order order scope s)"
    unfolding walk_order_def
    by (rule sorted_sort_slice [OF dist total_list_less]) (rule inj_on_subset [OF inj_file_id(1) [OF assms] sub])
  show "set (walk_order order scope s) = {r \<in> snd ` set (hm_recs (ds_mem s)). hr_scope r = scope}"
    by (auto simp: walk_order_def scope_records_def)
  show "distinct (walk_order order scope s)"
    using dist by (metis mset_eq_imp_distinct_iff mset_sort_slice walk_order_def)
qed

lemma drop_resume_index:
  "sorted_wrt (list_less order) rs \<Longrightarrow>
   drop (resume_index rs order c f) rs = filter (\<lambda>r. sorts_after r order c f) rs"
proof (induction rs)
  case (Cons r rs)
  show ?case
  proof (cases "sorts_after r order c f")
    case True
    then have "\<forall>x\<in>set rs. sorts_after x order c f"
      using Cons.prems sorts_after_mono by auto
    with True show ?thesis by simp
  qed (use Cons in simp)
qed simp

section \<open>Properties\<close>

lemma decode_encode_cursor:
  "cursor_field_sep \<notin> set created \<Longrightarrow>
   decode_cursor order (encode_cursor order created fid) = Inr (created, fid)"
  by (cases order) (auto simp: decode_cursor_def encode_cursor_def index_byte_Some)

text \<open>
  C19. Cursor codec: decoding the cursor minted for a sort key gives that key back when the
  creation time has no NUL byte, and under the other direction the same token is rejected as
  malformed.
\<close>

theorem cursor_round_trip:
  assumes "cursor_field_sep \<notin> set created"
  shows "decode_cursor order (encode_cursor order created fid) = Inr (created, fid) \<and>
    (other \<noteq> order \<longrightarrow> decode_cursor other (encode_cursor order created fid) = Inl ErrMalformedCursor)"
  using assms
  by (cases order; cases other)
     (auto simp: decode_cursor_def encode_cursor_def index_byte_Some cursor_version_def)

theorem cursor_round_trip_witness:
  "decode_cursor ListOrderDesc (encode_cursor ListOrderDesc ''2026-01-01T00:00:00Z'' ''ab'')
     = Inr (''2026-01-01T00:00:00Z'', ''ab'') \<and>
   decode_cursor ListOrderAsc (encode_cursor ListOrderDesc ''2026-01-01T00:00:00Z'' ''ab'') = Inl ErrMalformedCursor"
  using cursor_round_trip [of "''2026-01-01T00:00:00Z''" ListOrderDesc "''ab''" ListOrderAsc]
  by (simp add: cursor_field_sep_def)

lemma encode_cursor_not_Nil [simp]: "encode_cursor order c f \<noteq> []"
  by (simp add: encode_cursor_def)

lemma take_if_less: "(if n < length xs then take n xs else xs) = take n xs"
  by simp

definition cursor_at :: "list_order \<Rightarrow> (string \<times> string) option \<Rightarrow> string" where
  "cursor_at order at = (case at of None \<Rightarrow> [] | Some (c, f) \<Rightarrow> encode_cursor order c f)"

definition after_key :: "list_order \<Rightarrow> (string \<times> string) option \<Rightarrow> handle_record \<Rightarrow> bool" where
  "after_key order at r = (case at of None \<Rightarrow> True | Some (c, f) \<Rightarrow> sorts_after r order c f)"


lemma list_handles_rest:
  assumes "hs_inv (ds_mem s)" "li_scope i \<noteq> []"
    and "li_cursor i = cursor_at (li_order i) at"
    and "\<forall>c f. at = Some (c, f) \<longrightarrow> cursor_field_sep \<notin> set c"
    and "rest = filter (after_key (li_order i) at) (walk_order (li_order i) (li_scope i) s)"
  shows "\<exists>p. list_handles i s = Inr p \<and> lp_records p = take (page_limit (li_limit i)) rest \<and>
    (lp_has_more p \<longleftrightarrow> page_limit (li_limit i) < length rest) \<and>
    lp_next_cursor p = (if lp_has_more p then cursor_at (li_order i) (Some (record_key (last (lp_records p)))) else [])"
proof (cases at)
  case None
  then have "decode_cursor (li_order i) (li_cursor i) = Inr ([], [])" "li_cursor i = []"
    "rest = walk_order (li_order i) (li_scope i) s"
    using assms by (simp_all add: decode_cursor_def cursor_at_def after_key_def)
  then show ?thesis
    using assms(2) unfolding list_handles_def
    by (simp add: cursor_at_def Let_def walk_order_def)
next
  case (Some cf)
  obtain c f where cf: "cf = (c, f)" by (cases cf)
  have "decode_cursor (li_order i) (li_cursor i) = Inr (c, f)" "li_cursor i \<noteq> []"
    using assms(3,4) Some cf decode_encode_cursor by (auto simp: cursor_at_def)
  moreover have "drop (resume_index (walk_order (li_order i) (li_scope i) s) (li_order i) c f)
      (walk_order (li_order i) (li_scope i) s) = rest"
    using drop_resume_index [OF walk_order_sorted(1) [OF assms(1)]] Some cf assms(5) by (simp add: after_key_def [abs_def])
  ultimately show ?thesis
    using assms(2) unfolding list_handles_def
    by (simp add: cursor_at_def Let_def walk_order_def del: length_drop)
qed

lemma filter_after_split:
  assumes "sorted_wrt lt (as @ b # cs)" "\<And>x y. lt x y \<Longrightarrow> \<not> lt y x"
  shows "filter (lt b) (as @ b # cs) = cs"
  using assms by (auto simp: sorted_wrt_append filter_empty_conv filter_id_conv)

lemma list_less_asym: "list_less order x y \<Longrightarrow> \<not> list_less order y x"
  by (auto simp: list_less_key simp del: less_prod_simp split: if_splits)

lemma page_limit_pos: "0 < page_limit n"
  by (simp add: page_limit_def max_list_limit_def)

text \<open>The client loop over pages: follow the next cursor until has-more is false.\<close>

fun list_walk :: "nat \<Rightarrow> list_input \<Rightarrow> disk_store \<Rightarrow> handle_record list option" where
  "list_walk 0 i s = None"
| "list_walk (Suc n) i s =
     (case list_handles i s of
        Inl e \<Rightarrow> None
      | Inr p \<Rightarrow>
          if lp_has_more p
          then map_option ((@) (lp_records p)) (list_walk n (i\<lparr>li_cursor := lp_next_cursor p\<rparr>) s)
          else Some (lp_records p))"

lemma after_key_record: "after_key order (Some (record_key b)) = list_less order b"
  by (rule ext) (simp add: after_key_def sorts_after_record)

lemma suffix_split: "rest = as @ bs \<Longrightarrow> as \<noteq> [] \<Longrightarrow> pre @ rest = (pre @ butlast as) @ last as # bs"
  by (cases as rule: rev_cases) simp_all

lemma list_walk_rest:
  assumes "hs_inv (ds_mem s)" "li_scope i \<noteq> []"
    and "\<forall>r\<in>snd ` set (hm_recs (ds_mem s)). cursor_field_sep \<notin> set (hr_created_at r)"
  shows "walk_order (li_order i) (li_scope i) s = pre @ rest \<Longrightarrow>
    rest = filter (after_key (li_order i) at) (walk_order (li_order i) (li_scope i) s) \<Longrightarrow>
    \<forall>c f. at = Some (c, f) \<longrightarrow> cursor_field_sep \<notin> set c \<Longrightarrow>
    length rest \<le> n \<Longrightarrow>
    list_walk (Suc n) (i\<lparr>li_cursor := cursor_at (li_order i) at\<rparr>) s = Some rest"
proof (induction n arbitrary: pre rest at)
  case (0 pre rest at)
  have "\<exists>p. list_handles (i\<lparr>li_cursor := cursor_at (li_order i) at\<rparr>) s = Inr p \<and>
      lp_records p = take (page_limit (li_limit i)) rest \<and> (lp_has_more p \<longleftrightarrow> page_limit (li_limit i) < length rest)"
    using list_handles_rest [of s "i\<lparr>li_cursor := cursor_at (li_order i) at\<rparr>" at rest] assms(1,2) 0(2,3) by auto
  moreover have "rest = []" using 0(4) by simp
  ultimately show ?case by auto
next
  case (Suc n pre rest at)
  let ?i = "i\<lparr>li_cursor := cursor_at (li_order i) at\<rparr>" and ?L = "page_limit (li_limit i)"
  obtain p where p: "list_handles ?i s = Inr p" "lp_records p = take ?L rest"
    "lp_has_more p \<longleftrightarrow> ?L < length rest"
    "lp_has_more p \<Longrightarrow> lp_next_cursor p = cursor_at (li_order i) (Some (record_key (last (take ?L rest))))"
    using list_handles_rest [of s ?i at rest] assms(1,2) Suc.prems(2,3) by auto
  show ?case
  proof (cases "?L < length rest")
    case False
    then show ?thesis using p by simp
  next
    case True
    let ?b = "last (take ?L rest)"
    have ne: "take ?L rest \<noteq> []" using True page_limit_pos [of "li_limit i"] by auto
    have split: "walk_order (li_order i) (li_scope i) s = (pre @ butlast (take ?L rest)) @ ?b # drop ?L rest"
      unfolding Suc.prems(1) by (rule suffix_split [OF _ ne]) simp
    have flt: "filter (after_key (li_order i) (Some (record_key ?b))) (walk_order (li_order i) (li_scope i) s) = drop ?L rest"
      unfolding after_key_record split
      by (rule filter_after_split [OF walk_order_sorted(1) [OF assms(1), of "li_order i" "li_scope i", unfolded split] list_less_asym])
    have "?b \<in> set (walk_order (li_order i) (li_scope i) s)" using split by simp
    then have nul: "cursor_field_sep \<notin> set (hr_created_at ?b)"
      using assms(3) walk_order_sorted(2) [OF assms(1)] by auto
    have "list_walk (Suc n) (i\<lparr>li_cursor := cursor_at (li_order i) (Some (record_key ?b))\<rparr>) s = Some (drop ?L rest)"
    proof (rule Suc.IH [where pre = "pre @ take ?L rest", OF _ flt [symmetric]])
      show "walk_order (li_order i) (li_scope i) s = (pre @ take ?L rest) @ drop ?L rest"
        using Suc.prems(1) by simp
      show "length (drop ?L rest) \<le> n"
        using Suc.prems(4) True page_limit_pos [of "li_limit i"] by simp
    qed (use nul in simp)
    then show ?thesis
      using p True by (subst list_walk.simps) (simp del: list_walk.simps)
  qed
qed


text \<open>A store with three records of one scope and one of another, two of them created together.\<close>

definition sample_record :: "string \<Rightarrow> string \<Rightarrow> string \<Rightarrow> handle_record" where
  "sample_record fid scope created =
     \<lparr>hr_file_id = fid, hr_scope = scope, hr_object_ref = fid, hr_filename = ''f'', hr_mime = [], hr_size = 1,
      hr_created_at = created, hr_policy_ref = [], hr_sha256 = []\<rparr>"

definition sample_mem :: hs_mem where
  "sample_mem = fold_put (sample_record ''c'' ''fs'' ''1'') (fold_put (sample_record ''b'' ''other'' ''1'')
     (fold_put (sample_record ''a'' ''fs'' ''2'') (fold_put (sample_record ''d'' ''fs'' ''1'') empty_mem)))"

definition sample_list :: "list_order \<Rightarrow> string \<Rightarrow> list_input" where
  "sample_list order cur = \<lparr>li_scope = ''fs'', li_cursor = cur, li_limit = 2, li_order = order\<rparr>"

lemma hm_recs_fold_put: "hm_recs (fold_put r m) = AList.update (hr_file_id r) r (hm_recs m)"
  by (simp add: fold_put_def index_ref_def Let_def)

lemma sample_mem_recs:
  "hm_recs sample_mem = [(''d'', sample_record ''d'' ''fs'' ''1''), (''a'', sample_record ''a'' ''fs'' ''2''),
     (''b'', sample_record ''b'' ''other'' ''1''), (''c'', sample_record ''c'' ''fs'' ''1'')]"
  unfolding sample_mem_def hm_recs_fold_put by (simp add: sample_record_def empty_mem_def)

lemma sample_mem_inv: "hs_inv sample_mem"
  unfolding sample_mem_def
  by (intro hs_inv_fold_put hs_inv_empty) (simp_all add: hm_recs_fold_put sample_record_def empty_mem_def)

lemma sample_mem_walk:
  "walk_order ListOrderAsc ''fs'' (fresh_store sample_mem []) =
     [sample_record ''c'' ''fs'' ''1'', sample_record ''d'' ''fs'' ''1'', sample_record ''a'' ''fs'' ''2'']"
  by (simp add: walk_order_def fresh_store_def sample_mem_recs scope_records_def sort_slice_def
      list_less_def record_less_def sample_record_def less_char_def)

text \<open>
  One page. For a store satisfying the index invariant and a non-empty scope, List under
  a cursor minted for the key \<open>at\<close> (or none) returns the first \<open>page_limit\<close> records of the
  scope that sort strictly after that key; the boundary record itself need not exist any more.
  It reports more exactly when records are left, and the next cursor is the key of the last
  record returned.
\<close>

lemma list_page_exact:
  assumes "hs_inv (ds_mem s)" "li_scope i \<noteq> []"
    and "li_cursor i = cursor_at (li_order i) at"
    and "\<forall>c f. at = Some (c, f) \<longrightarrow> cursor_field_sep \<notin> set c"
  shows "\<exists>p rest. list_handles i s = Inr p \<and>
    lp_records p @ rest = filter (after_key (li_order i) at) (walk_order (li_order i) (li_scope i) s) \<and>
    length (lp_records p) \<le> page_limit (li_limit i) \<and>
    (lp_has_more p \<longleftrightarrow> rest \<noteq> []) \<and>
    (rest \<noteq> [] \<longrightarrow> length (lp_records p) = page_limit (li_limit i) \<and>
       lp_next_cursor p = cursor_at (li_order i) (Some (record_key (last (lp_records p)))))"
proof -
  define all where "all = filter (after_key (li_order i) at) (walk_order (li_order i) (li_scope i) s)"
  obtain p where "list_handles i s = Inr p" "lp_records p = take (page_limit (li_limit i)) all"
    "lp_has_more p \<longleftrightarrow> page_limit (li_limit i) < length all"
    "lp_next_cursor p = (if lp_has_more p then cursor_at (li_order i) (Some (record_key (last (lp_records p)))) else [])"
    using list_handles_rest [OF assms all_def] by blast
  then show ?thesis
    unfolding all_def [symmetric]
    by (intro exI [of _ p] exI [of _ "drop (page_limit (li_limit i)) all"]) auto
qed

text \<open>
  C18. The cursor walk is complete and exact. Following next cursors from the empty cursor,
  with any page size, returns after at most one call per record plus one, and the pages
  concatenated hold every record of the scope exactly once, in the requested direction.
\<close>

theorem list_walk_exact:
  assumes "hs_inv (ds_mem s)" "li_scope i \<noteq> []" "li_cursor i = []"
    and "\<forall>r\<in>snd ` set (hm_recs (ds_mem s)). cursor_field_sep \<notin> set (hr_created_at r)"
    and "length (hm_recs (ds_mem s)) < fuel"
  shows "\<exists>rs. list_walk fuel i s = Some rs \<and> distinct rs \<and> sorted_wrt (list_less (li_order i)) rs \<and>
    set rs = {r \<in> snd ` set (hm_recs (ds_mem s)). hr_scope r = li_scope i}"
proof -
  let ?w = "walk_order (li_order i) (li_scope i) s"
  obtain n where n: "fuel = Suc n" using assms(5) by (cases fuel) auto
  have "length ?w \<le> n"
    using assms(5) n length_filter_le [of "\<lambda>r. hr_scope r = li_scope i" "map snd (hm_recs (ds_mem s))"]
    by (metis length_map less_Suc_eq_le mset_eq_length mset_sort_slice order_trans scope_records_def walk_order_def)
  moreover have "i\<lparr>li_cursor := cursor_at (li_order i) None\<rparr> = i" using assms(3) by (simp add: cursor_at_def)
  moreover have "?w = filter (after_key (li_order i) None) ?w" by (simp add: after_key_def filter_id_conv)
  ultimately have "list_walk fuel i s = Some ?w"
    using list_walk_rest [OF assms(1,2,4), of "[]" ?w None n] n by simp
  then show ?thesis using walk_order_sorted [OF assms(1)] by blast
qed

theorem list_walk_exact_witness:
  "\<exists>rs. list_walk 5 (sample_list ListOrderDesc []) (fresh_store sample_mem []) = Some rs \<and> distinct rs \<and>
     set rs = {sample_record ''c'' ''fs'' ''1'', sample_record ''d'' ''fs'' ''1'', sample_record ''a'' ''fs'' ''2''}"
proof -
  let ?s = "fresh_store sample_mem []"
  have "\<exists>rs. list_walk 5 (sample_list ListOrderDesc []) ?s = Some rs \<and> distinct rs \<and>
     sorted_wrt (list_less (li_order (sample_list ListOrderDesc []))) rs \<and>
     set rs = {r \<in> snd ` set (hm_recs (ds_mem ?s)). hr_scope r = li_scope (sample_list ListOrderDesc [])}"
    by (rule list_walk_exact)
       (simp_all add: fresh_store_def sample_mem_inv sample_list_def sample_mem_recs cursor_field_sep_def sample_record_def)
  moreover have "{r \<in> snd ` set (hm_recs (ds_mem ?s)). hr_scope r = li_scope (sample_list ListOrderDesc [])} =
     {sample_record ''c'' ''fs'' ''1'', sample_record ''d'' ''fs'' ''1'', sample_record ''a'' ''fs'' ''2''}"
    by (auto simp: fresh_store_def sample_mem_recs sample_list_def) (auto simp: sample_record_def)
  ultimately show ?thesis by auto
qed

text \<open>
  Determinism. Two states that hold the same records, whatever order the record map is
  iterated in, answer every List call with the same page.
\<close>

lemma list_iteration_order:
  assumes "hs_inv (ds_mem s)" "mset (hm_recs (ds_mem t)) = mset (hm_recs (ds_mem s))"
  shows "list_handles i t = list_handles i s"
proof -
  let ?a = "scope_records (li_scope i) (hm_recs (ds_mem s))" and ?b = "scope_records (li_scope i) (hm_recs (ds_mem t))"
  have ms: "mset ?b = mset ?a"
    using assms(2) by (simp add: scope_records_def mset_filter mset_map)
  have sub: "set ?a \<subseteq> set (map snd (hm_recs (ds_mem s)))" by (auto simp: scope_records_def)
  have tot: "total_less (list_less (li_order i)) (set ?a)"
    by (rule total_list_less) (rule inj_on_subset [OF inj_file_id(1) [OF assms(1)] sub])
  have dist: "distinct ?a" using inj_file_id(2) [OF assms(1)] by (simp add: scope_records_def)
  have st: "set ?b = set ?a" and db: "distinct ?b"
    using ms dist mset_eq_setD mset_eq_imp_distinct_iff by blast+
  have "sort_slice (list_less (li_order i)) ?b = sort_slice (list_less (li_order i)) ?a"
    by (rule sorted_wrt_unique [OF sorted_sort_slice [OF db] sorted_sort_slice [OF dist] tot])
       (use tot st in simp_all)
  then show ?thesis by (simp only: list_handles_def)
qed

end
