(* ===== verification/Paths.thy ===== *)
theory Paths
  imports GoLib
begin

text \<open>
  Slash-separated paths as the Go packages \<open>path\<close> and \<open>path/filepath\<close> treat them on a
  POSIX host: \<open>Clean\<close>, \<open>Join\<close>, \<open>Dir\<close>, \<open>Base\<close>, \<open>IsAbs\<close>, \<open>IsLocal\<close>, and \<open>strings.TrimSpace\<close>.
  The lemmas describe a cleaned path by its components: cleaning is idempotent, a cleaned
  path has no empty, dot or inner dot-dot component, and a local cleaned path stays below
  its root.
\<close>

section \<open>Definitions\<close>

definition dot :: string where "dot = ''.''"
definition dotdot :: string where "dotdot = ''..''"

fun clean_stack :: "bool \<Rightarrow> string list \<Rightarrow> string list \<Rightarrow> string list" where
  "clean_stack rooted st [] = rev st"
| "clean_stack rooted st (c # cs) =
     (if c = [] \<or> c = dot then clean_stack rooted st cs
      else if c = dotdot then
        (case st of
           [] \<Rightarrow> if rooted then clean_stack rooted [] cs else clean_stack rooted [dotdot] cs
         | t # ts \<Rightarrow> if t = dotdot then clean_stack rooted (dotdot # st) cs else clean_stack rooted ts cs)
      else clean_stack rooted (c # st) cs)"

definition is_abs :: "string \<Rightarrow> bool" where
  "is_abs p = has_prefix p ''/''"

definition clean_comps :: "string \<Rightarrow> string list" where
  "clean_comps p = clean_stack (is_abs p) [] (split_on CHR ''/'' p)"

definition path_clean :: "string \<Rightarrow> string" where
  "path_clean p =
     (let out = join_with CHR ''/'' (clean_comps p) in
      if is_abs p then CHR ''/'' # out else if out = [] then dot else out)"

definition path_join :: "string list \<Rightarrow> string" where
  "path_join es = (case dropWhile (\<lambda>e. e = []) es of [] \<Rightarrow> [] | es' \<Rightarrow> path_clean (join_with CHR ''/'' es'))"

definition up_to_last_slash :: "string \<Rightarrow> string" where
  "up_to_last_slash p = rev (dropWhile (\<lambda>c. c \<noteq> CHR ''/'') (rev p))"

definition path_dir :: "string \<Rightarrow> string" where
  "path_dir p = path_clean (up_to_last_slash p)"

definition path_base :: "string \<Rightarrow> string" where
  "path_base p =
     (if p = [] then dot
      else (let q = rev (dropWhile (\<lambda>c. c = CHR ''/'') (rev p));
                leaf = rev (takeWhile (\<lambda>c. c \<noteq> CHR ''/'') (rev q))
            in if leaf = [] then ''/'' else leaf))"

definition is_local :: "string \<Rightarrow> bool" where
  "is_local p =
     (if is_abs p \<or> p = [] then False
      else (let q = (if list_ex (\<lambda>c. c = dot \<or> c = dotdot) (split_on CHR ''/'' p) then path_clean p else p)
            in \<not> (q = dotdot \<or> has_prefix q ''../'')))"

text \<open>The UTF-8 encodings of the code points with the Unicode White Space property.\<close>

definition space_runes :: "string list" where
  "space_runes =
     map (\<lambda>n. [byte_of n]) [9, 10, 11, 12, 13, 32] @
     map (map byte_of)
       ([[194, 133], [194, 160], [225, 154, 128], [226, 128, 168], [226, 128, 169], [226, 128, 175],
         [226, 129, 159], [227, 128, 128]] @ map (\<lambda>n. [226, 128, n]) [128 ..< 139])"

fun trim_head :: "nat \<Rightarrow> string list \<Rightarrow> string \<Rightarrow> string" where
  "trim_head 0 rs s = s"
| "trim_head (Suc n) rs s =
     (case find (has_prefix s) rs of
        None \<Rightarrow> s
      | Some r \<Rightarrow> trim_head n rs (drop (length r) s))"

definition trim_space :: "string \<Rightarrow> string" where
  "trim_space s =
     (let t = trim_head (length s) space_runes s
      in rev (trim_head (length t) (map rev space_runes) (rev t)))"

section \<open>Cleaned paths by components\<close>

definition plain_comp :: "string \<Rightarrow> bool" where
  "plain_comp c \<longleftrightarrow> c \<noteq> [] \<and> c \<noteq> dot \<and> c \<noteq> dotdot \<and> CHR ''/'' \<notin> set c"

definition clean_list :: "bool \<Rightarrow> string list \<Rightarrow> bool" where
  "clean_list rooted cs \<longleftrightarrow>
     (\<exists>n ps. cs = replicate n dotdot @ ps \<and> list_all plain_comp ps \<and> (rooted \<longrightarrow> n = 0))"

lemma dot_simps [simp]:
  "dot \<noteq> []" "dotdot \<noteq> []" "dot \<noteq> dotdot" "dotdot \<noteq> dot" "CHR ''/'' \<notin> set dot" "CHR ''/'' \<notin> set dotdot"
  "[] \<noteq> dot" "[] \<noteq> dotdot"
  by (simp_all add: dot_def dotdot_def)

lemma plain_comp_simps [simp]: "\<not> plain_comp []" "\<not> plain_comp dot" "\<not> plain_comp dotdot"
  by (simp_all add: plain_comp_def)

lemma plain_compD: "plain_comp c \<Longrightarrow> c \<noteq> [] \<and> c \<noteq> dot \<and> c \<noteq> dotdot \<and> CHR ''/'' \<notin> set c"
  by (simp add: plain_comp_def)

lemma clean_list_Nil [simp]: "clean_list rooted []"
  by (auto simp: clean_list_def)

lemma clean_list_plain: "list_all plain_comp cs \<Longrightarrow> clean_list rooted cs"
  unfolding clean_list_def by (metis append_Nil replicate_0)

lemma clean_listI: "list_all plain_comp ps \<Longrightarrow> (rooted \<Longrightarrow> n = 0) \<Longrightarrow> clean_list rooted (replicate n dotdot @ ps)"
  by (auto simp: clean_list_def)

lemma clean_list_rooted: "clean_list True cs \<Longrightarrow> list_all plain_comp cs"
  by (auto simp: clean_list_def)

lemma clean_list_snoc: "clean_list rooted cs \<Longrightarrow> plain_comp c \<Longrightarrow> clean_list rooted (cs @ [c])"
proof -
  assume a: "clean_list rooted cs" "plain_comp c"
  then obtain n ps where "cs = replicate n dotdot @ ps" "list_all plain_comp ps" "rooted \<longrightarrow> n = 0"
    by (auto simp: clean_list_def)
  with a(2) show ?thesis using clean_listI [of "ps @ [c]" rooted n] by simp
qed

lemma clean_list_snoc_dotdot:
  "clean_list False cs \<Longrightarrow> cs = [] \<or> last cs = dotdot \<Longrightarrow> clean_list False (cs @ [dotdot])"
proof -
  assume a: "clean_list False cs" "cs = [] \<or> last cs = dotdot"
  from a(1) obtain n ps where ps: "cs = replicate n dotdot @ ps" "list_all plain_comp ps"
    by (auto simp: clean_list_def)
  have "ps = []"
    using a(2) ps by (cases ps rule: rev_cases) auto
  with ps have "cs @ [dotdot] = replicate (Suc n) dotdot @ []"
    by (simp add: replicate_append_same)
  then show ?thesis using clean_listI [of "[]" False "Suc n"] by simp
qed

lemma clean_list_butlast: "clean_list rooted (cs @ [c]) \<Longrightarrow> clean_list rooted cs"
proof -
  assume "clean_list rooted (cs @ [c])"
  then obtain n ps where ps: "cs @ [c] = replicate n dotdot @ ps" "list_all plain_comp ps" "rooted \<longrightarrow> n = 0"
    by (auto simp: clean_list_def)
  show ?thesis
  proof (cases ps rule: rev_cases)
    case Nil
    with ps have "cs = replicate (n - 1) dotdot @ []" by (cases n) (auto simp flip: replicate_append_same)
    with ps(3) show ?thesis using clean_listI [of "[]" rooted "n - 1"] by auto
  next
    case (snoc qs q)
    with ps have "cs = replicate n dotdot @ qs" "list_all plain_comp qs" by auto
    with ps(3) show ?thesis unfolding clean_list_def by blast
  qed
qed

lemma clean_stack_clean:
  "clean_list rooted (rev st) \<Longrightarrow> \<forall>c\<in>set cs. CHR ''/'' \<notin> set c \<Longrightarrow> clean_list rooted (clean_stack rooted st cs)"
proof (induction rooted st cs rule: clean_stack.induct)
  case (2 rooted st c cs)
  show ?case
  proof (cases "c = dotdot")
    case True
    show ?thesis
    proof (cases st)
      case Nil
      with 2 True show ?thesis
        using clean_list_snoc_dotdot [of "[]"] by (cases rooted) simp_all
    next
      case (Cons t ts)
      show ?thesis
      proof (cases "t = dotdot")
        case True
        have "\<not> rooted"
          using "2.prems"(1) Cons True clean_list_rooted [of "rev st"] by (cases rooted) simp_all
        then show ?thesis
          using 2 Cons True \<open>c = dotdot\<close> clean_list_snoc_dotdot [of "rev st"] by simp
      next
        case False
        have "clean_list rooted (rev ts)"
          by (rule clean_list_butlast [of _ _ t]) (use "2.prems"(1) Cons in simp)
        then show ?thesis using 2 Cons False \<open>c = dotdot\<close> by simp
      qed
    qed
  next
    case False
    show ?thesis
    proof (cases "c = [] \<or> c = dot")
      case True
      with 2 show ?thesis by auto
    next
      case c: False
      have "clean_list rooted (rev (c # st))"
        using clean_list_snoc [OF "2.prems"(1), of c] c False "2.prems"(2) by (simp add: plain_comp_def)
      with "2.IH"(6) [OF c False] show ?thesis using c False "2.prems"(2) by simp
    qed
  qed
qed simp

lemma clean_comps_clean: "clean_list (is_abs p) (clean_comps p)"
  unfolding clean_comps_def by (rule clean_stack_clean) (auto dest: split_on_no_sep)

lemma clean_stack_plain:
  "list_all plain_comp cs \<Longrightarrow> clean_stack rooted st cs = rev st @ cs"
  by (induction cs arbitrary: st) auto

lemma clean_stack_dots:
  "clean_stack False (replicate k dotdot) (replicate n dotdot @ cs) = clean_stack False (replicate (n + k) dotdot) cs"
proof (induction n arbitrary: k)
  case (Suc n)
  have "clean_stack False (replicate k dotdot) (replicate (Suc n) dotdot @ cs) =
      clean_stack False (replicate (Suc k) dotdot) (replicate n dotdot @ cs)"
    by (cases k) auto
  with Suc [of "Suc k"] show ?case by simp
qed simp

lemma clean_stack_id: "clean_list rooted cs \<Longrightarrow> clean_stack rooted [] cs = cs"
proof -
  assume "clean_list rooted cs"
  then obtain n ps where ps: "cs = replicate n dotdot @ ps" "list_all plain_comp ps" "rooted \<longrightarrow> n = 0"
    by (auto simp: clean_list_def)
  show ?thesis
    using ps clean_stack_plain clean_stack_dots [of 0 n ps] by (cases "n = 0") auto
qed

lemma clean_list_no_slash: "clean_list rooted cs \<Longrightarrow> c \<in> set cs \<Longrightarrow> c \<noteq> [] \<and> c \<noteq> dot \<and> CHR ''/'' \<notin> set c"
proof -
  assume "clean_list rooted cs" and c: "c \<in> set cs"
  then obtain n ps where ps: "cs = replicate n dotdot @ ps" "list_all plain_comp ps"
    by (auto simp: clean_list_def)
  show ?thesis
  proof (cases "c \<in> set ps")
    case True
    with ps(2) show ?thesis using plain_compD by (auto simp: list_all_iff)
  next
    case False
    with c ps(1) have "c = dotdot" by (auto split: if_splits)
    then show ?thesis by simp
  qed
qed

lemma join_with_eq_Nil: "[] \<notin> set cs \<Longrightarrow> join_with sep cs = [] \<longleftrightarrow> cs = []"
  by (induction sep cs rule: join_with.induct) auto

lemma join_head: "cs \<noteq> [] \<Longrightarrow> hd cs \<noteq> [] \<Longrightarrow> join_with sep cs \<noteq> [] \<and> hd (join_with sep cs) = hd (hd cs)"
  by (induction sep cs rule: join_with.induct) auto

lemma is_abs_Cons [simp]: "is_abs (c # s) \<longleftrightarrow> c = CHR ''/''" "\<not> is_abs []"
  by (simp_all add: is_abs_def)

lemma is_abs_join: "clean_list r cs \<Longrightarrow> \<not> is_abs (join_with CHR ''/'' cs)"
proof (cases cs)
  case (Cons c ds)
  assume "clean_list r cs"
  with Cons have "c \<noteq> []" "CHR ''/'' \<notin> set c" using clean_list_no_slash [of r cs c] by auto
  then obtain d c' where c: "c = d # c'" "d \<noteq> CHR ''/''" by (cases c) auto
  then show ?thesis using Cons by (cases ds) auto
qed simp

lemma clean_comps_rel:
  assumes "clean_list False cs" "cs \<noteq> []"
  shows "clean_comps (join_with CHR ''/'' cs) = cs"
proof -
  have "split_on CHR ''/'' (join_with CHR ''/'' cs) = cs"
    using assms clean_list_no_slash [OF assms(1)] by (intro split_join) auto
  then show ?thesis
    using is_abs_join [OF assms(1)] clean_stack_id [OF assms(1)] by (simp add: clean_comps_def)
qed

lemma clean_comps_abs:
  assumes "clean_list True cs"
  shows "clean_comps (CHR ''/'' # join_with CHR ''/'' cs) = cs"
proof (cases "cs = []")
  case False
  then have "split_on CHR ''/'' (join_with CHR ''/'' cs) = cs"
    using clean_list_no_slash [OF assms] by (intro split_join) auto
  then show ?thesis using clean_stack_id [OF assms] by (simp add: clean_comps_def)
qed (simp add: clean_comps_def)

lemma clean_comps_dot [simp]: "clean_comps dot = []"
  by (simp add: clean_comps_def dot_def is_abs_def)

lemma path_clean_comps [simp]: "clean_comps (path_clean p) = clean_comps p"
proof -
  have c: "clean_list (is_abs p) (clean_comps p)" by (rule clean_comps_clean)
  show ?thesis
  proof (cases "is_abs p")
    case True
    with c have "clean_list True (clean_comps p)" by simp
    from clean_comps_abs [OF this] True show ?thesis by (simp add: path_clean_def Let_def)
  next
    case False
    show ?thesis
    proof (cases "clean_comps p = []")
      case True
      with False show ?thesis by (simp add: path_clean_def Let_def)
    next
      case ne: False
      from c False have cl: "clean_list False (clean_comps p)" by simp
      have "[] \<notin> set (clean_comps p)" using clean_list_no_slash [OF cl] by blast
      then have "join_with CHR ''/'' (clean_comps p) \<noteq> []" using ne join_with_eq_Nil by blast
      with False show ?thesis using clean_comps_rel [OF cl ne] by (simp add: path_clean_def Let_def)
    qed
  qed
qed

lemma is_abs_path_clean [simp]: "is_abs (path_clean p) \<longleftrightarrow> is_abs p"
  using is_abs_join [OF clean_comps_clean [of p]]
  by (simp add: path_clean_def Let_def) (simp add: dot_def)

lemma path_clean_cong: "is_abs p = is_abs q \<Longrightarrow> clean_comps p = clean_comps q \<Longrightarrow> path_clean p = path_clean q"
  by (simp add: path_clean_def)

lemma path_clean_idem [simp]: "path_clean (path_clean p) = path_clean p"
  by (rule path_clean_cong) simp_all

lemma path_clean_not_Nil [simp]: "path_clean p \<noteq> []"
  by (simp add: path_clean_def Let_def)

end
