(* ===== verification/ScopePath.thy ===== *)
theory ScopePath
  imports Paths
begin

text \<open>
  The containment layer of the object store (\<open>src/internal/objectstore/pathresolver.go\<close>,
  \<open>scope_family.go\<close>, the staging guard of \<open>engine_local.go\<close>): the shape guard on scope ids,
  the lexical stage of path validation, and the deployment scope family that the confinement
  guard and the lazy scaffolder share. The lemmas say what an accepted path looks like
  component by component, that validation is idempotent, and that the families of two
  deployments are disjoint.
\<close>

section \<open>Definitions\<close>

type_synonym scope_id = string

text \<open>
  An error value of the package is represented by the sentinel it wraps, or by the structural
  wrapper \<open>*fs.PathError\<close> or \<open>*os.LinkError\<close> with its system error number; that is all the callers
  distinguish. \<open>CtxErr\<close> is \<open>ctx.Err()\<close>, \<open>ReaderErr\<close> and \<open>WriterErr\<close> are errors of the stream the
  caller passed in.
\<close>

datatype errno = ENOENT | EEXIST | ENOTDIR | EISDIR | ENOTEMPTY | EINVAL | EPERM | EIO

datatype store_err =
    ErrInvalidPath
  | ErrInvalidScopeID
  | ErrForeignScope
  | ErrUnknownEngine
  | ErrAlreadyExists
  | ErrNotADirectory
  | ErrInvalidRange
  | ErrTransient
  | ErrThrottled
  | PathError errno
  | LinkError errno
  | CtxErr
  | ReaderErr string
  | WriterErr
  | OtherErr

definition validateScopeID :: "scope_id \<Rightarrow> store_err option" where
  "validateScopeID s =
     (if s = [] \<or> s = dot \<or> s = dotdot then Some ErrInvalidScopeID
      else if list_ex (\<lambda>c. c = CHR ''/'' \<or> c = CHR 0x5C \<or> c = CHR 0x00) s then Some ErrInvalidScopeID
      else if path_clean s \<noteq> s then Some ErrInvalidScopeID
      else None)"

definition isAlpha :: "char \<Rightarrow> bool" where
  "isAlpha c = ((CHR ''a'' \<le> c \<and> c \<le> CHR ''z'') \<or> (CHR ''A'' \<le> c \<and> c \<le> CHR ''Z''))"

definition isDigit :: "char \<Rightarrow> bool" where
  "isDigit c = (CHR ''0'' \<le> c \<and> c \<le> CHR ''9'')"

definition hasURLScheme :: "string \<Rightarrow> bool" where
  "hasURLScheme s =
     (case s of
        [] \<Rightarrow> False
      | c # t \<Rightarrow> isAlpha c \<and>
          has_prefix
            (dropWhile (\<lambda>d. isAlpha d \<or> isDigit d \<or> d = CHR ''+'' \<or> d = CHR ''-'' \<or> d = CHR ''.'') t) ''://'')"

definition maxPathComponents :: nat where
  "maxPathComponents = 255"

definition ValidatePath :: "string \<Rightarrow> (store_err, string) res" where
  "ValidatePath p =
     (if CHR 0x00 \<in> set p then Inl ErrInvalidPath
      else if hasURLScheme p then Inl ErrInvalidPath
      else (let clean = path_clean p in
        if clean = dot \<or> \<not> is_local clean then Inl ErrInvalidPath
        else if count_list clean CHR ''/'' + 1 > maxPathComponents then Inl ErrInvalidPath
        else Inr clean))"

definition stagingDirName :: string where
  "stagingDirName = ''.ocu-staging''"

definition guestPath :: "string \<Rightarrow> (store_err, string) res" where
  "guestPath p =
     (case ValidatePath p of
        Inl e \<Rightarrow> Inl e
      | Inr clean \<Rightarrow>
          (let first = takeWhile (\<lambda>c. c \<noteq> CHR ''/'') clean in
           if first = stagingDirName then Inl ErrInvalidPath else Inr clean))"

subsection \<open>Scope families\<close>

text \<open>
  A regular expression of the package \<open>regexp\<close> runs over runes, and an ill-formed byte is the
  rune U+FFFD; \<open>to_valid\<close> is the text the expression sees. A pattern that is not well-formed
  UTF-8 is refused by \<open>regexp.MustCompile\<close> with a panic.
\<close>

function to_valid :: "string \<Rightarrow> string" where
  "to_valid s =
     (if s = [] then []
      else if rune_len s = 0 then map byte_of [239, 191, 189] @ to_valid (tl s)
      else take (rune_len s) s @ to_valid (drop (rune_len s) s))"
  by pat_completeness auto
termination
  by (relation "measure length") auto

declare to_valid.simps [simp del]

definition derived_suffix :: "string \<Rightarrow> bool" where
  "derived_suffix t = (length t = 17 \<and> hd t = CHR ''-'' \<and> list_all is_lower_hex (tl t))"

definition derivedShape :: "string \<Rightarrow> bool" where
  "derivedShape s = (17 \<le> length s \<and> derived_suffix (drop (length s - 17) s))"

record ScopeFamily =
  sf_base :: string
  sf_re :: "string option"

definition zero_family :: ScopeFamily where
  "zero_family = \<lparr>sf_base = [], sf_re = None\<rparr>"

datatype family_err = FamInvalid | FamPanic

definition NewScopeFamily :: "scope_id \<Rightarrow> (family_err, ScopeFamily) res" where
  "NewScopeFamily base =
     (if validateScopeID base \<noteq> None then Inl FamInvalid
      else if derivedShape base then Inl FamInvalid
      else if \<not> valid_utf8 base then Inl FamPanic
      else Inr \<lparr>sf_base = base, sf_re = Some base\<rparr>)"

definition family_match :: "string \<Rightarrow> string \<Rightarrow> bool" where
  "family_match base s =
     (let t = to_valid s in has_prefix t base \<and> derived_suffix (drop (length base) t))"

definition Contains :: "ScopeFamily \<Rightarrow> scope_id \<Rightarrow> bool" where
  "Contains f s =
     (case sf_re f of
        None \<Rightarrow> False
      | Some base \<Rightarrow> s = sf_base f \<or> family_match base s)"

definition family_valid :: "ScopeFamily \<Rightarrow> bool" where
  "family_valid f = (sf_re f \<noteq> None)"

section \<open>Accepted paths\<close>

lemma set_join_with: "set (join_with sep cs) \<subseteq> insert sep (\<Union> (set ` set cs))"
  by (induction sep cs rule: join_with.induct) auto

lemma set_split_on: "c \<in> set (split_on sep s) \<Longrightarrow> set c \<subseteq> set s"
proof (induction s arbitrary: c)
  case (Cons a s)
  obtain w ws where ws: "split_on sep s = w # ws" by (cases "split_on sep s") auto
  show ?case
  proof (cases "a = sep")
    case True
    with Cons show ?thesis by fastforce
  next
    case False
    with Cons ws have "c = a # w \<or> c \<in> set ws" by auto
    with Cons.IH [of w] Cons.IH [of c] ws show ?thesis by auto
  qed
qed simp

lemma clean_stack_subset: "set (clean_stack r st cs) \<subseteq> insert dotdot (set st \<union> set cs)"
proof (induction r st cs rule: clean_stack.induct)
  case (2 rooted st c cs)
  then show ?case by (cases st) auto
qed auto

lemma set_path_clean: "set (path_clean p) \<subseteq> insert CHR ''/'' (insert CHR ''.'' (set p))"
proof -
  have "set c \<subseteq> insert CHR ''.'' (set p)" if "c \<in> set (clean_comps p)" for c
  proof -
    have "c = dotdot \<or> c \<in> set (split_on CHR ''/'' p)"
      using that clean_stack_subset [of "is_abs p" "[]" "split_on CHR ''/'' p"] by (auto simp: clean_comps_def)
    then show ?thesis
    proof
      assume "c = dotdot"
      then show ?thesis by (simp add: dotdot_def)
    next
      assume "c \<in> set (split_on CHR ''/'' p)"
      from set_split_on [OF this] show ?thesis by auto
    qed
  qed
  then have "set (join_with CHR ''/'' (clean_comps p)) \<subseteq> insert CHR ''/'' (insert CHR ''.'' (set p))"
    using set_join_with [of "CHR ''/''" "clean_comps p"] by blast
  moreover have "set dot = {CHR ''.''}" by (simp add: dot_def)
  ultimately show ?thesis by (auto simp: path_clean_def Let_def)
qed

lemma length_split_on: "length (split_on sep s) = Suc (count_list s sep)"
proof (induction s)
  case (Cons a s)
  then show ?case by (cases "split_on sep s") auto
qed simp

lemma split_on_takeWhile: "hd (split_on sep s) = takeWhile (\<lambda>c. c \<noteq> sep) s"
proof (induction s)
  case (Cons a s)
  then show ?case by (cases "split_on sep s") auto
qed simp

lemma has_prefix_dotdot_split: "q = dotdot \<or> has_prefix q ''../'' \<longleftrightarrow> hd (split_on CHR ''/'' q) = dotdot"
proof
  assume "hd (split_on CHR ''/'' q) = dotdot"
  then have "takeWhile (\<lambda>c. c \<noteq> CHR ''/'') q = ''..''" by (simp add: split_on_takeWhile dotdot_def)
  then have q: "q = ''..'' @ dropWhile (\<lambda>c. c \<noteq> CHR ''/'') q"
    using takeWhile_dropWhile_id [of "\<lambda>c. c \<noteq> CHR ''/''" q] by simp
  show "q = dotdot \<or> has_prefix q ''../''"
  proof (cases "dropWhile (\<lambda>c. c \<noteq> CHR ''/'') q")
    case Nil
    with q show ?thesis by (simp add: dotdot_def)
  next
    case (Cons d ds)
    then have "d = CHR ''/''" using hd_dropWhile [of "\<lambda>c. c \<noteq> CHR ''/''" q] by auto
    with q Cons have "q = ''../'' @ ds" by simp
    then show ?thesis by (metis has_prefix_append)
  qed
next
  assume "q = dotdot \<or> has_prefix q ''../''"
  then show "hd (split_on CHR ''/'' q) = dotdot"
    by (auto simp: has_prefix_conv dotdot_def split_on_takeWhile)
qed

text \<open>A cleaned relative path in terms of its components.\<close>

lemma clean_rel_join:
  assumes "\<not> is_abs p" "path_clean p \<noteq> dot"
  shows "path_clean p = join_with CHR ''/'' (clean_comps p)" "clean_comps p \<noteq> []"
    "split_on CHR ''/'' (path_clean p) = clean_comps p"
proof -
  show eq: "path_clean p = join_with CHR ''/'' (clean_comps p)"
    using assms by (simp add: path_clean_def Let_def split: if_splits)
  show ne: "clean_comps p \<noteq> []" using eq path_clean_not_Nil [of p] by auto
  have "\<forall>w\<in>set (clean_comps p). CHR ''/'' \<notin> set w"
    using clean_list_no_slash [OF clean_comps_clean] by blast
  then show "split_on CHR ''/'' (path_clean p) = clean_comps p"
    unfolding eq by (rule split_join [OF ne])
qed

lemma is_local_clean:
  assumes "\<not> is_abs p" "path_clean p \<noteq> dot"
  shows "is_local (path_clean p) \<longleftrightarrow> hd (clean_comps p) \<noteq> dotdot"
  using assms has_prefix_dotdot_split [of "path_clean p"] clean_rel_join(3) [OF assms]
  by (auto simp: is_local_def Let_def)

lemma clean_list_hd:
  assumes "clean_list r cs" "cs \<noteq> []" "hd cs \<noteq> dotdot"
  shows "list_all plain_comp cs"
proof -
  obtain n ps where ps: "cs = replicate n dotdot @ ps" "list_all plain_comp ps"
    using assms(1) by (auto simp: clean_list_def)
  with assms(2,3) have "n = 0" by (cases n) auto
  with ps show ?thesis by simp
qed

lemma ValidatePath_iff:
  "ValidatePath p = Inr q \<longleftrightarrow>
     CHR 0x00 \<notin> set p \<and> \<not> hasURLScheme p \<and> \<not> is_abs p \<and> q = join_with CHR ''/'' (clean_comps p) \<and>
     clean_comps p \<noteq> [] \<and> list_all plain_comp (clean_comps p) \<and> length (clean_comps p) \<le> maxPathComponents"
proof (cases "is_abs p \<or> path_clean p = dot")
  case True
  then show ?thesis
  proof
    assume "is_abs p"
    then show ?thesis by (auto simp: ValidatePath_def Let_def is_local_def)
  next
    assume d: "path_clean p = dot"
    then have "is_abs dot \<longleftrightarrow> is_abs p" by (metis is_abs_path_clean)
    then have "\<not> is_abs p" by (simp add: dot_def)
    moreover have "clean_comps p = []" using d by (metis path_clean_comps clean_comps_dot)
    ultimately show ?thesis using d by (auto simp: ValidatePath_def Let_def)
  qed
next
  case False
  then have na: "\<not> is_abs p" and nd: "path_clean p \<noteq> dot" by auto
  note rel = clean_rel_join [OF na nd]
  have cnt: "count_list (path_clean p) CHR ''/'' + 1 = length (clean_comps p)"
    using length_split_on [of "CHR ''/''" "path_clean p"] rel(3) by simp
  have loc: "is_local (path_clean p) \<longleftrightarrow> list_all plain_comp (clean_comps p)"
    using is_local_clean [OF na nd] clean_list_hd [OF clean_comps_clean rel(2)] rel(2)
    by (cases "clean_comps p") (auto simp: plain_comp_def)
  show ?thesis
    unfolding ValidatePath_def Let_def loc cnt using na nd rel(1,2) by auto
qed

lemma join_no_double_slash:
  "[] \<notin> set cs \<Longrightarrow> \<forall>c\<in>set cs. CHR ''/'' \<notin> set c \<Longrightarrow> join_with CHR ''/'' cs \<noteq> u @ ''//'' @ v"
proof
  assume a: "[] \<notin> set cs" "\<forall>c\<in>set cs. CHR ''/'' \<notin> set c" and eq: "join_with CHR ''/'' cs = u @ ''//'' @ v"
  have ne: "cs \<noteq> []" using eq by auto
  have "[] \<in> set (tl (split_on CHR ''/'' (u @ ''//'' @ v)))"
  proof (induction u)
    case (Cons d u)
    then show ?case
      by (cases "split_on CHR ''/'' (u @ ''//'' @ v)") (auto dest: list.set_sel(2))
  qed simp
  then show False using split_join [OF ne a(2)] eq a(1) by (auto dest: list.set_sel(2) [rotated])
qed

lemma hasURLScheme_double_slash:
  assumes "hasURLScheme s"
  shows "\<exists>u v. s = u @ ''//'' @ v"
proof -
  let ?P = "\<lambda>d. isAlpha d \<or> isDigit d \<or> d = CHR ''+'' \<or> d = CHR ''-'' \<or> d = CHR ''.''"
  obtain c t where s: "s = c # t" "has_prefix (dropWhile ?P t) ''://''"
    using assms by (auto simp: hasURLScheme_def split: list.splits)
  then obtain w where "dropWhile ?P t = ''://'' @ w" by (auto simp: has_prefix_conv)
  then have "s = (c # takeWhile ?P t @ '':'') @ ''//'' @ w"
    using s(1) takeWhile_dropWhile_id [of ?P t] by simp
  then show ?thesis by blast
qed

lemma ValidatePath_comps:
  assumes "ValidatePath p = Inr q"
  shows "clean_comps q = clean_comps p" "split_on CHR ''/'' q = clean_comps p" "\<not> is_abs q"
    "CHR 0x00 \<notin> set q" "\<not> hasURLScheme q"
proof -
  note v = assms [unfolded ValidatePath_iff]
  have cl: "clean_list False (clean_comps p)" using v clean_list_plain by blast
  have q: "q = join_with CHR ''/'' (clean_comps p)" using v by simp
  show "clean_comps q = clean_comps p" using clean_comps_rel [OF cl] v by simp
  show "split_on CHR ''/'' q = clean_comps p"
    unfolding q using v by (intro split_join) (auto simp: list_all_iff plain_comp_def)
  show "\<not> is_abs q" unfolding q by (rule is_abs_join [OF cl])
  have "[] \<notin> set (clean_comps p)" using v plain_comp_simps(1) by (metis list_all_iff)
  then have "path_clean p = q" using v join_with_eq_Nil [of "clean_comps p" "CHR ''/''"]
    by (auto simp: path_clean_def Let_def)
  then show "CHR 0x00 \<notin> set q" using set_path_clean [of p] v by auto
  show "\<not> hasURLScheme q"
    using hasURLScheme_double_slash [of q] join_no_double_slash [of "clean_comps p"] v
    by (auto simp: list_all_iff plain_comp_def)
qed

lemma ValidatePath_idem: "ValidatePath p = Inr q \<Longrightarrow> ValidatePath q = Inr q"
  unfolding ValidatePath_iff [of q q] using ValidatePath_comps [of p q] by (simp add: ValidatePath_iff)

lemma clean_stack_append: "clean_stack r st (xs @ ys) = clean_stack r (rev (clean_stack r st xs)) ys"
proof (induction r st xs rule: clean_stack.induct)
  case (2 rooted st c cs)
  then show ?case by (cases st) auto
qed simp

lemma split_on_append: "split_on sep (u @ sep # v) = split_on sep u @ split_on sep v"
proof (induction u)
  case (Cons a u)
  then show ?case by (cases "split_on sep u") auto
qed simp

lemma clean_comps_path_join:
  assumes "list_all plain_comp (split_on CHR ''/'' q)"
  shows "clean_comps (path_join [base, q]) = clean_comps base @ split_on CHR ''/'' q"
proof (cases "base = []")
  case True
  from assms have ne: "q \<noteq> []" and na: "\<not> is_abs q" by (auto simp: is_abs_def has_prefix_conv)
  have "clean_comps q = split_on CHR ''/'' q"
    using na clean_stack_plain [OF assms] by (simp add: clean_comps_def)
  with True ne show ?thesis by (simp add: path_join_def clean_comps_def [of "[]"])
next
  case False
  then have "clean_comps (path_join [base, q]) = clean_comps (base @ CHR ''/'' # q)"
    by (simp add: path_join_def)
  also have "\<dots> = clean_stack (is_abs base) (rev (clean_comps base)) (split_on CHR ''/'' q)"
  proof -
    have "is_abs (base @ CHR ''/'' # q) = is_abs base" using False by (cases base) simp_all
    then show ?thesis by (simp add: clean_comps_def split_on_append clean_stack_append)
  qed
  also have "\<dots> = clean_comps base @ split_on CHR ''/'' q"
    using clean_stack_plain [OF assms] by simp
  finally show ?thesis .
qed

lemma guestPath_iff:
  "guestPath p = Inr q \<longleftrightarrow> ValidatePath p = Inr q \<and> hd (split_on CHR ''/'' q) \<noteq> stagingDirName"
  by (auto simp: guestPath_def Let_def split_on_takeWhile split: sum.splits)

text \<open>
  C25. A guest path that the engine accepts is safe wherever it is used: it is its own
  canonical form, it is relative and free of NUL bytes, each of its at most 255 components is
  a plain name (not empty, not dot, not dot-dot), its first component is not the staging
  area, and joined below any directory it names exactly those components below that
  directory, so no accepted path leaves the scope root.
\<close>

theorem guest_path_contained:
  assumes "guestPath p = Inr q"
  shows "guestPath q = Inr q \<and> \<not> is_abs q \<and> CHR 0x00 \<notin> set q \<and>
    list_all (\<lambda>c. c \<noteq> [] \<and> c \<noteq> dot \<and> c \<noteq> dotdot) (split_on CHR ''/'' q) \<and>
    length (split_on CHR ''/'' q) \<le> 255 \<and>
    hd (split_on CHR ''/'' q) \<noteq> stagingDirName \<and>
    clean_comps (path_join [base, q]) = clean_comps base @ split_on CHR ''/'' q"
proof -
  have v: "ValidatePath p = Inr q" and st: "hd (split_on CHR ''/'' q) \<noteq> stagingDirName"
    using assms by (simp_all add: guestPath_iff)
  note c = ValidatePath_comps [OF v]
  have pl: "list_all plain_comp (split_on CHR ''/'' q)" and len: "length (split_on CHR ''/'' q) \<le> 255"
    using v c(2) by (simp_all add: ValidatePath_iff maxPathComponents_def)
  show ?thesis
    using ValidatePath_idem [OF v] st c(3,4) len clean_comps_path_join [OF pl, of base] pl
    by (simp add: guestPath_iff list_all_iff plain_comp_def)
qed

theorem guest_path_contained_witness:
  "guestPath ''a//b/../c'' = Inr ''a/c'' \<and>
   clean_comps (path_join [''/srv/fs'', ''a/c'']) = [''srv'', ''fs'', ''a'', ''c'']"
proof -
  have "guestPath ''a//b/../c'' = Inr ''a/c''" by code_simp
  from this guest_path_contained [OF this, of "''/srv/fs''"] show ?thesis
    by (simp add: clean_comps_def is_abs_def dot_def dotdot_def)
qed

section \<open>Scope ids and families\<close>

lemma path_clean_word: "plain_comp s \<Longrightarrow> path_clean s = s"
proof -
  assume s: "plain_comp s"
  then have "\<not> is_abs s" by (auto simp: is_abs_def has_prefix_conv plain_comp_def)
  with s show ?thesis by (simp add: path_clean_def clean_comps_def split_on_word plain_comp_def)
qed

lemma validateScopeID_iff:
  "validateScopeID s = None \<longleftrightarrow> plain_comp s \<and> CHR 0x5C \<notin> set s \<and> CHR 0x00 \<notin> set s"
proof (cases "s = [] \<or> s = dot \<or> s = dotdot \<or> list_ex (\<lambda>c. c = CHR ''/'' \<or> c = CHR 0x5C \<or> c = CHR 0x00) s")
  case True
  then show ?thesis by (auto simp: validateScopeID_def plain_comp_def list_ex_iff)
next
  case False
  then have "plain_comp s" by (auto simp: plain_comp_def list_ex_iff)
  with False path_clean_word show ?thesis by (auto simp: validateScopeID_def list_ex_iff)
qed

lemma to_valid_id: "valid_utf8 s \<Longrightarrow> to_valid s = s"
proof (induction s rule: valid_utf8.induct)
  case (1 s)
  show ?case
  proof (cases "s = []")
    case False
    then have r: "rune_len s \<noteq> 0" "valid_utf8 (drop (rune_len s) s)"
      using 1(2) by (auto simp: valid_utf8.simps [of s] split: if_splits)
    with 1(1) False have "to_valid (drop (rune_len s) s) = drop (rune_len s) s" by simp
    with False r(1) show ?thesis by (simp add: to_valid.simps [of s])
  qed (simp add: to_valid.simps)
qed

lemma to_valid_ascii: "c \<in> set s \<Longrightarrow> byte_val c < 128 \<Longrightarrow> c \<in> set (to_valid s)"
proof (induction s rule: to_valid.induct)
  case (1 s)
  then have ne: "s \<noteq> []" by auto
  show ?case
  proof (cases "rune_len s = 0")
    case True
    have "c \<noteq> hd s"
      using True ne 1(4) by (cases s) (auto simp: rune_width_def)
    then have "c \<in> set (tl s)" using 1(3) ne by (cases s) auto
    with 1(1) [OF ne True] 1(4) True ne show ?thesis by (simp add: to_valid.simps [of s])
  next
    case False
    have "c \<in> set (take (rune_len s) s) \<or> c \<in> set (drop (rune_len s) s)"
      using 1(3) by (metis UnE append_take_drop_id set_append)
    with 1(2) [OF ne False] 1(4) False ne show ?thesis by (auto simp: to_valid.simps [of s])
  qed
qed

lemma NewScopeFamily_iff:
  "NewScopeFamily b = Inr f \<longleftrightarrow> validateScopeID b = None \<and> \<not> derivedShape b \<and> valid_utf8 b \<and>
     f = \<lparr>sf_base = b, sf_re = Some b\<rparr>"
  by (auto simp: NewScopeFamily_def)

lemma Contains_iff:
  "NewScopeFamily b = Inr f \<Longrightarrow> Contains f s \<longleftrightarrow> s = b \<or> (\<exists>t. to_valid s = b @ t \<and> derived_suffix t)"
  by (auto simp: NewScopeFamily_iff Contains_def family_match_def Let_def has_prefix_conv)

lemma derivedShape_append: "derived_suffix t \<Longrightarrow> derivedShape (b @ t)"
  by (simp add: derivedShape_def derived_suffix_def)

lemma family_unique:
  assumes "NewScopeFamily b1 = Inr f1" "NewScopeFamily b2 = Inr f2" "Contains f1 s" "Contains f2 s"
  shows "b1 = b2 \<and> f1 = f2"
proof -
  have v: "valid_utf8 b1" "valid_utf8 b2" "\<not> derivedShape b1" "\<not> derivedShape b2"
    using assms(1,2) by (simp_all add: NewScopeFamily_iff)
  have c1: "s = b1 \<or> (\<exists>t. to_valid s = b1 @ t \<and> derived_suffix t)"
    using Contains_iff [OF assms(1)] assms(3) by simp
  have c2: "s = b2 \<or> (\<exists>t. to_valid s = b2 @ t \<and> derived_suffix t)"
    using Contains_iff [OF assms(2)] assms(4) by simp
  have no: "\<not> (\<exists>t. to_valid b1 = b2 @ t \<and> derived_suffix t)" "\<not> (\<exists>t. to_valid b2 = b1 @ t \<and> derived_suffix t)"
    unfolding to_valid_id [OF v(1)] to_valid_id [OF v(2)] using v(3,4) derivedShape_append by blast+
  have "b1 = b2"
  proof (cases "s = b1 \<or> s = b2")
    case True
    then show ?thesis
    proof
      assume "s = b1"
      with c2 no(1) show ?thesis by simp
    next
      assume "s = b2"
      with c1 no(2) show ?thesis by simp
    qed
  next
    case False
    with c1 c2 obtain t1 t2 where "b1 @ t1 = b2 @ t2" "derived_suffix t1" "derived_suffix t2" by metis
    then show ?thesis by (simp add: derived_suffix_def)
  qed
  with assms(1,2) show ?thesis by simp
qed

text \<open>
  C26. The scope families of two deployments with different bases share no scope id at all,
  ill-formed byte sequences included: the confinement guard of one deployment refuses every
  scope the other deployment can serve.
\<close>

theorem families_disjoint:
  assumes "NewScopeFamily b1 = Inr f1" "NewScopeFamily b2 = Inr f2" "Contains f1 s" "Contains f2 s"
  shows "b1 = b2 \<and> f1 = f2"
  by (rule family_unique [OF assms])

theorem families_disjoint_witness:
  "\<exists>f1 f2. NewScopeFamily ''fs'' = Inr f1 \<and> NewScopeFamily ''fs-2'' = Inr f2 \<and>
     Contains f1 ''fs-0123456789abcdef'' \<and> \<not> Contains f2 ''fs-0123456789abcdef''"
proof -
  obtain f1 where f1: "NewScopeFamily ''fs'' = Inr f1" "Contains f1 ''fs-0123456789abcdef''"
    by (rule that [of "\<lparr>sf_base = ''fs'', sf_re = Some ''fs''\<rparr>"]) code_simp+
  obtain f2 where f2: "NewScopeFamily ''fs-2'' = Inr f2"
    by (rule that [of "\<lparr>sf_base = ''fs-2'', sf_re = Some ''fs-2''\<rparr>"]) code_simp
  have "\<not> Contains f2 ''fs-0123456789abcdef''"
    using families_disjoint [OF f1(1) f2 f1(2)] by auto
  with f1 f2 show ?thesis by blast
qed

text \<open>
  Every member of a family is a well-shaped scope id, so it names one directory directly
  below the base directory, and different well-formed scope ids name different directories.
\<close>

lemma family_scopes_separate:
  assumes "NewScopeFamily b = Inr f" "Contains f s"
  shows "validateScopeID s = None \<and>
    clean_comps (path_join [base, s]) = clean_comps base @ [s] \<and>
    (validateScopeID s' = None \<longrightarrow> path_join [base, s] = path_join [base, s'] \<longrightarrow> s = s')"
proof -
  have one: "clean_comps (path_join [base, u]) = clean_comps base @ [u]" if "validateScopeID u = None" for u
    using that clean_comps_path_join [of u base] by (simp add: validateScopeID_iff split_on_word plain_comp_def)
  have b: "validateScopeID b = None" using assms(1) by (simp add: NewScopeFamily_iff)
  have s: "validateScopeID s = None"
  proof (cases "s = b")
    case False
    then obtain t where t: "to_valid s = b @ t" "derived_suffix t"
      using Contains_iff [OF assms(1)] assms(2) by blast
    have "list_all is_lower_hex (tl t)" "hd t = CHR ''-''" "t \<noteq> []"
      using t(2) by (auto simp: derived_suffix_def)
    then have "\<forall>c\<in>set t. c = CHR ''-'' \<or> is_lower_hex c" by (cases t) (auto simp: list_all_iff)
    moreover have "\<not> is_lower_hex CHR ''/''" "\<not> is_lower_hex CHR 0x5C" "\<not> is_lower_hex CHR 0x00"
      by (simp_all add: is_lower_hex_def)
    ultimately have "CHR ''/'' \<notin> set t" "CHR 0x5C \<notin> set t" "CHR 0x00 \<notin> set t"
      by force+
    then have "CHR ''/'' \<notin> set (to_valid s)" "CHR 0x5C \<notin> set (to_valid s)" "CHR 0x00 \<notin> set (to_valid s)"
      using b t(1) by (simp_all add: validateScopeID_iff plain_comp_def)
    then have no: "CHR ''/'' \<notin> set s" "CHR 0x5C \<notin> set s" "CHR 0x00 \<notin> set s"
      using to_valid_ascii [of "CHR ''/''" s] to_valid_ascii [of "CHR 0x5C" s] to_valid_ascii [of "CHR 0x00" s]
      by (simp_all, blast+)
    have "length (to_valid s) \<ge> 17" using t by (simp add: derived_suffix_def)
    moreover have "length (to_valid []) < 17" "length (to_valid dot) < 17" "length (to_valid dotdot) < 17"
      by (simp_all add: to_valid_id valid_utf8_ascii dot_def dotdot_def)
    ultimately have "s \<noteq> [] \<and> s \<noteq> dot \<and> s \<noteq> dotdot" by (metis not_less)
    with no show ?thesis by (simp add: validateScopeID_iff plain_comp_def)
  qed (use b in simp)
  moreover have "s = s'" if s': "validateScopeID s' = None" and eq: "path_join [base, s] = path_join [base, s']"
    using one [OF s] one [OF s'] unfolding eq by simp
  ultimately show ?thesis using one [OF s] by blast
qed

end
