(* ===== verification/Admission.thy ===== *)
theory Admission
  imports Prelude
begin

text \<open>
  Startup admission (\<open>src/internal/admission/admission.go\<close>): which credential kind and which
  broker mode a trust profile and tenancy may run with. The three axes are open string types
  in the code, so a value outside the vocabulary is a value of the model too. The properties
  say that the two tables are exact and that everything else is refused.
\<close>

section \<open>Definitions\<close>

type_synonym WorkloadTrustProfile = string
type_synonym Tenancy = string
type_synonym CredentialKind = string

definition ProfileTrustedOperator :: WorkloadTrustProfile where "ProfileTrustedOperator = ''trusted_operator''"
definition ProfileInternalWorkforce :: WorkloadTrustProfile where "ProfileInternalWorkforce = ''internal_workforce''"
definition ProfileUntrusted :: WorkloadTrustProfile where "ProfileUntrusted = ''untrusted''"
definition TenancySingleTenant :: Tenancy where "TenancySingleTenant = ''single_tenant''"
definition TenancyMultiTenant :: Tenancy where "TenancyMultiTenant = ''multi_tenant''"
definition CredHostLocalLongLived :: CredentialKind where "CredHostLocalLongLived = ''host_local_long_lived''"
definition CredSTSPerSession :: CredentialKind where "CredSTSPerSession = ''sts_per_session''"

datatype admit_err = ErrAdmissionRefused | ErrTenancyRefused

definition credentialOKSet :: "(WorkloadTrustProfile \<times> Tenancy \<times> CredentialKind) list" where
  "credentialOKSet =
     [(ProfileTrustedOperator, TenancySingleTenant, CredHostLocalLongLived),
      (ProfileTrustedOperator, TenancySingleTenant, CredSTSPerSession),
      (ProfileTrustedOperator, TenancyMultiTenant, CredSTSPerSession),
      (ProfileInternalWorkforce, TenancySingleTenant, CredSTSPerSession),
      (ProfileInternalWorkforce, TenancyMultiTenant, CredSTSPerSession),
      (ProfileUntrusted, TenancySingleTenant, CredSTSPerSession),
      (ProfileUntrusted, TenancyMultiTenant, CredSTSPerSession)]"

definition Admit :: "WorkloadTrustProfile \<Rightarrow> Tenancy \<Rightarrow> CredentialKind \<Rightarrow> admit_err option" where
  "Admit profile tenancy credKind =
     (if (profile, tenancy, credKind) \<in> set credentialOKSet then None else Some ErrAdmissionRefused)"

definition brokerModeOKSet :: "(WorkloadTrustProfile \<times> Tenancy) list" where
  "brokerModeOKSet = [(ProfileTrustedOperator, TenancySingleTenant)]"

definition AdmitBrokerMode :: "WorkloadTrustProfile \<Rightarrow> Tenancy \<Rightarrow> admit_err option" where
  "AdmitBrokerMode profile tenancy =
     (if (profile, tenancy) \<in> set brokerModeOKSet then None else Some ErrTenancyRefused)"

section \<open>Properties\<close>

lemmas admission_names =
  ProfileTrustedOperator_def ProfileInternalWorkforce_def ProfileUntrusted_def TenancySingleTenant_def
  TenancyMultiTenant_def CredHostLocalLongLived_def CredSTSPerSession_def

lemma Admit_None_iff:
  "Admit p t c = None \<longleftrightarrow>
     p \<in> {ProfileTrustedOperator, ProfileInternalWorkforce, ProfileUntrusted} \<and>
     t \<in> {TenancySingleTenant, TenancyMultiTenant} \<and>
     (c = CredSTSPerSession \<or>
      c = CredHostLocalLongLived \<and> p = ProfileTrustedOperator \<and> t = TenancySingleTenant)"
  by (auto simp: Admit_def credentialOKSet_def)

end
