(* ===== verification/Authz.thy ===== *)
theory Authz
  imports ScopePath Admission "HOL-Library.Sublist"
begin

text \<open>
  Authorization (\<open>src/internal/authz\<close>) and the operator's downloadable policy
  (\<open>src/internal/broker/downloadable.go\<close>, with the wildcard bar of
  \<open>src/cmd/ocu-filestored/main.go\<close>). The resolver decides on three axes: the scope of the
  caller's evidence, the granted intents, and, for a read, the stored downloadable tag. The
  properties characterise exactly when a request is granted and when it may leave the
  deployment as a download.
\<close>

section \<open>Resolver\<close>

type_synonym FilesystemID = string
type_synonym Intent = string

definition IntentRead :: Intent where "IntentRead = ''read''"
definition IntentWrite :: Intent where "IntentWrite = ''write''"
definition IntentPreview :: Intent where "IntentPreview = ''preview''"

datatype authz_err = ErrScopeMismatch | ErrIntentDenied | ErrNotDownloadable

record Request =
  rq_Filesystem :: FilesystemID
  rq_Path :: string
  rq_Intent :: Intent

record Grant =
  gr_Downloadable :: bool

record CallerEvidence =
  ev_Scope :: FilesystemID
  ev_GrantedIntents :: "Intent list"

text \<open>The caller is an \<open>any\<close> in the code: either evidence or something else.\<close>

datatype caller = Evidence CallerEvidence | OtherCaller

type_synonym StoredTagFunc = "FilesystemID \<Rightarrow> string \<Rightarrow> (unit, bool) res"

fun intentGranted :: "Intent list \<Rightarrow> Intent \<Rightarrow> bool" where
  "intentGranted [] intent = False"
| "intentGranted (g # gs) intent =
     (if g = intent then True
      else if g = IntentWrite \<and> intent = IntentRead then True
      else intentGranted gs intent)"

definition Resolve :: "StoredTagFunc \<Rightarrow> caller \<Rightarrow> Request \<Rightarrow> (authz_err, Grant) res" where
  "Resolve tag c req =
     (case c of
        OtherCaller \<Rightarrow> Inl ErrScopeMismatch
      | Evidence ev \<Rightarrow>
          if ev_Scope ev = [] then Inl ErrScopeMismatch
          else if rq_Filesystem req \<noteq> ev_Scope ev then Inl ErrScopeMismatch
          else if \<not> intentGranted (ev_GrantedIntents ev) (rq_Intent req) then Inl ErrIntentDenied
          else if rq_Intent req = IntentRead then
            (case tag (rq_Filesystem req) (rq_Path req) of
               Inl _ \<Rightarrow> Inl ErrNotDownloadable
             | Inr dl \<Rightarrow> if \<not> dl then Inr \<lparr>gr_Downloadable = False\<rparr> else Inr \<lparr>gr_Downloadable = True\<rparr>)
          else if rq_Intent req = IntentWrite then Inr \<lparr>gr_Downloadable = False\<rparr>
          else if rq_Intent req = IntentPreview then Inr \<lparr>gr_Downloadable = False\<rparr>
          else Inl ErrIntentDenied)"

section \<open>Downloadable policy\<close>

definition downloadableMatchAll :: string where
  "downloadableMatchAll = ''*''"

definition trim_right_slash :: "string \<Rightarrow> string" where
  "trim_right_slash p = rev (dropWhile (\<lambda>c. c = CHR ''/'') (rev p))"

definition trim_left_slash :: "string \<Rightarrow> string" where
  "trim_left_slash p = dropWhile (\<lambda>c. c = CHR ''/'') p"

text \<open>The construction loop: the match-all flag and the normalised prefixes.\<close>

fun norm_prefixes :: "string list \<Rightarrow> bool \<times> string list" where
  "norm_prefixes [] = (False, [])"
| "norm_prefixes (p0 # ps) =
     (let (matchAll, norm) = norm_prefixes ps; p = trim_space p0 in
      if p = [] then (matchAll, norm)
      else if p = downloadableMatchAll then (True, norm)
      else (let q = trim_left_slash (trim_right_slash p) in
        if q = [] then (matchAll, norm) else (matchAll, q # norm)))"

definition hasDotDotComponent :: "string \<Rightarrow> bool" where
  "hasDotDotComponent path = list_ex (\<lambda>c. c = dotdot) (split_on CHR ''/'' path)"

definition pathUnderPrefix :: "string \<Rightarrow> string \<Rightarrow> bool" where
  "pathUnderPrefix path pre = (path = pre \<or> has_prefix path (pre @ ''/''))"

definition NewPrefixDownloadablePolicy :: "string list \<Rightarrow> StoredTagFunc" where
  "NewPrefixDownloadablePolicy prefs fs path =
     (let (matchAll, norm) = norm_prefixes prefs in
      if path = [] then Inr False
      else if path_clean path \<noteq> path \<or> hasDotDotComponent path then Inr False
      else if matchAll then Inr True
      else Inr (list_ex (pathUnderPrefix path) norm))"

definition splitNonEmpty :: "string \<Rightarrow> string list" where
  "splitNonEmpty s = filter (\<lambda>p. p \<noteq> []) (map trim_space (split_on CHR '','' s))"

definition rejectWildcardDownloadable :: "string \<Rightarrow> WorkloadTrustProfile \<Rightarrow> Tenancy \<Rightarrow> bool" where
  "rejectWildcardDownloadable prefs prof ten =
     (if prof \<noteq> ProfileTrustedOperator \<or> ten \<noteq> TenancySingleTenant then False
      else list_ex (\<lambda>tok. tok = ''*'') (splitNonEmpty prefs))"

section \<open>Lemmas\<close>

lemma intentGranted_iff:
  "intentGranted gs intent \<longleftrightarrow> intent \<in> set gs \<or> (intent = IntentRead \<and> IntentWrite \<in> set gs)"
  by (induction gs) auto

lemma intent_neq [simp]:
  "IntentRead \<noteq> IntentWrite" "IntentRead \<noteq> IntentPreview" "IntentWrite \<noteq> IntentPreview"
  "IntentWrite \<noteq> IntentRead" "IntentPreview \<noteq> IntentRead" "IntentPreview \<noteq> IntentWrite"
  by (simp_all add: IntentRead_def IntentWrite_def IntentPreview_def)

lemma join_append: "xs \<noteq> [] \<Longrightarrow> ys \<noteq> [] \<Longrightarrow> join_with sep (xs @ ys) = join_with sep xs @ sep # join_with sep ys"
proof (induction xs)
  case (Cons x xs)
  then show ?case by (cases xs; cases ys) auto
qed simp

text \<open>The prefix test of the policy is a test on whole components.\<close>

lemma pathUnderPrefix_comps: "pathUnderPrefix p q \<longleftrightarrow> prefix (split_on CHR ''/'' q) (split_on CHR ''/'' p)"
proof
  assume "pathUnderPrefix p q"
  then consider "p = q" | t where "p = q @ CHR ''/'' # t" by (auto simp: pathUnderPrefix_def has_prefix_conv)
  then show "prefix (split_on CHR ''/'' q) (split_on CHR ''/'' p)"
    by cases (simp_all add: split_on_append)
next
  assume "prefix (split_on CHR ''/'' q) (split_on CHR ''/'' p)"
  then obtain ts where ts: "split_on CHR ''/'' p = split_on CHR ''/'' q @ ts" by (auto simp: prefix_def)
  show "pathUnderPrefix p q"
  proof (cases "ts = []")
    case True
    then have "split_on CHR ''/'' p = split_on CHR ''/'' q" using ts by simp
    then have "p = q" by (metis join_split)
    then show ?thesis by (simp add: pathUnderPrefix_def)
  next
    case False
    have "p = join_with CHR ''/'' (split_on CHR ''/'' p)" by simp
    also have "\<dots> = q @ CHR ''/'' # join_with CHR ''/'' ts"
      unfolding ts using join_append [OF split_on_not_Nil False] by simp
    finally have "p = (q @ ''/'') @ join_with CHR ''/'' ts" by simp
    then have "has_prefix p (q @ ''/'')" using has_prefix_conv by blast
    then show ?thesis by (simp add: pathUnderPrefix_def)
  qed
qed

lemma norm_prefixes_all: "fst (norm_prefixes ps) \<longleftrightarrow> (\<exists>p\<in>set ps. trim_space p = ''*'')"
proof (induction ps)
  case (Cons p ps)
  obtain m n where "norm_prefixes ps = (m, n)" by fastforce
  with Cons show ?case by (auto simp: Let_def downloadableMatchAll_def)
qed simp

lemma norm_prefixes_set:
  "q \<in> set (snd (norm_prefixes ps)) \<longleftrightarrow>
     q \<noteq> [] \<and> (\<exists>p\<in>set ps. trim_space p \<noteq> ''*'' \<and> q = trim_left_slash (trim_right_slash (trim_space p)))"
proof (induction ps)
  case (Cons p ps)
  obtain m n where "norm_prefixes ps = (m, n)" by fastforce
  moreover have "trim_left_slash (trim_right_slash []) = []" by (simp add: trim_left_slash_def trim_right_slash_def)
  ultimately show ?case using Cons by (auto simp: Let_def downloadableMatchAll_def)
qed simp

text \<open>Trimming white space is idempotent, so the tokens of the flag are compared as the policy
  will see them.\<close>

lemma trim_head_stuck:
  "\<lbrakk>\<forall>r\<in>set rs. r \<noteq> []; length s \<le> n; r \<in> set rs\<rbrakk> \<Longrightarrow> \<not> has_prefix (trim_head n rs s) r"
proof (induction n arbitrary: s)
  case 0
  then show ?case by (auto simp: has_prefix_conv)
next
  case (Suc n)
  show ?case
  proof (cases "find (has_prefix s) rs")
    case None
    then have "\<not> has_prefix s r" using Suc.prems(3) by (simp add: find_None_iff)
    then show ?thesis using None by simp
  next
    case (Some q)
    then have "q \<noteq> []" using Suc.prems by (auto simp: find_Some_iff)
    then have "length (drop (length q) s) \<le> n" using Suc.prems(2) by (cases q) auto
    then show ?thesis using Suc Some by simp
  qed
qed

lemma trim_head_id: "(\<And>r. r \<in> set rs \<Longrightarrow> \<not> has_prefix s r) \<Longrightarrow> trim_head n rs s = s"
  by (cases n) (auto split: option.splits simp: find_Some_iff)

lemma trim_head_drop: "\<exists>k. trim_head n rs s = drop k s"
proof (induction n arbitrary: s)
  case 0
  show ?case by (rule exI [of _ 0]) simp
next
  case (Suc n)
  show ?case
  proof (cases "find (has_prefix s) rs")
    case None
    then show ?thesis by (auto intro: exI [of _ 0])
  next
    case (Some q)
    then show ?thesis using Suc [of "drop (length q) s"] by auto
  qed
qed

lemma space_runes_nonempty: "\<forall>r\<in>set space_runes. r \<noteq> []" "\<forall>r\<in>set (map rev space_runes). r \<noteq> []"
  by (auto simp: space_runes_def)

lemma trim_space_idem [simp]: "trim_space (trim_space s) = trim_space s"
proof -
  define t where "t = trim_head (length s) space_runes s"
  define u where "u = trim_head (length t) (map rev space_runes) (rev t)"
  have ts: "trim_space s = rev u" by (simp add: trim_space_def t_def u_def Let_def)
  obtain k where "u = drop k (rev t)" using trim_head_drop u_def by blast
  then have t: "t = rev u @ drop (length t - k) t" by (simp add: rev_drop)
  have nt: "r \<in> set space_runes \<Longrightarrow> \<not> has_prefix t r" for r
    unfolding t_def using trim_head_stuck [OF space_runes_nonempty(1)] by blast
  have "\<not> has_prefix (rev u) r" if "r \<in> set space_runes" for r
  proof
    assume "has_prefix (rev u) r"
    then obtain z where "rev u = r @ z" by (auto simp: has_prefix_conv)
    then have "t = r @ z @ drop (length t - k) t" using t by simp
    then have "has_prefix t r" using has_prefix_conv by blast
    with nt [OF that] show False by simp
  qed
  then have 1: "trim_head (length (rev u)) space_runes (rev u) = rev u" by (rule trim_head_id)
  have "r \<in> set (map rev space_runes) \<Longrightarrow> \<not> has_prefix u r" for r
    unfolding u_def using trim_head_stuck [OF space_runes_nonempty(2)] by simp
  then have 2: "trim_head (length (rev u)) (map rev space_runes) u = u" by (rule trim_head_id)
  show ?thesis unfolding ts using 1 2 by (simp add: trim_space_def [of "rev u"] Let_def)
qed

text \<open>The white-space runes as literals, for evaluation.\<close>

lemma space_runes_eval [code]: "space_runes =
  [[CHR 0x09], [CHR 0x0A], [CHR 0x0B], [CHR 0x0C], [CHR 0x0D], [CHR 0x20],
   [CHR 0xC2, CHR 0x85], [CHR 0xC2, CHR 0xA0], [CHR 0xE1, CHR 0x9A, CHR 0x80],
   [CHR 0xE2, CHR 0x80, CHR 0xA8], [CHR 0xE2, CHR 0x80, CHR 0xA9], [CHR 0xE2, CHR 0x80, CHR 0xAF],
   [CHR 0xE2, CHR 0x81, CHR 0x9F], [CHR 0xE3, CHR 0x80, CHR 0x80],
   [CHR 0xE2, CHR 0x80, CHR 0x80], [CHR 0xE2, CHR 0x80, CHR 0x81], [CHR 0xE2, CHR 0x80, CHR 0x82],
   [CHR 0xE2, CHR 0x80, CHR 0x83], [CHR 0xE2, CHR 0x80, CHR 0x84], [CHR 0xE2, CHR 0x80, CHR 0x85],
   [CHR 0xE2, CHR 0x80, CHR 0x86], [CHR 0xE2, CHR 0x80, CHR 0x87], [CHR 0xE2, CHR 0x80, CHR 0x88],
   [CHR 0xE2, CHR 0x80, CHR 0x89], [CHR 0xE2, CHR 0x80, CHR 0x8A]]"
  by (simp add: space_runes_def upt_conv_Cons, simp add: char_of_def bit_iff_odd)

lemma splitNonEmpty_trimmed: "tok \<in> set (splitNonEmpty s) \<Longrightarrow> trim_space tok = tok"
  by (auto simp: splitNonEmpty_def)

text \<open>When a read may leave the deployment.\<close>

lemma resolve_downloadable:
  "Resolve (NewPrefixDownloadablePolicy ps) (Evidence ev) req = Inr \<lparr>gr_Downloadable = True\<rparr> \<longleftrightarrow>
     ev_Scope ev \<noteq> [] \<and> rq_Filesystem req = ev_Scope ev \<and> rq_Intent req = IntentRead \<and>
     (IntentRead \<in> set (ev_GrantedIntents ev) \<or> IntentWrite \<in> set (ev_GrantedIntents ev)) \<and>
     path_clean (rq_Path req) = rq_Path req \<and> dotdot \<notin> set (split_on CHR ''/'' (rq_Path req)) \<and>
     ((\<exists>p\<in>set ps. trim_space p = ''*'') \<or>
      (\<exists>p\<in>set ps. trim_space p \<noteq> ''*'' \<and> trim_left_slash (trim_right_slash (trim_space p)) \<noteq> [] \<and>
         prefix (split_on CHR ''/'' (trim_left_slash (trim_right_slash (trim_space p)))) (split_on CHR ''/'' (rq_Path req))))"
proof -
  obtain m n where mn: "norm_prefixes ps = (m, n)" by fastforce
  have m: "m \<longleftrightarrow> (\<exists>p\<in>set ps. trim_space p = ''*'')" using norm_prefixes_all [of ps] mn by simp
  have n: "list_ex (pathUnderPrefix path) n \<longleftrightarrow> (\<exists>p\<in>set ps. trim_space p \<noteq> ''*'' \<and>
      trim_left_slash (trim_right_slash (trim_space p)) \<noteq> [] \<and>
      prefix (split_on CHR ''/'' (trim_left_slash (trim_right_slash (trim_space p)))) (split_on CHR ''/'' path))" for path
    using norm_prefixes_set [of _ ps] mn unfolding list_ex_iff pathUnderPrefix_comps by auto
  have ne: "path_clean [] \<noteq> []" by simp
  have "NewPrefixDownloadablePolicy ps fs path = Inr True \<longleftrightarrow>
      path_clean path = path \<and> dotdot \<notin> set (split_on CHR ''/'' path) \<and> (m \<or> list_ex (pathUnderPrefix path) n)" for fs path
    using ne by (auto simp: NewPrefixDownloadablePolicy_def mn hasDotDotComponent_def list_ex_iff)
  from this [of "ev_Scope ev" "rq_Path req"] show ?thesis unfolding m [symmetric] n [symmetric]
    by (cases "NewPrefixDownloadablePolicy ps (ev_Scope ev) (rq_Path req)")
       (auto simp: Resolve_def intentGranted_iff split: if_splits)
qed


section \<open>Properties\<close>

text \<open>
  C28. A request is granted as downloadable exactly when it is an authorised read of a canonical
  path without dot-dot components that lies, component by component, under one of the
  configured prefixes, or when the operator configured the whole-scope token; preview and
  write are never downloadable.
\<close>

theorem downloadable_exact:
  "Resolve (NewPrefixDownloadablePolicy ps) (Evidence ev) req = Inr \<lparr>gr_Downloadable = True\<rparr> \<longleftrightarrow>
     ev_Scope ev \<noteq> [] \<and> rq_Filesystem req = ev_Scope ev \<and> rq_Intent req = IntentRead \<and>
     (IntentRead \<in> set (ev_GrantedIntents ev) \<or> IntentWrite \<in> set (ev_GrantedIntents ev)) \<and>
     path_clean (rq_Path req) = rq_Path req \<and> dotdot \<notin> set (split_on CHR ''/'' (rq_Path req)) \<and>
     ((\<exists>p\<in>set ps. trim_space p = ''*'') \<or>
      (\<exists>p\<in>set ps. trim_space p \<noteq> ''*'' \<and> trim_left_slash (trim_right_slash (trim_space p)) \<noteq> [] \<and>
         prefix (split_on CHR ''/'' (trim_left_slash (trim_right_slash (trim_space p)))) (split_on CHR ''/'' (rq_Path req))))"
  by (rule resolve_downloadable)

text \<open>
  The exfiltration bar: in a broker that passed the startup checks (the wildcard bar on the
  raw prefix flag, then admission of the broker mode) no read is ever granted as downloadable
  unless its path lies, component by component, under a prefix the operator listed by name;
  a whole-scope token anywhere in the flag, with any white space around it, keeps the broker
  from starting.
\<close>

lemma booted_no_wildcard:
  assumes "\<not> rejectWildcardDownloadable flag prof ten"
    and "AdmitBrokerMode prof ten = None"
    and "Resolve (NewPrefixDownloadablePolicy (splitNonEmpty flag)) (Evidence ev) req = Inr \<lparr>gr_Downloadable = True\<rparr>"
  shows "''*'' \<notin> set (splitNonEmpty flag) \<and>
    (\<exists>p\<in>set (splitNonEmpty flag). trim_left_slash (trim_right_slash p) \<noteq> [] \<and>
       prefix (split_on CHR ''/'' (trim_left_slash (trim_right_slash p))) (split_on CHR ''/'' (rq_Path req)))"
proof -
  have no: "''*'' \<notin> set (splitNonEmpty flag)"
    using assms(1,2) by (auto simp: rejectWildcardDownloadable_def AdmitBrokerMode_def brokerModeOKSet_def list_ex_iff split: if_splits)
  then have "trim_space p \<noteq> ''*''" if "p \<in> set (splitNonEmpty flag)" for p
    using that splitNonEmpty_trimmed by metis
  then show ?thesis using no assms(3) splitNonEmpty_trimmed unfolding resolve_downloadable by fastforce
qed

end
