(* ===== verification/Ceilings.thy ===== *)
theory Ceilings
  imports Prelude Complex_Main
begin

text \<open>
  Per-session resource ceilings (\<open>src/internal/ceilings/ceilings.go\<close>): the declared-size
  check, the token bucket for the operation rate, the gauge of in-flight bytes, the
  descriptor count, and the registry that hands out one session per key. Byte counts are
  64-bit and descriptor counts 32-bit words; the token arithmetic, \<open>float64\<close> in the code, is
  exact rational arithmetic here; an instant is a number of nanoseconds after the zero
  \<open>time.Time\<close>, so that \<open>IsZero\<close> is comparison with 0. A panic is an error value. The
  properties bound what a session can hold and how often it can act.
\<close>

section \<open>Definitions\<close>

datatype ceil_err =
    ErrSizeExceeded
  | ErrThrottleExceeded
  | ErrBytesExceeded
  | ErrFDExceeded
  | CeilPanic

definition CheckDeclaredSize :: "i64 \<Rightarrow> i64 \<Rightarrow> ceil_err option" where
  "CheckDeclaredSize declared maxsize =
     (if sint declared > sint maxsize then Some ErrSizeExceeded else None)"

record TokenBucket =
  tb_tokens :: rat
  tb_burst :: rat
  tb_rate :: rat
  tb_lastAt :: int

definition NewTokenBucket :: "rat \<Rightarrow> rat \<Rightarrow> TokenBucket" where
  "NewTokenBucket ratePerS burst =
     \<lparr>tb_tokens = burst, tb_burst = burst, tb_rate = ratePerS, tb_lastAt = 0\<rparr>"

definition seconds :: "int \<Rightarrow> rat" where
  "seconds d = of_int d / 1000000000"

definition refill :: "int \<Rightarrow> TokenBucket \<Rightarrow> rat" where
  "refill now b =
     (if tb_lastAt b \<noteq> 0 \<and> seconds (now - tb_lastAt b) > 0 then
        (let t = tb_tokens b + seconds (now - tb_lastAt b) * tb_rate b in
         if t > tb_burst b then tb_burst b else t)
      else tb_tokens b)"

definition TryConsume :: "int \<Rightarrow> TokenBucket \<Rightarrow> ceil_err option \<times> TokenBucket" where
  "TryConsume now b =
     (let t = refill now b; b1 = b\<lparr>tb_tokens := t, tb_lastAt := now\<rparr> in
      if t < 1 then (Some ErrThrottleExceeded, b1) else (None, b1\<lparr>tb_tokens := t - 1\<rparr>))"

record ByteGauge =
  bg_current :: i64
  bg_ceiling :: i64

definition gauge_AcquireBytes :: "i64 \<Rightarrow> ByteGauge \<Rightarrow> ceil_err option \<times> ByteGauge" where
  "gauge_AcquireBytes n g =
     (if sint n < 0 \<or> sint n > sint (bg_ceiling g - bg_current g) then (Some ErrBytesExceeded, g)
      else (None, g\<lparr>bg_current := bg_current g + n\<rparr>))"

definition gauge_ReleaseBytes :: "i64 \<Rightarrow> ByteGauge \<Rightarrow> ceil_err option \<times> ByteGauge" where
  "gauge_ReleaseBytes n g =
     (if sint n > sint (bg_current g) then (Some CeilPanic, g)
      else (None, g\<lparr>bg_current := bg_current g - n\<rparr>))"

definition DefaultInFlightBytesCeiling :: i64 where
  "DefaultInFlightBytesCeiling = 2 ^ 31"

definition DefaultFDCeiling :: i32 where
  "DefaultFDCeiling = 256"

record Config =
  cf_OpsPerSecond :: rat
  cf_OpsBurst :: rat
  cf_InFlightBytesCeiling :: i64
  cf_FDCeiling :: i32
  cf_has_clock :: bool
  cf_nonEnforcing :: bool

record Session =
  ss_bucket :: TokenBucket
  ss_gauge :: ByteGauge
  ss_fdCount :: i32
  ss_fdCeiling :: i32
  ss_nonEnforcing :: bool

definition newSession :: "Config \<Rightarrow> Session" where
  "newSession cfg =
     \<lparr>ss_bucket = NewTokenBucket (cf_OpsPerSecond cfg) (cf_OpsBurst cfg),
      ss_gauge = \<lparr>bg_current = 0, bg_ceiling = cf_InFlightBytesCeiling cfg\<rparr>,
      ss_fdCount = 0, ss_fdCeiling = cf_FDCeiling cfg, ss_nonEnforcing = cf_nonEnforcing cfg\<rparr>"

text \<open>The reading of the session's clock is an argument of the operation.\<close>

definition TryConsumeOp :: "int \<Rightarrow> Session \<Rightarrow> ceil_err option \<times> Session" where
  "TryConsumeOp now s =
     (if ss_nonEnforcing s then (None, s)
      else (let (r, b) = TryConsume now (ss_bucket s) in (r, s\<lparr>ss_bucket := b\<rparr>)))"

definition AcquireBytes :: "i64 \<Rightarrow> Session \<Rightarrow> ceil_err option \<times> Session" where
  "AcquireBytes n s =
     (if ss_nonEnforcing s then (None, s)
      else (let (r, g) = gauge_AcquireBytes n (ss_gauge s) in (r, s\<lparr>ss_gauge := g\<rparr>)))"

definition ReleaseBytes :: "i64 \<Rightarrow> Session \<Rightarrow> ceil_err option \<times> Session" where
  "ReleaseBytes n s =
     (if ss_nonEnforcing s then (None, s)
      else (let (r, g) = gauge_ReleaseBytes n (ss_gauge s) in (r, s\<lparr>ss_gauge := g\<rparr>)))"

definition TryAcquireFD :: "Session \<Rightarrow> ceil_err option \<times> Session" where
  "TryAcquireFD s =
     (if ss_nonEnforcing s then (None, s)
      else if sint (ss_fdCount s) \<ge> sint (ss_fdCeiling s) then (Some ErrFDExceeded, s)
      else (None, s\<lparr>ss_fdCount := ss_fdCount s + 1\<rparr>))"

definition ReleaseFD :: "Session \<Rightarrow> ceil_err option \<times> Session" where
  "ReleaseFD s =
     (if ss_nonEnforcing s then (None, s)
      else if ss_fdCount s = 0 then (Some CeilPanic, s)
      else (None, s\<lparr>ss_fdCount := ss_fdCount s - 1\<rparr>))"

text \<open>
  The registry maps a key to a session object; callers keep the object they were given, also
  after the key is released. An object is an index into \<open>rg_heap\<close>, which only grows.
\<close>

record Registry =
  rg_sessions :: "(string \<times> nat) list"
  rg_heap :: "Session list"
  rg_cfg :: Config

definition NewRegistry :: "Config \<Rightarrow> (ceil_err, Registry) res" where
  "NewRegistry cfg =
     (if \<not> cf_has_clock cfg then Inl CeilPanic
      else if \<not> cf_nonEnforcing cfg \<and>
        (cf_OpsPerSecond cfg \<le> 0 \<or> cf_OpsBurst cfg < 1 \<or> sint (cf_InFlightBytesCeiling cfg) < 0 \<or> sint (cf_FDCeiling cfg) < 0)
      then Inl CeilPanic
      else Inr \<lparr>rg_sessions = [], rg_heap = [], rg_cfg = cfg\<rparr>)"

definition reg_Session :: "string \<Rightarrow> Registry \<Rightarrow> nat \<times> Registry" where
  "reg_Session key r =
     (case map_of (rg_sessions r) key of
        Some i \<Rightarrow> (i, r)
      | None \<Rightarrow>
          (length (rg_heap r),
           r\<lparr>rg_heap := rg_heap r @ [newSession (rg_cfg r)],
             rg_sessions := (key, length (rg_heap r)) # rg_sessions r\<rparr>))"

definition reg_Release :: "string \<Rightarrow> Registry \<Rightarrow> Registry" where
  "reg_Release key r = r\<lparr>rg_sessions := filter (\<lambda>(k, _). k \<noteq> key) (rg_sessions r)\<rparr>"

definition on_session :: "nat \<Rightarrow> (Session \<Rightarrow> ceil_err option \<times> Session) \<Rightarrow> Registry \<Rightarrow> ceil_err option \<times> Registry" where
  "on_session i f r =
     (if i < length (rg_heap r)
      then (let (e, s) = f (rg_heap r ! i) in (e, r\<lparr>rg_heap := (rg_heap r)[i := s]\<rparr>))
      else (Some CeilPanic, r))"

definition NewNopRegistry :: "(ceil_err, Registry) res" where
  "NewNopRegistry = NewRegistry
     \<lparr>cf_OpsPerSecond = 0, cf_OpsBurst = 0, cf_InFlightBytesCeiling = 0, cf_FDCeiling = 0,
      cf_has_clock = True, cf_nonEnforcing = True\<rparr>"

record SizeLimits =
  RPCMessageCeilingBytes :: i64
  ReadChunkDefaultBytes :: i64
  VFSCacheMaxSizeBytes :: i64
  BrokerMaxFileSizeBytes :: i64

definition DefaultSizeLimits :: SizeLimits where
  "DefaultSizeLimits =
     \<lparr>RPCMessageCeilingBytes = 4194304, ReadChunkDefaultBytes = 134217728,
      VFSCacheMaxSizeBytes = 1073741824, BrokerMaxFileSizeBytes = 0\<rparr>"

section \<open>Signed words\<close>

lemma sint_add_fits:
  fixes a b :: "'a::len word"
  assumes "- (2 ^ (LENGTH('a) - 1)) \<le> sint a + sint b" "sint a + sint b < 2 ^ (LENGTH('a) - 1)"
  shows "sint (a + b) = sint a + sint b"
  unfolding sint_word_ariths(1) using assms by (simp add: signed_take_bit_int_eq_self)

lemma sint_diff_fits:
  fixes a b :: "'a::len word"
  assumes "- (2 ^ (LENGTH('a) - 1)) \<le> sint a - sint b" "sint a - sint b < 2 ^ (LENGTH('a) - 1)"
  shows "sint (a - b) = sint a - sint b"
  unfolding sint_word_ariths(2) using assms by (simp add: signed_take_bit_int_eq_self)

lemma sint_range:
  fixes a :: "'a::len word"
  shows "- (2 ^ (LENGTH('a) - 1)) \<le> sint a" "sint a < 2 ^ (LENGTH('a) - 1)"
  using sint_ge [of a] sint_lt [of a] by simp_all

section \<open>Rate\<close>

definition bucket_ok :: "TokenBucket \<Rightarrow> bool" where
  "bucket_ok b \<longleftrightarrow> 0 \<le> tb_tokens b \<and> tb_tokens b \<le> tb_burst b \<and> 0 \<le> tb_rate b"

fun admitted :: "TokenBucket \<Rightarrow> int list \<Rightarrow> nat" where
  "admitted b [] = 0"
| "admitted b (t # ts) =
     (case TryConsume t b of (e, b1) \<Rightarrow> (if e = None then Suc (admitted b1 ts) else admitted b1 ts))"

lemma seconds_mono: "0 \<le> d \<Longrightarrow> 0 \<le> seconds d"
  by (simp add: seconds_def)

lemma seconds_add: "seconds (a + b) = seconds a + seconds b"
  by (simp add: seconds_def add_divide_distrib)

lemma refill_bounds:
  assumes "bucket_ok b"
  shows "0 \<le> refill now b" "refill now b \<le> tb_burst b"
    "tb_lastAt b \<le> now \<Longrightarrow> tb_lastAt b \<noteq> 0 \<Longrightarrow> refill now b \<le> tb_tokens b + tb_rate b * seconds (now - tb_lastAt b)"
proof -
  have pos: "0 < seconds (now - tb_lastAt b) \<Longrightarrow> 0 \<le> seconds (now - tb_lastAt b) * tb_rate b"
    using assms by (simp add: bucket_ok_def)
  show "0 \<le> refill now b" "refill now b \<le> tb_burst b"
    using assms pos by (auto simp: refill_def bucket_ok_def Let_def)
  show "refill now b \<le> tb_tokens b + tb_rate b * seconds (now - tb_lastAt b)" if "tb_lastAt b \<le> now" "tb_lastAt b \<noteq> 0"
  proof -
    have "0 \<le> seconds (now - tb_lastAt b)" using that by (intro seconds_mono) simp
    moreover from this have "0 \<le> tb_rate b * seconds (now - tb_lastAt b)" using assms by (simp add: bucket_ok_def)
    ultimately show ?thesis using that by (auto simp: refill_def Let_def mult.commute)
  qed
qed

lemma TryConsume_ok:
  assumes "bucket_ok b" "TryConsume now b = (e, b1)"
  shows "bucket_ok b1" "tb_lastAt b1 = now" "tb_burst b1 = tb_burst b" "tb_rate b1 = tb_rate b"
    "tb_tokens b1 = refill now b - (if e = None then 1 else 0)"
  using refill_bounds(1,2) [OF assms(1), of now] assms
  by (auto simp: TryConsume_def bucket_ok_def Let_def split: if_splits)

lemma admitted_bound:
  "bucket_ok b \<Longrightarrow> sorted (tb_lastAt b # ts) \<Longrightarrow> 0 < tb_lastAt b \<Longrightarrow>
   of_nat (admitted b ts) \<le> tb_tokens b + tb_rate b * seconds (last (tb_lastAt b # ts) - tb_lastAt b)"
proof (induction ts arbitrary: b)
  case Nil
  then show ?case by (simp add: bucket_ok_def seconds_def)
next
  case (Cons t ts)
  obtain e b1 where c: "TryConsume t b = (e, b1)" by fastforce
  note ok = TryConsume_ok [OF Cons.prems(1) c]
  have le: "tb_lastAt b \<le> t" using Cons.prems(2) by simp
  have "of_nat (admitted b1 ts) \<le> tb_tokens b1 + tb_rate b1 * seconds (last (t # ts) - t)"
    using Cons.IH [OF ok(1)] Cons.prems(2,3) ok(2) by auto
  moreover have "of_nat (admitted b (t # ts)) = (if e = None then 1 else 0) + (of_nat (admitted b1 ts) :: rat)"
    using c by simp
  moreover have "refill t b \<le> tb_tokens b + tb_rate b * seconds (t - tb_lastAt b)"
    using refill_bounds(3) [OF Cons.prems(1)] le Cons.prems(3) by simp
  moreover have "seconds (last (tb_lastAt b # t # ts) - tb_lastAt b) = seconds (last (t # ts) - t) + seconds (t - tb_lastAt b)"
    using seconds_add [of "last (t # ts) - t" "t - tb_lastAt b"] by simp
  ultimately show ?case using ok(3-5) by (simp add: distrib_left)
qed




section \<open>What a session holds\<close>

datatype sess_op =
    DoConsume int
  | DoAcquire i64
  | DoRelease i64
  | DoAcquireFD
  | DoReleaseFD

definition sess_step :: "sess_op \<Rightarrow> Session \<Rightarrow> ceil_err option \<times> Session" where
  "sess_step op s =
     (case op of
        DoConsume now \<Rightarrow> TryConsumeOp now s
      | DoAcquire n \<Rightarrow> AcquireBytes n s
      | DoRelease n \<Rightarrow> ReleaseBytes n s
      | DoAcquireFD \<Rightarrow> TryAcquireFD s
      | DoReleaseFD \<Rightarrow> ReleaseFD s)"

text \<open>
  The ledger of a run: the bytes and descriptors granted minus those given back, over the
  operations that succeeded.
\<close>

definition ledger_bytes :: "sess_op \<Rightarrow> ceil_err option \<Rightarrow> int" where
  "ledger_bytes op e =
     (case op of DoAcquire n \<Rightarrow> (if e = None then sint n else 0) | DoRelease n \<Rightarrow> (if e = None then - sint n else 0) | _ \<Rightarrow> 0)"

definition ledger_fds :: "sess_op \<Rightarrow> ceil_err option \<Rightarrow> int" where
  "ledger_fds op e =
     (case op of DoAcquireFD \<Rightarrow> (if e = None then 1 else 0) | DoReleaseFD \<Rightarrow> (if e = None then - 1 else 0) | _ \<Rightarrow> 0)"

fun sess_run :: "sess_op list \<Rightarrow> Session \<Rightarrow> int \<times> int \<times> Session" where
  "sess_run [] s = (0, 0, s)"
| "sess_run (op # ops) s =
     (case sess_step op s of (e, s1) \<Rightarrow>
        (case sess_run ops s1 of (b, f, s2) \<Rightarrow> (ledger_bytes op e + b, ledger_fds op e + f, s2)))"

definition session_ok :: "Session \<Rightarrow> bool" where
  "session_ok s \<longleftrightarrow> \<not> ss_nonEnforcing s \<and> bucket_ok (ss_bucket s) \<and>
     0 \<le> sint (bg_current (ss_gauge s)) \<and> sint (bg_current (ss_gauge s)) \<le> sint (bg_ceiling (ss_gauge s)) \<and>
     0 \<le> sint (ss_fdCount s) \<and> sint (ss_fdCount s) \<le> sint (ss_fdCeiling s)"

definition release_nonneg :: "sess_op \<Rightarrow> bool" where
  "release_nonneg op = (case op of DoRelease n \<Rightarrow> 0 \<le> sint n | _ \<Rightarrow> True)"

definition limits :: "Session \<Rightarrow> i64 \<times> i32" where
  "limits s = (bg_ceiling (ss_gauge s), ss_fdCeiling s)"

lemma gauge_acquire_step:
  assumes "0 \<le> sint (bg_current g)" "sint (bg_current g) \<le> sint (bg_ceiling g)" "gauge_AcquireBytes n g = (e, g1)"
  shows "bg_ceiling g1 = bg_ceiling g" "0 \<le> sint (bg_current g1)" "sint (bg_current g1) \<le> sint (bg_ceiling g1)"
    "sint (bg_current g1) = sint (bg_current g) + (if e = None then sint n else 0)"
proof -
  have room: "sint (bg_ceiling g - bg_current g) = sint (bg_ceiling g) - sint (bg_current g)"
    using assms(1,2) sint_range [of "bg_ceiling g"] by (intro sint_diff_fits) simp_all
  show "bg_ceiling g1 = bg_ceiling g" using assms(3) by (auto simp: gauge_AcquireBytes_def split: if_splits)
  show sum: "sint (bg_current g1) = sint (bg_current g) + (if e = None then sint n else 0)"
  proof (cases "sint n < 0 \<or> sint n > sint (bg_ceiling g - bg_current g)")
    case True
    with assms(3) show ?thesis by (auto simp: gauge_AcquireBytes_def)
  next
    case False
    with room have "sint (bg_current g + n) = sint (bg_current g) + sint n"
      using assms(1) sint_range [of "bg_ceiling g"] by (intro sint_add_fits) simp_all
    with False assms(3) show ?thesis by (auto simp: gauge_AcquireBytes_def)
  qed
  show "0 \<le> sint (bg_current g1)" "sint (bg_current g1) \<le> sint (bg_ceiling g1)"
    using sum room assms by (auto simp: gauge_AcquireBytes_def split: if_splits)
qed

lemma gauge_release_step:
  assumes "0 \<le> sint (bg_current g)" "sint (bg_current g) \<le> sint (bg_ceiling g)" "0 \<le> sint n" "gauge_ReleaseBytes n g = (e, g1)"
  shows "bg_ceiling g1 = bg_ceiling g" "0 \<le> sint (bg_current g1)" "sint (bg_current g1) \<le> sint (bg_ceiling g1)"
    "sint (bg_current g1) = sint (bg_current g) - (if e = None then sint n else 0)"
proof -
  show "bg_ceiling g1 = bg_ceiling g" using assms(4) by (auto simp: gauge_ReleaseBytes_def split: if_splits)
  show sum: "sint (bg_current g1) = sint (bg_current g) - (if e = None then sint n else 0)"
  proof (cases "sint n > sint (bg_current g)")
    case True
    with assms(4) show ?thesis by (auto simp: gauge_ReleaseBytes_def)
  next
    case False
    then have "sint (bg_current g - n) = sint (bg_current g) - sint n"
      using assms(3) sint_range [of "bg_current g"] by (intro sint_diff_fits) simp_all
    with False assms(4) show ?thesis by (auto simp: gauge_ReleaseBytes_def)
  qed
  show "0 \<le> sint (bg_current g1)" "sint (bg_current g1) \<le> sint (bg_ceiling g1)"
    using sum assms by (auto simp: gauge_ReleaseBytes_def split: if_splits)
qed

lemma sint_word_one: "sint (1 :: i32) = 1"
  by simp

lemma sess_step_ok:
  assumes "session_ok s" "release_nonneg op" "sess_step op s = (e, s1)"
  shows "session_ok s1 \<and> limits s1 = limits s \<and>
    sint (bg_current (ss_gauge s1)) = sint (bg_current (ss_gauge s)) + ledger_bytes op e \<and>
    sint (ss_fdCount s1) = sint (ss_fdCount s) + ledger_fds op e"
proof (cases op)
  case (DoConsume now)
  obtain e' b where c: "TryConsume now (ss_bucket s) = (e', b)" by fastforce
  have "bucket_ok b" using TryConsume_ok(1) c assms(1) by (auto simp: session_ok_def)
  with DoConsume assms c show ?thesis
    by (auto simp: sess_step_def TryConsumeOp_def session_ok_def limits_def ledger_bytes_def ledger_fds_def)
next
  case (DoAcquire n)
  obtain e' g where c: "gauge_AcquireBytes n (ss_gauge s) = (e', g)" by fastforce
  have "e = e'" "s1 = s\<lparr>ss_gauge := g\<rparr>" using assms DoAcquire c by (auto simp: sess_step_def AcquireBytes_def session_ok_def)
  with gauge_acquire_step [OF _ _ c] assms(1) DoAcquire show ?thesis
    by (simp add: session_ok_def limits_def ledger_bytes_def ledger_fds_def)
next
  case (DoRelease n)
  obtain e' g where c: "gauge_ReleaseBytes n (ss_gauge s) = (e', g)" by fastforce
  have "e = e'" "s1 = s\<lparr>ss_gauge := g\<rparr>" using assms DoRelease c by (auto simp: sess_step_def ReleaseBytes_def session_ok_def)
  with gauge_release_step [OF _ _ _ c] assms(1,2) DoRelease show ?thesis
    by (simp add: session_ok_def limits_def ledger_bytes_def ledger_fds_def release_nonneg_def)
next
  case DoAcquireFD
  show ?thesis
  proof (cases "sint (ss_fdCount s) \<ge> sint (ss_fdCeiling s)")
    case True
    with DoAcquireFD assms show ?thesis
      by (auto simp: sess_step_def TryAcquireFD_def session_ok_def limits_def ledger_bytes_def ledger_fds_def)
  next
    case False
    then have "sint (ss_fdCount s + 1) = sint (ss_fdCount s) + sint (1 :: i32)"
      using assms(1) sint_range [of "ss_fdCeiling s"] by (intro sint_add_fits) (simp_all add: session_ok_def)
    with False DoAcquireFD assms show ?thesis
      by (auto simp: sess_step_def TryAcquireFD_def session_ok_def limits_def ledger_bytes_def ledger_fds_def)
  qed
next
  case DoReleaseFD
  show ?thesis
  proof (cases "ss_fdCount s = 0")
    case True
    with DoReleaseFD assms show ?thesis
      by (auto simp: sess_step_def ReleaseFD_def session_ok_def limits_def ledger_bytes_def ledger_fds_def)
  next
    case False
    then have "sint (ss_fdCount s) \<noteq> 0" by (metis signed_0 signed_word_eqI)
    then have pos: "1 \<le> sint (ss_fdCount s)" using assms(1) by (simp add: session_ok_def)
    then have "sint (ss_fdCount s - 1) = sint (ss_fdCount s) - sint (1 :: i32)"
      using sint_range [of "ss_fdCount s"] by (intro sint_diff_fits) simp_all
    with False pos DoReleaseFD assms show ?thesis
      by (auto simp: sess_step_def ReleaseFD_def session_ok_def limits_def ledger_bytes_def ledger_fds_def)
  qed
qed

lemma sess_run_ok:
  "session_ok s \<Longrightarrow> list_all release_nonneg ops \<Longrightarrow> sess_run ops s = (b, f, s') \<Longrightarrow>
   session_ok s' \<and> limits s' = limits s \<and>
   sint (bg_current (ss_gauge s')) = sint (bg_current (ss_gauge s)) + b \<and> sint (ss_fdCount s') = sint (ss_fdCount s) + f"
proof (induction ops arbitrary: s b f)
  case (Cons op ops)
  obtain e s1 where st: "sess_step op s = (e, s1)" by fastforce
  obtain b2 f2 s2 where r: "sess_run ops s1 = (b2, f2, s2)" using prod_cases3 by blast
  have st1: "session_ok s1 \<and> limits s1 = limits s \<and>
    sint (bg_current (ss_gauge s1)) = sint (bg_current (ss_gauge s)) + ledger_bytes op e \<and>
    sint (ss_fdCount s1) = sint (ss_fdCount s) + ledger_fds op e"
    using sess_step_ok [OF Cons.prems(1) _ st] Cons.prems(2) by simp
  have out: "b = ledger_bytes op e + b2" "f = ledger_fds op e + f2" "s2 = s'" using Cons.prems(3) st r by auto
  have "list_all release_nonneg ops" using Cons.prems(2) by simp
  from Cons.IH [OF _ this r [unfolded out(3)]] st1 out show ?case by auto
qed simp

text \<open>
  C31. A session of an enforcing registry never holds more than its ceilings, for every run of
  operations in every order: the in-flight bytes are exactly the bytes granted minus the
  bytes given back and lie between 0 and the ceiling, and the same holds for descriptors; no
  counter ever wraps around.
\<close>

theorem session_bounds:
  assumes "NewRegistry cfg = Inr r" "\<not> cf_nonEnforcing cfg" "list_all release_nonneg ops"
    "sess_run ops (newSession cfg) = (bytes, fds, s)"
  shows "sint (bg_current (ss_gauge s)) = bytes \<and> 0 \<le> bytes \<and> bytes \<le> sint (cf_InFlightBytesCeiling cfg) \<and>
    sint (ss_fdCount s) = fds \<and> 0 \<le> fds \<and> fds \<le> sint (cf_FDCeiling cfg)"
proof -
  have c: "0 < cf_OpsPerSecond cfg" "1 \<le> cf_OpsBurst cfg" "0 \<le> sint (cf_InFlightBytesCeiling cfg)" "0 \<le> sint (cf_FDCeiling cfg)"
    using assms(1,2) by (auto simp: NewRegistry_def split: if_splits)
  then have "session_ok (newSession cfg)"
    using assms(2) by (simp add: session_ok_def newSession_def bucket_ok_def NewTokenBucket_def)
  from sess_run_ok [OF this assms(3,4)] show ?thesis
    by (auto simp: session_ok_def limits_def newSession_def)
qed

definition sample_config :: Config where
  "sample_config = \<lparr>cf_OpsPerSecond = 10, cf_OpsBurst = 5, cf_InFlightBytesCeiling = 100, cf_FDCeiling = 1,
     cf_has_clock = True, cf_nonEnforcing = False\<rparr>"

theorem session_bounds_witness:
  "\<exists>s. sess_run [DoAcquire 70, DoAcquire 70, DoAcquireFD, DoAcquireFD, DoRelease 20] (newSession sample_config) = (50, 1, s) \<and>
     sint (bg_current (ss_gauge s)) = 50 \<and> (50::int) \<le> sint (cf_InFlightBytesCeiling sample_config)"
proof -
  obtain r where r: "NewRegistry sample_config = Inr r" by (simp add: NewRegistry_def sample_config_def)
  let ?ops = "[DoAcquire 70, DoAcquire 70, DoAcquireFD, DoAcquireFD, DoRelease 20]"
  obtain s where s: "sess_run ?ops (newSession sample_config) = (50, 1, s)"
    by (simp add: sess_step_def newSession_def sample_config_def AcquireBytes_def gauge_AcquireBytes_def TryAcquireFD_def
      ReleaseBytes_def gauge_ReleaseBytes_def ledger_bytes_def ledger_fds_def)
  have "\<not> cf_nonEnforcing sample_config" "list_all release_nonneg ?ops"
    by (simp_all add: sample_config_def release_nonneg_def)
  from session_bounds [OF r this s] s show ?thesis by auto
qed

section \<open>Registry\<close>

definition reg_wf :: "Registry \<Rightarrow> bool" where
  "reg_wf r \<longleftrightarrow> distinct (map fst (rg_sessions r)) \<and> distinct (map snd (rg_sessions r)) \<and>
     (\<forall>i\<in>set (map snd (rg_sessions r)). i < length (rg_heap r))"

definition session_of :: "Registry \<Rightarrow> string \<Rightarrow> Session option" where
  "session_of r key = map_option (\<lambda>i. rg_heap r ! i) (map_of (rg_sessions r) key)"

lemma map_of_distinct_snd:
  "distinct (map snd xs) \<Longrightarrow> map_of xs a = Some i \<Longrightarrow> map_of xs b = Some i \<Longrightarrow> a = b"
proof (induction xs)
  case (Cons x xs)
  have "map_of xs c = Some i \<Longrightarrow> i \<in> set (map snd xs)" for c by (auto dest: map_of_SomeD intro: rev_image_eqI)
  with Cons show ?case by (cases x) (auto split: if_splits)
qed simp

lemma map_of_index: "reg_wf r \<Longrightarrow> map_of (rg_sessions r) k = Some i \<Longrightarrow> i < length (rg_heap r)"
  unfolding reg_wf_def by (auto dest!: map_of_SomeD)

text \<open>
  Sessions of different keys are independent. Looking a session up creates at most that
  key's session, releasing a key forgets at most that key, and an operation on the session
  object of one key leaves the session of every other key untouched; the registry keeps one
  object per key throughout.
\<close>

lemma registry_isolation:
  assumes "reg_wf r" "k' \<noteq> k"
  shows "reg_wf (snd (reg_Session k r)) \<and> reg_wf (reg_Release k r) \<and>
    session_of (snd (reg_Session k r)) k' = session_of r k' \<and> session_of (reg_Release k r) k' = session_of r k' \<and>
    (case reg_Session k r of (i, r1) \<Rightarrow> reg_wf (snd (on_session i f r1)) \<and>
       session_of (snd (on_session i f r1)) k' = session_of r k' \<and>
       session_of (snd (on_session i f r1)) k = map_option (\<lambda>s. snd (f s)) (session_of r1 k))"
proof -
  obtain i r1 where s: "reg_Session k r = (i, r1)" by fastforce
  have wf1: "reg_wf r1" and own: "map_of (rg_sessions r1) k = Some i" and other: "session_of r1 k' = session_of r k'"
  proof -
    show "reg_wf r1"
    proof (cases "map_of (rg_sessions r) k")
      case None
      then have "k \<notin> set (map fst (rg_sessions r))" by (simp add: map_of_eq_None_iff)
      moreover have "length (rg_heap r) \<notin> set (map snd (rg_sessions r))" using assms(1) unfolding reg_wf_def by blast
      moreover have "\<forall>j\<in>set (map snd (rg_sessions r)). j < Suc (length (rg_heap r))"
        using assms(1) less_SucI unfolding reg_wf_def by blast
      moreover have "rg_sessions r1 = (k, length (rg_heap r)) # rg_sessions r" "length (rg_heap r1) = Suc (length (rg_heap r))"
        using s None by (auto simp: reg_Session_def)
      ultimately show ?thesis using assms(1) unfolding reg_wf_def by simp
    next
      case (Some j)
      with s assms(1) show ?thesis by (simp add: reg_Session_def)
    qed
    show "map_of (rg_sessions r1) k = Some i"
      using s by (auto simp: reg_Session_def split: option.splits)
    have "map_of (rg_sessions r) k' = Some j \<Longrightarrow> j < length (rg_heap r)" for j by (rule map_of_index [OF assms(1)])
    then show "session_of r1 k' = session_of r k'"
      using s assms(2) by (auto simp: reg_Session_def session_of_def nth_append split: option.splits)
        (cases "map_of (rg_sessions r) k'"; simp)+
  qed
  have i: "i < length (rg_heap r1)" by (rule map_of_index [OF wf1 own])
  have rel: "reg_wf (reg_Release k r)" "session_of (reg_Release k r) k' = session_of r k'"
  proof -
    show "reg_wf (reg_Release k r)" using assms(1) unfolding reg_wf_def reg_Release_def by (auto intro: distinct_map_filter)
    have "map_of (filter (\<lambda>(q, _). q \<noteq> k) xs) k' = map_of xs k'" for xs :: "(string \<times> nat) list"
      using assms(2) by (induction xs) auto
    then show "session_of (reg_Release k r) k' = session_of r k'"
      by (simp add: session_of_def reg_Release_def)
  qed
  obtain e t where ft: "f (rg_heap r1 ! i) = (e, t)" by fastforce
  have on: "snd (on_session i f r1) = r1\<lparr>rg_heap := (rg_heap r1)[i := t]\<rparr>" using i ft by (simp add: on_session_def)
  have "reg_wf (snd (on_session i f r1))" using wf1 unfolding on reg_wf_def by simp
  moreover have "session_of (snd (on_session i f r1)) k' = session_of r1 k'"
  proof (cases "map_of (rg_sessions r1) k'")
    case (Some j)
    then have "j \<noteq> i" using map_of_distinct_snd [OF _ own] wf1 assms(2) unfolding reg_wf_def by metis
    then show ?thesis using Some unfolding on by (simp add: session_of_def)
  qed (simp add: on session_of_def)
  moreover have "session_of (snd (on_session i f r1)) k = map_option (\<lambda>s. snd (f s)) (session_of r1 k)"
    using own i ft unfolding on by (simp add: session_of_def)
  ultimately show ?thesis using s wf1 other rel by simp
qed

end
