(* ===== verification/Deny.thy ===== *)
theory Deny
  imports Json Authz Ceilings
begin

text \<open>
  Refusals: the shared deny vocabulary (\<open>src/internal/denyclass\<close>), the wire mapping and the REST
  deny writer (\<open>src/internal/denywire\<close>), the sentinel adapters of the broker
  (\<open>src/internal/broker/broker.go\<close>) and the classifiers of the two faces
  (\<open>src/internal/southface/deny.go\<close>, \<open>engine.go\<close>, \<open>handlers.go\<close>,
  \<open>src/internal/filesapi/create.go\<close>). The properties say which refusals carry the truth to the
  caller, that a containment escape cannot be told from a missing object, and on which
  errors the audited truth and the wire class part.
\<close>

section \<open>Vocabulary\<close>

type_synonym deny_class = string

definition dc_ScopeMismatch :: deny_class where "dc_ScopeMismatch = ''scope_mismatch''"
definition dc_IntentDenied :: deny_class where "dc_IntentDenied = ''intent_denied''"
definition dc_NotDownloadable :: deny_class where "dc_NotDownloadable = ''not_downloadable''"
definition dc_LeaseExpired :: deny_class where "dc_LeaseExpired = ''lease_expired''"
definition dc_SizeExceeded :: deny_class where "dc_SizeExceeded = ''size_exceeded''"
definition dc_NotFound :: deny_class where "dc_NotFound = ''not_found''"
definition dc_Malformed :: deny_class where "dc_Malformed = ''malformed_envelope''"
definition dc_Throttle :: deny_class where "dc_Throttle = ''throttle''"
definition dc_AuditDown :: deny_class where "dc_AuditDown = ''audit_down''"
definition dc_AlreadyExists :: deny_class where "dc_AlreadyExists = ''already_exists''"
definition dc_Aborted :: deny_class where "dc_Aborted = ''aborted''"
definition dc_Unimplemented :: deny_class where "dc_Unimplemented = ''unimplemented''"
definition dc_Internal :: deny_class where "dc_Internal = ''internal''"
definition dc_DirNotEmpty :: deny_class where "dc_DirNotEmpty = ''directory_not_empty''"
definition dc_BackendUnavailable :: deny_class where "dc_BackendUnavailable = ''backend_unavailable''"
definition dc_None :: deny_class where "dc_None = ''none''"

definition denyClasses :: "deny_class list" where
  "denyClasses =
     [dc_ScopeMismatch, dc_IntentDenied, dc_NotDownloadable, dc_LeaseExpired, dc_SizeExceeded,
      dc_NotFound, dc_Malformed, dc_Throttle, dc_AuditDown, dc_AlreadyExists, dc_Aborted,
      dc_Unimplemented, dc_Internal, dc_DirNotEmpty, dc_BackendUnavailable]"

definition All_classes :: "deny_class list" where
  "All_classes = dc_None # denyClasses"

section \<open>Wire mapping\<close>

definition WireCodeInvalidArgument :: string where "WireCodeInvalidArgument = ''invalid_argument''"
definition WireCodeUnauthenticated :: string where "WireCodeUnauthenticated = ''unauthenticated''"
definition WireCodePermissionDenied :: string where "WireCodePermissionDenied = ''permission_denied''"
definition WireCodeNotFound :: string where "WireCodeNotFound = ''not_found''"
definition WireCodeAlreadyExists :: string where "WireCodeAlreadyExists = ''already_exists''"
definition WireCodeAborted :: string where "WireCodeAborted = ''aborted''"
definition WireCodeResourceExhausted :: string where "WireCodeResourceExhausted = ''resource_exhausted''"
definition WireCodeUnimplemented :: string where "WireCodeUnimplemented = ''unimplemented''"
definition WireCodeUnavailable :: string where "WireCodeUnavailable = ''unavailable''"
definition WireCodeInternal :: string where "WireCodeInternal = ''internal''"

record DenyVerdict =
  AuditReason :: string
  WireCode :: string
  WireStatus :: nat
  WireHeader :: bool
  CorrelationID :: string

definition denyTable :: "(deny_class \<times> string \<times> bool) list" where
  "denyTable =
     [(dc_ScopeMismatch, WireCodePermissionDenied, True),
      (dc_IntentDenied, WireCodePermissionDenied, True),
      (dc_NotDownloadable, WireCodePermissionDenied, True),
      (dc_LeaseExpired, WireCodeUnauthenticated, True),
      (dc_SizeExceeded, WireCodeInvalidArgument, False),
      (dc_Malformed, WireCodeInvalidArgument, False),
      (dc_DirNotEmpty, WireCodeInvalidArgument, False),
      (dc_NotFound, WireCodeNotFound, False),
      (dc_Throttle, WireCodeResourceExhausted, False),
      (dc_AuditDown, WireCodeUnavailable, False),
      (dc_BackendUnavailable, WireCodeUnavailable, False),
      (dc_AlreadyExists, WireCodeAlreadyExists, False),
      (dc_Aborted, WireCodeAborted, False),
      (dc_Unimplemented, WireCodeUnimplemented, False),
      (dc_Internal, WireCodeInternal, False)]"

definition StatusForWireCode :: "string \<Rightarrow> nat" where
  "StatusForWireCode code =
     (if code = WireCodeInvalidArgument then 400
      else if code = WireCodeUnauthenticated then 401
      else if code = WireCodePermissionDenied then 403
      else if code = WireCodeNotFound then 404
      else if code = WireCodeAlreadyExists \<or> code = WireCodeAborted then 409
      else if code = WireCodeResourceExhausted then 429
      else if code = WireCodeUnimplemented then 501
      else if code = WireCodeUnavailable then 503
      else 500)"

definition MapDeny :: "deny_class \<Rightarrow> DenyVerdict" where
  "MapDeny class =
     (case map_of denyTable class of
        None \<Rightarrow> \<lparr>AuditReason = class, WireCode = WireCodeInternal, WireStatus = 500, WireHeader = False, CorrelationID = []\<rparr>
      | Some (code, header) \<Rightarrow>
          \<lparr>AuditReason = class, WireCode = code, WireStatus = StatusForWireCode code, WireHeader = header, CorrelationID = []\<rparr>)"

definition MapDenyDegraded :: "string \<Rightarrow> deny_class \<Rightarrow> DenyVerdict" where
  "MapDenyDegraded auditReason wireClass = (MapDeny wireClass)\<lparr>AuditReason := auditReason\<rparr>"

section \<open>REST deny writer\<close>

record response =
  rs_status :: nat
  rs_header :: "(string \<times> string) list"
  rs_body :: string

definition BoundedReasonMessageMax :: nat where "BoundedReasonMessageMax = 256"

definition ReasonCodeForVerdict :: "DenyVerdict \<Rightarrow> string" where
  "ReasonCodeForVerdict v = (let code = map upper_byte (WireCode v) in if code = [] then ''INTERNAL'' else code)"

definition BoundedReason :: "string \<Rightarrow> string" where
  "BoundedReason message =
     (if length message \<le> BoundedReasonMessageMax then message else take BoundedReasonMessageMax message)"

definition WriteRESTDeny :: "DenyVerdict \<Rightarrow> string \<Rightarrow> response" where
  "WriteRESTDeny v message =
     \<lparr>rs_status = WireStatus v,
      rs_header = (if WireHeader v then [(''x-deny-reason'', AuditReason v)] else []) @
        [(''Content-Type'', ''application/json'')],
      rs_body = print_value (JObj [(''reason_code'', JStr (ReasonCodeForVerdict v)),
        (''message'', JStr (BoundedReason message))]) @ [CHR 0x0A]\<rparr>"

section \<open>Sentinel adapters\<close>

text \<open>
  An error value of the south face: one of its own sentinels, or an error of the object store
  that the adapter passed through unchanged.
\<close>

datatype south_err =
    sErrScopeMismatch | sErrIntentDenied | sErrNotDownloadable | sErrLeaseExpired
  | sErrAuditUnavailable | sErrSizeExceeded | sErrThrottleExceeded | sErrBytesExceeded | sErrFDExceeded
  | sErrAlreadyExists | sErrInvalidPath | sErrBackendThrottled | sErrBackendTransient
  | sErrNotADirectory | sErrInvalidRange | sErrForeignScope
  | RawStore store_err | RawOther

fun mapResolverErr :: "authz_err \<Rightarrow> south_err" where
  "mapResolverErr Authz.ErrScopeMismatch = sErrScopeMismatch"
| "mapResolverErr Authz.ErrIntentDenied = sErrIntentDenied"
| "mapResolverErr Authz.ErrNotDownloadable = sErrNotDownloadable"

fun mapCeilingsErr :: "ceil_err \<Rightarrow> south_err" where
  "mapCeilingsErr Ceilings.ErrThrottleExceeded = sErrThrottleExceeded"
| "mapCeilingsErr Ceilings.ErrBytesExceeded = sErrBytesExceeded"
| "mapCeilingsErr Ceilings.ErrFDExceeded = sErrFDExceeded"
| "mapCeilingsErr _ = RawOther"

fun mapEngineErr :: "store_err \<Rightarrow> south_err" where
  "mapEngineErr ErrAlreadyExists = sErrAlreadyExists"
| "mapEngineErr ErrInvalidPath = sErrInvalidPath"
| "mapEngineErr ErrNotADirectory = sErrNotADirectory"
| "mapEngineErr ErrInvalidRange = sErrInvalidRange"
| "mapEngineErr ErrThrottled = sErrBackendThrottled"
| "mapEngineErr ErrTransient = sErrBackendTransient"
| "mapEngineErr ErrForeignScope = sErrForeignScope"
| "mapEngineErr e = RawStore e"

section \<open>Classifiers\<close>

text \<open>\<open>errors.Is\<close> of the standard library on the errors that pass through.\<close>

fun is_ctx_err :: "south_err \<Rightarrow> bool" where
  "is_ctx_err (RawStore CtxErr) = True"
| "is_ctx_err _ = False"

fun sys_errno :: "south_err \<Rightarrow> errno option" where
  "sys_errno (RawStore (PathError n)) = Some n"
| "sys_errno (RawStore (LinkError n)) = Some n"
| "sys_errno _ = None"

definition is_fs_ErrExist :: "south_err \<Rightarrow> bool" where
  "is_fs_ErrExist e = (sys_errno e = Some EEXIST \<or> sys_errno e = Some ENOTEMPTY)"

definition is_fs_ErrNotExist :: "south_err \<Rightarrow> bool" where
  "is_fs_ErrNotExist e = (sys_errno e = Some ENOENT)"

definition isPathEscape :: "south_err \<Rightarrow> bool" where
  "isPathEscape e = (sys_errno e \<noteq> None)"

definition denyClassForErr :: "south_err \<Rightarrow> deny_class" where
  "denyClassForErr e =
     (if is_ctx_err e then dc_Aborted
      else if e = sErrScopeMismatch then dc_ScopeMismatch
      else if e = sErrIntentDenied then dc_IntentDenied
      else if e = sErrNotDownloadable then dc_NotDownloadable
      else if e = sErrLeaseExpired then dc_LeaseExpired
      else if e = sErrSizeExceeded then dc_SizeExceeded
      else if e = sErrThrottleExceeded \<or> e = sErrBytesExceeded \<or> e = sErrFDExceeded then dc_Throttle
      else if e = sErrAuditUnavailable then dc_AuditDown
      else dc_Internal)"

definition denyClassForEngineErr :: "south_err \<Rightarrow> deny_class" where
  "denyClassForEngineErr e =
     (if is_ctx_err e then dc_Aborted
      else if e = sErrAlreadyExists \<or> is_fs_ErrExist e then dc_AlreadyExists
      else if is_fs_ErrNotExist e then dc_NotFound
      else if e = sErrNotADirectory then dc_Malformed
      else if e = sErrInvalidRange then dc_Malformed
      else if e = sErrBackendThrottled then dc_Throttle
      else if e = sErrBackendTransient then dc_BackendUnavailable
      else if e = sErrForeignScope then dc_ScopeMismatch
      else if e = sErrInvalidPath \<or> isPathEscape e then dc_NotFound
      else dc_Internal)"

definition auditTruthForEngineErr :: "south_err \<Rightarrow> deny_class" where
  "auditTruthForEngineErr e =
     (if is_ctx_err e then dc_Aborted
      else if e = sErrAlreadyExists \<or> is_fs_ErrExist e then dc_AlreadyExists
      else if is_fs_ErrNotExist e then dc_NotFound
      else if e = sErrNotADirectory then dc_Malformed
      else if e = sErrInvalidRange then dc_Malformed
      else if e = sErrForeignScope then dc_ScopeMismatch
      else if e = sErrInvalidPath \<or> isPathEscape e then dc_ScopeMismatch
      else dc_Internal)"

definition north_denyClassForResolveErr :: "south_err \<Rightarrow> deny_class" where
  "north_denyClassForResolveErr e =
     (if e = sErrScopeMismatch then dc_ScopeMismatch
      else if e = sErrIntentDenied then dc_IntentDenied
      else if e = sErrNotDownloadable then dc_NotDownloadable
      else if e = sErrSizeExceeded then dc_SizeExceeded
      else if e = sErrThrottleExceeded \<or> e = sErrBytesExceeded \<or> e = sErrFDExceeded then dc_Throttle
      else if e = sErrAuditUnavailable then dc_AuditDown
      else dc_Internal)"

definition north_denyClassForEngineErr :: "south_err \<Rightarrow> deny_class" where
  "north_denyClassForEngineErr e =
     (if e = sErrAlreadyExists \<or> is_fs_ErrExist e then dc_AlreadyExists
      else if is_fs_ErrNotExist e then dc_NotFound
      else if e = sErrForeignScope then dc_ScopeMismatch
      else if e = sErrBackendThrottled then dc_Throttle
      else if e = sErrBackendTransient then dc_BackendUnavailable
      else dc_Internal)"

text \<open>The handler-stage refusal of an engine error: the audited truth and the response.\<close>

definition denyEngine :: "store_err \<Rightarrow> deny_class \<times> response" where
  "denyEngine err =
     (let e = mapEngineErr err; truth = auditTruthForEngineErr e
      in (truth, WriteRESTDeny (MapDenyDegraded truth (denyClassForEngineErr e)) ''operation refused''))"

section \<open>Lemmas\<close>

lemmas class_names =
  dc_ScopeMismatch_def dc_IntentDenied_def dc_NotDownloadable_def dc_LeaseExpired_def dc_SizeExceeded_def
  dc_NotFound_def dc_Malformed_def dc_Throttle_def dc_AuditDown_def dc_AlreadyExists_def dc_Aborted_def
  dc_Unimplemented_def dc_Internal_def dc_DirNotEmpty_def dc_BackendUnavailable_def dc_None_def

lemmas code_names =
  WireCodeInvalidArgument_def WireCodeUnauthenticated_def WireCodePermissionDenied_def WireCodeNotFound_def
  WireCodeAlreadyExists_def WireCodeAborted_def WireCodeResourceExhausted_def WireCodeUnimplemented_def
  WireCodeUnavailable_def WireCodeInternal_def

lemmas engine_class_defs =
  denyClassForEngineErr_def auditTruthForEngineErr_def north_denyClassForEngineErr_def
  is_fs_ErrExist_def is_fs_ErrNotExist_def isPathEscape_def

definition auth_classes :: "deny_class list" where
  "auth_classes = [dc_ScopeMismatch, dc_IntentDenied, dc_NotDownloadable, dc_LeaseExpired]"

lemma MapDeny_header: "WireHeader (MapDeny c) \<longleftrightarrow> c \<in> set auth_classes"
  by (simp add: MapDeny_def denyTable_def auth_classes_def class_names split: option.splits)

lemma MapDenyDegraded_hides:
  "c \<notin> set auth_classes \<Longrightarrow> WriteRESTDeny (MapDenyDegraded t c) m = WriteRESTDeny (MapDeny c) m"
  by (simp add: WriteRESTDeny_def MapDenyDegraded_def MapDeny_header ReasonCodeForVerdict_def)

section \<open>Properties\<close>

text \<open>
  C29. Anti-enumeration: whatever the object store refuses as a containment escape or a lexically
  invalid path is answered with the same bytes, status and headers as a missing object, while
  the audited truth of the two differs.
\<close>

theorem escape_indistinguishable:
  assumes "err = ErrInvalidPath \<or> (\<exists>n. n \<notin> {ENOENT, EEXIST, ENOTEMPTY} \<and> (err = PathError n \<or> err = LinkError n))"
  shows "snd (denyEngine err) = snd (denyEngine (PathError ENOENT)) \<and>
    rs_status (snd (denyEngine err)) = 404 \<and>
    fst (denyEngine err) = dc_ScopeMismatch \<and> fst (denyEngine (PathError ENOENT)) = dc_NotFound"
proof -
  have c: "denyClassForEngineErr (mapEngineErr err) = dc_NotFound"
    and t: "auditTruthForEngineErr (mapEngineErr err) = dc_ScopeMismatch"
    using assms by (auto simp: engine_class_defs)
  have c0: "denyClassForEngineErr (RawStore (PathError ENOENT)) = dc_NotFound"
    "auditTruthForEngineErr (RawStore (PathError ENOENT)) = dc_NotFound" by (simp_all add: engine_class_defs)
  have nf: "dc_NotFound \<notin> set auth_classes" by (simp add: auth_classes_def class_names)
  have st: "rs_status (WriteRESTDeny (MapDeny dc_NotFound) m) = 404" for m
    by (simp add: WriteRESTDeny_def MapDeny_def denyTable_def StatusForWireCode_def class_names code_names)
  show ?thesis by (simp add: denyEngine_def Let_def c t c0 MapDenyDegraded_hides [OF nf] st)
qed

theorem escape_indistinguishable_witness:
  "snd (denyEngine (PathError EPERM)) = snd (denyEngine (PathError ENOENT)) \<and>
    rs_status (snd (denyEngine (PathError EPERM))) = 404 \<and>
    fst (denyEngine (PathError EPERM)) = dc_ScopeMismatch \<and> fst (denyEngine (PathError ENOENT)) = dc_NotFound"
  by (rule escape_indistinguishable) simp

text \<open>
  Every refusal is well formed: each of the fifteen classes has its own row, the response
  status is a client or server error, the reason header appears exactly for the four
  authorization classes (and then the wire code is permission denied or unauthenticated),
  and a degraded verdict with any other wire class shows nothing of the audited truth.
\<close>

lemma refusal_well_formed:
  "dom (map_of denyTable) = set denyClasses \<and> distinct All_classes \<and>
   WireStatus (MapDeny c) \<in> {400, 401, 403, 404, 409, 429, 500, 501, 503} \<and>
   (WireHeader (MapDeny c) \<longleftrightarrow> c \<in> set auth_classes) \<and>
   (WireHeader (MapDeny c) \<longleftrightarrow> WireCode (MapDeny c) \<in> {WireCodePermissionDenied, WireCodeUnauthenticated}) \<and>
   (c \<in> set auth_classes \<or> (\<forall>t. WriteRESTDeny (MapDenyDegraded t c) m = WriteRESTDeny (MapDeny c) m))"
  (is "?dom \<and> ?dist \<and> ?status \<and> ?header \<and> ?code \<and> ?hide")
proof (intro conjI)
  show ?dom by (auto simp: dom_map_of_conv_image_fst denyTable_def denyClasses_def)
  show ?dist by (simp add: All_classes_def denyClasses_def class_names)
  show ?status by (auto simp: MapDeny_def StatusForWireCode_def split: option.splits)
  show ?header by (rule MapDeny_header)
  show ?code by (simp add: MapDeny_def denyTable_def class_names code_names split: option.splits)
  show ?hide using MapDenyDegraded_hides by blast
qed

text \<open>
  C30. The audited truth of an engine refusal and the class shown on the wire differ on exactly
  two groups of errors: the containment escapes, where the wire is degraded on purpose, and
  the throttled and transient backend errors, which are audited as an internal fault although
  the wire names them.
\<close>

theorem truth_wire_split:
  "(auditTruthForEngineErr (mapEngineErr err) \<noteq> denyClassForEngineErr (mapEngineErr err) \<longleftrightarrow>
     err \<in> {ErrInvalidPath, ErrThrottled, ErrTransient} \<or>
     (\<exists>n. n \<notin> {ENOENT, EEXIST, ENOTEMPTY} \<and> (err = PathError n \<or> err = LinkError n))) \<and>
   denyClassForEngineErr (mapEngineErr ErrThrottled) = dc_Throttle \<and>
   denyClassForEngineErr (mapEngineErr ErrTransient) = dc_BackendUnavailable \<and>
   auditTruthForEngineErr (mapEngineErr ErrThrottled) = dc_Internal \<and>
   auditTruthForEngineErr (mapEngineErr ErrTransient) = dc_Internal"
  by (cases err) (auto simp: engine_class_defs class_names)

end
