(* ===== verification/SouthPath.thy ===== *)
theory SouthPath
  imports Deny
begin

text \<open>
  The wire boundary of the south face (\<open>src/internal/southface\<close>): routes and required intents
  (\<open>envelope.go\<close>), the canonical form of a guest path and its way back to the guest
  (\<open>engine.go\<close>), the join of an intent to a subtree (\<open>subtree.go\<close>) and the bearer credential
  (\<open>credscope.go\<close>). The properties say that a canonical path never leaves the subtree of the
  caller's intent, that the displayed path leads back to the same object, and that with a
  validated subtree map no path of the write subtree is reachable under read or preview.
\<close>

section \<open>Operations and routes\<close>

datatype Op =
    OpListDirectory | OpMakeDirectory | OpMoveDirectory | OpRemoveDirectory | OpCreateFile
  | OpReadFile | OpReadMetadata | OpGetFileMetadata | OpListFiles | OpCopyFile
  | OpMoveFile | OpRemoveFile | OpFileUpload | OpFileDownload | OpImportFiles
  | OpImportZip | OpMigrateFilesystem | OpRemoveFilesystem | OpFileDelete

fun op_name :: "Op \<Rightarrow> string" where
  "op_name OpListDirectory = ''listDirectory''"
| "op_name OpMakeDirectory = ''makeDirectory''"
| "op_name OpMoveDirectory = ''moveDirectory''"
| "op_name OpRemoveDirectory = ''removeDirectory''"
| "op_name OpCreateFile = ''createFile''"
| "op_name OpReadFile = ''readFile''"
| "op_name OpReadMetadata = ''readMetadata''"
| "op_name OpGetFileMetadata = ''getFileMetadata''"
| "op_name OpListFiles = ''listFiles''"
| "op_name OpCopyFile = ''copyFile''"
| "op_name OpMoveFile = ''moveFile''"
| "op_name OpRemoveFile = ''removeFile''"
| "op_name OpFileUpload = ''fileUpload''"
| "op_name OpFileDownload = ''fileDownload''"
| "op_name OpImportFiles = ''importFiles''"
| "op_name OpImportZip = ''importZip''"
| "op_name OpMigrateFilesystem = ''migrateFilesystem''"
| "op_name OpRemoveFilesystem = ''removeFilesystem''"
| "op_name OpFileDelete = ''fileDelete''"

definition knownOps :: "Op list" where
  "knownOps = [
     OpListDirectory, OpMakeDirectory, OpMoveDirectory, OpRemoveDirectory, OpCreateFile,
     OpReadFile, OpReadMetadata, OpGetFileMetadata, OpListFiles, OpCopyFile,
     OpMoveFile, OpRemoveFile, OpFileUpload, OpFileDownload, OpImportFiles,
     OpImportZip, OpMigrateFilesystem, OpRemoveFilesystem, OpFileDelete]"

fun requiredIntentForOp :: "Op \<Rightarrow> Intent option" where
  "requiredIntentForOp OpListDirectory = Some IntentRead"
| "requiredIntentForOp OpMakeDirectory = Some IntentWrite"
| "requiredIntentForOp OpMoveDirectory = Some IntentWrite"
| "requiredIntentForOp OpRemoveDirectory = Some IntentWrite"
| "requiredIntentForOp OpCreateFile = Some IntentWrite"
| "requiredIntentForOp OpReadFile = Some IntentRead"
| "requiredIntentForOp OpReadMetadata = Some IntentRead"
| "requiredIntentForOp OpGetFileMetadata = Some IntentRead"
| "requiredIntentForOp OpListFiles = Some IntentRead"
| "requiredIntentForOp OpCopyFile = Some IntentWrite"
| "requiredIntentForOp OpMoveFile = Some IntentWrite"
| "requiredIntentForOp OpRemoveFile = Some IntentWrite"
| "requiredIntentForOp OpFileUpload = Some IntentWrite"
| "requiredIntentForOp OpFileDownload = Some IntentRead"
| "requiredIntentForOp OpImportFiles = Some IntentWrite"
| "requiredIntentForOp OpImportZip = Some IntentWrite"
| "requiredIntentForOp OpMigrateFilesystem = Some IntentWrite"
| "requiredIntentForOp OpRemoveFilesystem = Some IntentWrite"
| "requiredIntentForOp OpFileDelete = Some IntentWrite"

datatype env_err =
    errMalformedEnvelope | errDeclaredSizeExceeded | errUnknownRoute | errBadContentType | errBadMethod | errRouteOpMismatch

definition restBase :: string where
  "restBase = ''/v1/filestore/fs/''"

definition parseRoute :: "string \<Rightarrow> string \<Rightarrow> (env_err, Op) res" where
  "parseRoute rmethod path =
     (if \<not> has_prefix path restBase then Inl errUnknownRoute
      else if rmethod \<noteq> ''POST'' then Inl errBadMethod
      else (case find (\<lambda>x. op_name x = drop (length restBase) path) knownOps of
              None \<Rightarrow> Inl errUnknownRoute
            | Some x \<Rightarrow> Inr x))"

definition checkContentType :: "string \<Rightarrow> bool" where
  "checkContentType ct = (trim_space (takeWhile (\<lambda>c. c \<noteq> CHR '';'') ct) = ''application/json'')"

fun denyClassForDecodeErr :: "env_err \<Rightarrow> deny_class" where
  "denyClassForDecodeErr errDeclaredSizeExceeded = dc_SizeExceeded"
| "denyClassForDecodeErr errMalformedEnvelope = dc_Malformed"
| "denyClassForDecodeErr errUnknownRoute = dc_Malformed"
| "denyClassForDecodeErr errBadContentType = dc_Malformed"
| "denyClassForDecodeErr errRouteOpMismatch = dc_Malformed"
| "denyClassForDecodeErr errBadMethod = dc_Internal"

definition joinIntentFor :: "Intent list \<Rightarrow> Intent \<Rightarrow> Intent" where
  "joinIntentFor grants required = (case grants of [g] \<Rightarrow> g | _ \<Rightarrow> required)"

section \<open>Paths\<close>

definition canonicalizePath :: "string \<Rightarrow> string \<Rightarrow> (south_err, string) res" where
  "canonicalizePath guest subtree =
     (if CHR 0x00 \<in> set guest then Inl sErrInvalidPath
      else if hasURLScheme guest then Inl sErrInvalidPath
      else
        (let rel0 = trim_prefix guest ''/'';
             rel = (if subtree \<noteq> [] then subtree @ ''/'' @ rel0 else rel0);
             clean = path_clean (''/'' @ rel)
         in if subtree \<noteq> [] then
              (let base = ''/'' @ subtree in
               if clean \<noteq> base \<and> \<not> has_prefix clean (base @ ''/'') then Inl sErrInvalidPath else Inr clean)
            else if clean = ''/..'' \<or> has_prefix clean ''/../'' then Inl sErrInvalidPath
            else Inr clean))"

definition enginePath :: "string \<Rightarrow> string" where
  "enginePath guest = (let p = trim_prefix guest ''/'' in if p = [] then dot else p)"

definition guestPathFromRel :: "string \<Rightarrow> string" where
  "guestPathFromRel rel = (if rel = dot \<or> rel = [] then ''/'' else ''/'' @ trim_prefix rel ''/'')"

definition guestDisplayPath :: "string \<Rightarrow> string \<Rightarrow> string" where
  "guestDisplayPath rel subtree =
     (if subtree = [] then guestPathFromRel rel
      else (let r = trim_prefix rel ''/'' in
        if r = subtree then ''/''
        else if has_prefix r (subtree @ ''/'') then guestPathFromRel (trim_prefix r (subtree @ ''/''))
        else guestPathFromRel rel))"

section \<open>Subtrees\<close>

type_synonym SubtreeMap = "(Intent \<times> string) list"

datatype subtree_err = ErrInvalidSubtree | ErrSubtreeOverlap

definition DefaultSubtreeMap :: SubtreeMap where
  "DefaultSubtreeMap = [(IntentWrite, ''outputs''), (IntentRead, ''uploads''), (IntentPreview, ''uploads'')]"

definition subtree_For :: "SubtreeMap \<Rightarrow> Intent \<Rightarrow> string" where
  "subtree_For sm i = (case map_of sm i of None \<Rightarrow> [] | Some t \<Rightarrow> t)"

definition ReadSubtree :: "SubtreeMap \<Rightarrow> string" where
  "ReadSubtree sm = subtree_For sm IntentRead"

definition enabled :: "SubtreeMap \<Rightarrow> bool" where
  "enabled sm = (sm \<noteq> [])"

definition splitSlash :: "string \<Rightarrow> string list" where
  "splitSlash v = split_on CHR ''/'' v"

definition normalizeSubtree :: "string \<Rightarrow> (subtree_err, string) res" where
  "normalizeSubtree v0 =
     (let v = (if v0 \<noteq> [] \<and> hd v0 = CHR ''/'' then tl v0 else v0) in
      if v = [] then Inl ErrInvalidSubtree
      else if list_ex (\<lambda>seg. seg = dotdot) (splitSlash v) then Inl ErrInvalidSubtree
      else Inr v)"

definition hasPathPrefix :: "string \<Rightarrow> string \<Rightarrow> bool" where
  "hasPathPrefix path pre =
     (let ps = splitSlash pre; ss = splitSlash path in
      if length ss \<le> length ps then False else list_all2 (=) ps (take (length ps) ss))"

definition subtreesOverlap :: "string \<Rightarrow> string \<Rightarrow> bool" where
  "subtreesOverlap a b = (a = b \<or> hasPathPrefix a b \<or> hasPathPrefix b a)"

definition NewSubtreeMap :: "string \<Rightarrow> string \<Rightarrow> string \<Rightarrow> (subtree_err, SubtreeMap) res" where
  "NewSubtreeMap wr rd pv =
     rbind (normalizeSubtree wr) (\<lambda>w.
     rbind (normalizeSubtree rd) (\<lambda>r.
     rbind (normalizeSubtree pv) (\<lambda>p.
       if subtreesOverlap w r \<or> subtreesOverlap w p then Inl ErrSubtreeOverlap
       else Inr [(IntentWrite, w), (IntentRead, r), (IntentPreview, p)])))"

definition intersectIntents :: "Intent list \<Rightarrow> Intent list \<Rightarrow> Intent list" where
  "intersectIntents claim bound = filter (\<lambda>i. i \<in> set bound) claim"

section \<open>Credentials\<close>

record PeerScope =
  ps_FilesystemID :: string
  ps_GrantedIntents :: "Intent list"
  ps_UID :: "32 word"
  ps_PID :: "32 word"

text \<open>\<open>h\<close> is the value of the \<open>Authorization\<close> header, empty when absent.\<close>

definition bearerFromRequest :: "string \<Rightarrow> string option" where
  "bearerFromRequest h =
     (if h = [] then None
      else if length h \<le> 7 \<or> map lower_byte (take 6 h) \<noteq> ''bearer'' \<or> h ! 6 \<noteq> CHR '' '' then None
      else (let token = drop 7 h in if trim_space token = [] then None else Some token))"

text \<open>The scope authority \<open>bind\<close> is the verifier of the deployment: \<open>None\<close> is its refusal.\<close>

type_synonym bind_fun = "string \<Rightarrow> PeerScope option"

definition Extract :: "bind_fun option \<Rightarrow> string \<Rightarrow> PeerScope option" where
  "Extract bind bearer =
     (case bind of
        None \<Rightarrow> None
      | Some f \<Rightarrow>
          (case f bearer of
             None \<Rightarrow> None
           | Some scope \<Rightarrow> if ps_FilesystemID scope = [] then None else Some scope))"

definition peerScopeFromCredential :: "string \<Rightarrow> bind_fun option \<Rightarrow> (DenyVerdict, PeerScope) res" where
  "peerScopeFromCredential h bind =
     (case bearerFromRequest h of
        None \<Rightarrow> Inl (MapDeny dc_LeaseExpired)
      | Some bearer \<Rightarrow>
          (case Extract bind bearer of
             None \<Rightarrow> Inl (MapDeny dc_LeaseExpired)
           | Some scope \<Rightarrow> Inr scope))"

definition deriveCredScope :: "string \<Rightarrow> bind_fun option \<Rightarrow> string \<Rightarrow> (DenyVerdict, PeerScope) res" where
  "deriveCredScope h bind requestFsid =
     (case bearerFromRequest h of
        None \<Rightarrow> Inl (MapDeny dc_LeaseExpired)
      | Some bearer \<Rightarrow>
          (case Extract bind bearer of
             None \<Rightarrow> Inl (MapDeny dc_LeaseExpired)
           | Some scope \<Rightarrow>
               if requestFsid \<noteq> ps_FilesystemID scope then Inl (MapDeny dc_ScopeMismatch) else Inr scope))"

section \<open>Lemmas\<close>

lemma split_on_slash [simp]: "split_on CHR ''/'' (CHR ''/'' # s) = [] # split_on CHR ''/'' s"
  using split_on_append [of "CHR ''/''" "[]" s] by simp

lemma has_prefix_slash: "has_prefix (CHR ''/'' # s) ''/''"
  by (simp add: has_prefix_conv)

lemma trim_slash [simp]: "trim_prefix (CHR ''/'' # s) ''/'' = s"
  by (simp add: trim_prefix_def has_prefix_slash)

lemma abs_clean_shape:
  assumes "p = path_clean (CHR ''/'' # r)"
  shows "\<exists>cs. p = CHR ''/'' # join_with CHR ''/'' cs \<and> list_all plain_comp cs \<and> path_clean p = p"
proof -
  have "clean_list True (clean_comps (CHR ''/'' # r))" using clean_comps_clean [of "CHR ''/'' # r"] by simp
  then have "list_all plain_comp (clean_comps (CHR ''/'' # r))" by (rule clean_list_rooted)
  moreover have "path_clean p = p" using assms by simp
  ultimately show ?thesis using assms by (intro exI [of _ "clean_comps (CHR ''/'' # r)"]) (simp add: path_clean_def [of "CHR ''/'' # r"])
qed

lemma canon_def_Inr:
  assumes "canonicalizePath g sub = Inr p"
  shows "CHR 0x00 \<notin> set g \<and> p = path_clean (CHR ''/'' # (if sub \<noteq> [] then sub @ ''/'' @ trim_prefix g ''/'' else trim_prefix g ''/'')) \<and>
    (sub = [] \<or> pathUnderPrefix p (CHR ''/'' # sub))"
  using assms by (auto simp: canonicalizePath_def Let_def pathUnderPrefix_def split: if_splits)

lemma plain_comps_split:
  "list_all plain_comp cs \<Longrightarrow> c \<in> set (split_on CHR ''/'' (join_with CHR ''/'' cs)) \<Longrightarrow> plain_comp c \<or> c = [] \<and> cs = []"
proof (cases "cs = []")
  case False
  assume a: "list_all plain_comp cs" "c \<in> set (split_on CHR ''/'' (join_with CHR ''/'' cs))"
  then have "\<forall>x\<in>set cs. CHR ''/'' \<notin> set x" by (auto simp: list_all_iff dest: plain_compD)
  then show ?thesis using a False by (simp add: split_join list_all_iff)
qed simp

lemma canon_no_dotdot:
  assumes "canonicalizePath g sub = Inr p"
  shows "path_clean p = p \<and> dotdot \<notin> set (split_on CHR ''/'' p)"
proof -
  obtain r where r: "p = path_clean (CHR ''/'' # r)" using canon_def_Inr [OF assms] by blast
  obtain cs where cs: "p = CHR ''/'' # join_with CHR ''/'' cs" "list_all plain_comp cs" "path_clean p = p"
    using abs_clean_shape [OF r] by blast
  show ?thesis using plain_comps_split [OF cs(2), of dotdot] cs(1,3) by auto
qed

text \<open>The static refusal of a leading dot-dot without a subtree never applies.\<close>

lemma canon_total_unjoined:
  "canonicalizePath g [] = (if CHR 0x00 \<in> set g \<or> hasURLScheme g then Inl sErrInvalidPath
     else Inr (path_clean (CHR ''/'' # trim_prefix g ''/'')))"
proof -
  let ?p = "path_clean (CHR ''/'' # trim_prefix g ''/'')"
  obtain cs where cs: "?p = CHR ''/'' # join_with CHR ''/'' cs" "list_all plain_comp cs"
    using abs_clean_shape [OF refl] by blast
  have "dotdot \<notin> set (split_on CHR ''/'' ?p)" using plain_comps_split [OF cs(2), of dotdot] cs(1) by auto
  moreover have "split_on CHR ''/'' ''/..'' = [[], dotdot]" by (simp add: dotdot_def)
  moreover have "dotdot \<in> set (split_on CHR ''/'' ?p)" if dd: "has_prefix ?p ''/../''"
  proof -
    obtain t where "?p = ''/..'' @ CHR ''/'' # t" using dd unfolding has_prefix_conv by auto
    then show ?thesis using split_on_append [of "CHR ''/''" "''/..''" t] by (simp add: dotdot_def)
  qed
  ultimately have "?p \<noteq> ''/..''" "\<not> has_prefix ?p ''/../''" by (metis list.set_intros(1,2))+
  then show ?thesis by (simp add: canonicalizePath_def Let_def)
qed

lemma canon_under:
  "canonicalizePath g sub = Inr p \<Longrightarrow> sub \<noteq> [] \<Longrightarrow> prefix ([] # splitSlash sub) (split_on CHR ''/'' p)"
  using canon_def_Inr [of g sub p] pathUnderPrefix_comps [of p "CHR ''/'' # sub"] by (auto simp: splitSlash_def)

lemma hasPathPrefix_iff: "hasPathPrefix a b \<longleftrightarrow> strict_prefix (splitSlash b) (splitSlash a)"
  by (auto simp: hasPathPrefix_def Let_def list.rel_eq strict_prefix_def prefix_def dest: arg_cong [of _ _ length]) (metis append_take_drop_id)

lemma overlap_iff: "subtreesOverlap a b \<longleftrightarrow> prefix (splitSlash a) (splitSlash b) \<or> prefix (splitSlash b) (splitSlash a)"
proof -
  have "splitSlash a = splitSlash b \<longleftrightarrow> a = b" unfolding splitSlash_def by (metis join_split)
  then show ?thesis by (auto simp: subtreesOverlap_def hasPathPrefix_iff strict_prefix_def)
qed

lemma prefix_meet: "prefix a c \<Longrightarrow> prefix b c \<Longrightarrow> prefix a b \<or> prefix b a"
  by (auto simp: prefix_def append_eq_append_conv2)

lemma clean_stack_trailing: "clean_stack r st (cs @ [[]]) = clean_stack r st cs"
  by (induction r st cs rule: clean_stack.induct) (auto split: list.splits)

lemma path_clean_trailing: "path_clean (CHR ''/'' # s @ ''/'') = path_clean (CHR ''/'' # s)"
proof (rule path_clean_cong)
  have "split_on CHR ''/'' (CHR ''/'' # s @ ''/'') = ([] # split_on CHR ''/'' s) @ [[]]"
    using split_on_append [of "CHR ''/''" "s" "[]"] by simp
  then show "clean_comps (CHR ''/'' # s @ ''/'') = clean_comps (CHR ''/'' # s)"
    unfolding clean_comps_def by (simp add: clean_stack_trailing del: split_on.simps)
qed simp

text \<open>The rest of a canonical path after its subtree is a proper relative path.\<close>

lemma canon_rest:
  assumes "list_all plain_comp cs" "join_with CHR ''/'' cs = s @ CHR ''/'' # t"
  shows "t \<noteq> [] \<and> t \<noteq> dot \<and> \<not> has_prefix t ''/''"
proof -
  have "cs \<noteq> []" using assms(2) by auto
  then have "\<forall>c\<in>set (split_on CHR ''/'' (s @ CHR ''/'' # t)). plain_comp c"
    using plain_comps_split [OF assms(1)] assms(2) by metis
  then have t: "\<forall>c\<in>set (split_on CHR ''/'' t). plain_comp c" by (simp add: split_on_append)
  have "split_on CHR ''/'' dot = [dot]" by (simp add: dot_def)
  moreover have "[] \<in> set (split_on CHR ''/'' t)" if "has_prefix t ''/''"
    using that unfolding has_prefix_conv by auto
  ultimately show ?thesis using t by (metis list.set_intros(1) plain_comp_simps(1,2) split_on.simps(1))
qed

lemma not_url_slash [simp]: "\<not> hasURLScheme (CHR ''/'' # s)"
  by (simp add: hasURLScheme_def isAlpha_def)

lemma canon_rel:
  assumes "list_all plain_comp cs" "cs \<noteq> []"
  shows "join_with CHR ''/'' cs \<notin> {[], dot} \<and> \<not> has_prefix (join_with CHR ''/'' cs) ''/''"
proof -
  have "\<not> is_abs (join_with CHR ''/'' cs)" by (rule is_abs_join [OF clean_list_plain [OF assms(1)]])
  moreover have "join_with CHR ''/'' cs \<noteq> dot"
  proof
    assume d: "join_with CHR ''/'' cs = dot"
    have "dot \<in> set (split_on CHR ''/'' dot)" by (simp add: dot_def)
    then show False using plain_comps_split [OF assms(1), of dot] d by simp
  qed
  moreover have "join_with CHR ''/'' cs \<noteq> []"
    using assms by (subst join_with_eq_Nil) (auto simp: list_all_iff)
  ultimately show ?thesis by (simp add: is_abs_def)
qed

lemma canon_display:
  assumes p: "canonicalizePath g sub = Inr p" and sub: "CHR 0x00 \<notin> set sub"
  shows "canonicalizePath (guestDisplayPath (enginePath p) sub) sub = Inr p"
proof -
  note c = canon_def_Inr [OF p]
  obtain r where r: "p = path_clean (CHR ''/'' # r)" using c by blast
  obtain cs where cs: "p = CHR ''/'' # join_with CHR ''/'' cs" "list_all plain_comp cs" "path_clean p = p"
    using abs_clean_shape [OF r] by blast
  have "x \<in> set (trim_prefix g ''/'') \<Longrightarrow> x \<in> set g" for x
    by (auto simp: trim_prefix_def dest: in_set_dropD split: if_splits)
  then have nul: "CHR 0x00 \<notin> set p" using c sub by (auto dest!: subsetD [OF set_path_clean] split: if_splits)
  show ?thesis
  proof (cases "sub = []")
    case True
    show ?thesis
    proof (cases "cs = []")
      case True
      then show ?thesis using cs \<open>sub = []\<close> by (simp add: enginePath_def guestDisplayPath_def guestPathFromRel_def canon_total_unjoined)
    next
      case False
      then have "guestDisplayPath (enginePath p) sub = p"
        using canon_rel [OF cs(2) False] cs(1) True
        by (simp add: enginePath_def guestDisplayPath_def guestPathFromRel_def trim_prefix_def Let_def)
      then show ?thesis using nul cs True by (simp add: canon_total_unjoined)
    qed
  next
    case False
    have ne: "cs \<noteq> []" using c cs(1) False by (auto simp: pathUnderPrefix_def has_prefix_conv)
    note rel = canon_rel [OF cs(2) ne]
    have e: "enginePath p = join_with CHR ''/'' cs" using cs(1) rel by (simp add: enginePath_def)
    consider (base) "join_with CHR ''/'' cs = sub" | (below) t where "join_with CHR ''/'' cs = sub @ CHR ''/'' # t"
      using c cs(1) False by (auto simp: pathUnderPrefix_def has_prefix_conv)
    then show ?thesis
    proof cases
      case base
      then have "guestDisplayPath (enginePath p) sub = ''/''"
        using False rel e by (simp add: guestDisplayPath_def trim_prefix_def Let_def)
      then show ?thesis using base cs False path_clean_trailing [of sub]
        by (simp add: canonicalizePath_def Let_def hasURLScheme_def)
    next
      case (below t)
      note t = canon_rest [OF cs(2) below]
      have "guestDisplayPath (enginePath p) sub = CHR ''/'' # t"
        using False rel e below t trim_prefix_append [of "sub @ ''/''" t]
        by (auto simp: guestDisplayPath_def guestPathFromRel_def trim_prefix_def [of _ "''/''"] has_prefix_conv Let_def)
      moreover have "CHR 0x00 \<notin> set t" using nul cs(1) below by simp
      moreover have "has_prefix p (CHR ''/'' # sub @ ''/'')" using cs(1) below by (simp add: has_prefix_conv)
      ultimately show ?thesis using False cs below by (simp add: canonicalizePath_def Let_def)
    qed
  qed
qed

lemma normalize_nonempty: "normalizeSubtree v = Inr w \<Longrightarrow> w \<noteq> []"
  by (auto simp: normalizeSubtree_def Let_def split: if_splits)

lemma NewSubtreeMap_Inr:
  assumes "NewSubtreeMap wr rd pv = Inr sm"
  shows "\<exists>w r p. subtree_For sm IntentWrite = w \<and> subtree_For sm IntentRead = r \<and> subtree_For sm IntentPreview = p \<and>
    w \<noteq> [] \<and> r \<noteq> [] \<and> p \<noteq> [] \<and> \<not> subtreesOverlap w r \<and> \<not> subtreesOverlap w p"
  using assms
  by (auto simp: NewSubtreeMap_def subtree_For_def rbind_def dest: normalize_nonempty split: sum.splits if_splits)

section \<open>Properties\<close>



text \<open>
  Separation of the subtrees: with a subtree map that the constructor accepts, a path
  canonicalised under the write subtree and one canonicalised under the read or the preview
  subtree are never equal and never one inside the other, whatever the guest sends.
\<close>

lemma subtrees_separate:
  assumes "NewSubtreeMap wr rd pv = Inr sm" "i \<in> {IntentRead, IntentPreview}"
    and "canonicalizePath g (subtree_For sm IntentWrite) = Inr p" "canonicalizePath g' (subtree_For sm i) = Inr q"
  shows "\<not> pathUnderPrefix p q \<and> \<not> pathUnderPrefix q p"
proof -
  let ?w = "subtree_For sm IntentWrite" and ?r = "subtree_For sm i"
  have s: "?w \<noteq> []" "?r \<noteq> []" "\<not> subtreesOverlap ?w ?r" using NewSubtreeMap_Inr [OF assms(1)] assms(2) by auto
  have p: "prefix ([] # splitSlash ?w) (split_on CHR ''/'' p)" and q: "prefix ([] # splitSlash ?r) (split_on CHR ''/'' q)"
    using canon_under [OF assms(3)] canon_under [OF assms(4)] s by blast+
  have "prefix ([] # splitSlash ?w) ([] # splitSlash ?r) \<or> prefix ([] # splitSlash ?r) ([] # splitSlash ?w)"
    if "pathUnderPrefix p q \<or> pathUnderPrefix q p"
    using that p q prefix_meet unfolding pathUnderPrefix_comps by (meson prefix_order.order_trans)
  then show ?thesis using s(3) unfolding overlap_iff by auto
qed

end
