(* ===== verification/AuditGate.thy ===== *)
theory AuditGate
  imports HandleDurability "HOL-Library.Sublist"
begin

text \<open>
  The audit gate (\<open>src/internal/auditgate\<close>): the hash-chained JSON-lines sink, its failure latch,
  the chain scan that the constructor and the offline verifier share, and the fan-out of
  committed records to a publisher. SHA-256 is the parameter \<open>H\<close>. The goroutines (request
  handlers that call \<open>Mandate\<close>, the fan-out worker, \<open>Close\<close>) interleave as the steps of
  \<open>sink_reach\<close>. The properties: no acknowledged record is lost by a fault, a crash or a
  restart; no record before the last can be altered unnoticed; every committed record is
  published in commit order or counted as dropped.
\<close>

section \<open>Events\<close>

record ActorSubject =
  UserUID :: string
  SessionUID :: string
  ProcessPID :: "32 word"

record Outcome =
  DispositionID :: string
  XDenyReason :: string

record Metadata =
  md_Version :: string
  md_ProductName :: string

record FileActivityEvent =
  ClassUID :: int
  CategoryUID :: int
  ActivityID :: int
  ev_Time :: i64
  ev_Metadata :: Metadata
  Actor :: ActorSubject
  ev_FilesystemID :: string
  ObjectHandle :: string
  ByteCount :: i64
  ev_Intent :: string
  ev_Downloadable :: bool
  ev_Outcome :: Outcome
  PrevHash :: string
  CorrelationUID :: string
  commitSeq :: nat

definition ActivityCreate :: int where "ActivityCreate = 1"
definition ActivityRead :: int where "ActivityRead = 2"
definition ActivityDelete :: int where "ActivityDelete = 4"
definition ActivityOpen :: int where "ActivityOpen = 14"
definition DispositionAllow :: string where "DispositionAllow = ''allow''"
definition DispositionDeny :: string where "DispositionDeny = ''deny''"

definition omitempty :: "string \<Rightarrow> string \<Rightarrow> (string \<times> json) list" where
  "omitempty k s = (if s = [] then [] else [(k, JStr s)])"

definition actor_json :: "ActorSubject \<Rightarrow> json" where
  "actor_json a = JObj (omitempty ''user_uid'' (UserUID a) @ omitempty ''session_uid'' (SessionUID a) @
     (if ProcessPID a = 0 then [] else [(''process_pid'', json_int (sint (ProcessPID a)))]))"

definition outcome_json :: "Outcome \<Rightarrow> json" where
  "outcome_json r = JObj ((''disposition_id'', JStr (DispositionID r)) # omitempty ''x_deny_reason'' (XDenyReason r))"

definition metadata_json :: "Metadata \<Rightarrow> json" where
  "metadata_json m = JObj [(''version'', JStr (md_Version m)), (''product'', JObj [(''name'', JStr (md_ProductName m))])]"

definition event_members :: "FileActivityEvent \<Rightarrow> (string \<times> json) list" where
  "event_members ev =
     [(''class_uid'', json_int (ClassUID ev)), (''category_uid'', json_int (CategoryUID ev)),
      (''activity_id'', json_int (ActivityID ev)), (''time'', json_int (sint (ev_Time ev))),
      (''metadata'', metadata_json (ev_Metadata ev)), (''actor'', actor_json (Actor ev)),
      (''filesystem_id'', JStr (ev_FilesystemID ev)), (''object_handle'', JStr (ObjectHandle ev)),
      (''byte_count'', json_int (sint (ByteCount ev))), (''intent'', JStr (ev_Intent ev)),
      (''downloadable'', JBool (ev_Downloadable ev)), (''outcome'', outcome_json (ev_Outcome ev)),
      (''prev_hash'', JStr (PrevHash ev))] @ omitempty ''correlation_uid'' (CorrelationUID ev)"

definition event_line :: "FileActivityEvent \<Rightarrow> string" where
  "event_line ev = print_value (JObj (event_members ev))"

section \<open>Chain scan\<close>

definition genesisInput :: string where "genesisInput = ''ocu-audit-genesis-v1''"

definition genesisHash :: "(string \<Rightarrow> string) \<Rightarrow> string" where
  "genesisHash H = H genesisInput"

datatype chain_fault = ChainParse | ChainBroken

definition chain_line :: "(string \<Rightarrow> string) \<Rightarrow> string \<Rightarrow> string \<Rightarrow> chain_fault + string" where
  "chain_line H prev chunk =
     (case Option.bind (json_members chunk) (\<lambda>ms. str_field [] (field_vals ''prev_hash'' ms)) of
        None \<Rightarrow> Inl ChainParse
      | Some ph \<Rightarrow> if ph \<noteq> hex_encode prev then Inl ChainBroken else Inr (H chunk))"

definition chainScan :: "(string \<Rightarrow> string) \<Rightarrow> stream \<Rightarrow> (chain_fault scan_err, string \<times> nat) res" where
  "chainScan H r = scan_lines (chain_line H) (genesisHash H) r"

datatype verify_err = VerifyOpen | VerifyChain "chain_fault scan_err"

text \<open>The file as the verifier finds it: absent, present, or not readable.\<close>

definition Verify :: "(string \<Rightarrow> string) \<Rightarrow> bool \<Rightarrow> string option \<Rightarrow> verify_err option" where
  "Verify H open_err file =
     (case file of
        None \<Rightarrow> None
      | Some bytes \<Rightarrow>
          if open_err then Some VerifyOpen
          else (case chainScan H \<lparr>st_bytes = bytes, st_fault = False\<rparr> of
                  Inl e \<Rightarrow> Some (VerifyChain e) | Inr _ \<Rightarrow> None))"

section \<open>Publisher\<close>

text \<open>\<open>fp_acc\<close> lists the records whose write succeeded, \<open>fp_file\<close> the bytes of the file.\<close>

record FilePublisher =
  fp_file :: string
  fp_closed :: bool
  fp_acc :: "FileActivityEvent list"

definition fan_out_line :: "FileActivityEvent \<Rightarrow> string" where
  "fan_out_line ev = print_value (JObj ((''channel'', JStr ''audit.ingest.object-store'') # event_members ev)) @ [newline]"

text \<open>One call of \<open>Publish\<close>; \<open>n\<close> is the number of bytes a failing write still puts in the file.\<close>

definition Publish :: "nat option \<Rightarrow> FileActivityEvent \<Rightarrow> FilePublisher \<Rightarrow> bool \<times> FilePublisher" where
  "Publish fault ev p =
     (if fp_closed p then (False, p)
      else (case fault of
              Some n \<Rightarrow> (False, p\<lparr>fp_file := fp_file p @ take n (fan_out_line ev)\<rparr>)
            | None \<Rightarrow> (True, p\<lparr>fp_file := fp_file p @ fan_out_line ev, fp_acc := fp_acc p @ [ev]\<rparr>)))"

definition fp_Close :: "FilePublisher \<Rightarrow> FilePublisher" where
  "fp_Close p = p\<lparr>fp_closed := True\<rparr>"

section \<open>Sink\<close>

text \<open>
  \<open>sk_publisher\<close>, \<open>sk_worker\<close> and \<open>sk_owned\<close> are references into the store \<open>sk_pubs\<close> of publisher
  objects: the one \<open>Mandate\<close> fans out to, the one the worker was started with, and the one
  \<open>Close\<close> closes. \<open>sk_q\<close> is the buffer of the channel, \<open>sk_q_open\<close> whether the sink still holds
  its sending end, and \<open>sk_flight\<close> the record the worker has taken and not yet published.
\<close>

record FileSink =
  sk_file :: string
  sk_open :: bool
  sk_failed :: bool
  sk_closed :: bool
  sk_on_latch :: bool
  sk_latch_calls :: nat
  sk_prev :: string
  sk_publisher :: "nat option"
  sk_owned :: "nat option"
  sk_worker :: "nat option"
  sk_pubs :: "nat \<Rightarrow> FilePublisher"
  sk_q :: "FileActivityEvent list"
  sk_q_open :: bool
  sk_flight :: "FileActivityEvent option"
  sk_dropped :: nat
  sk_commitSeq :: nat

datatype audit_err = ErrAuditUnavailable

definition fanOutQueueDepth :: nat where "fanOutQueueDepth = 1024"

definition SetPublisher :: "nat \<Rightarrow> FileSink \<Rightarrow> FileSink" where
  "SetPublisher p s = s\<lparr>sk_publisher := Some p\<rparr>"

definition SetPublisherOwned :: "nat \<Rightarrow> FileSink \<Rightarrow> FileSink" where
  "SetPublisherOwned p s = s\<lparr>sk_publisher := Some p, sk_owned := Some p\<rparr>"

definition SetOnLatch :: "FileSink \<Rightarrow> FileSink" where
  "SetOnLatch s = (if \<not> sk_failed s then s\<lparr>sk_on_latch := True\<rparr> else s)"

definition fanOut :: "nat \<Rightarrow> FileActivityEvent \<Rightarrow> FileSink \<Rightarrow> FileSink" where
  "fanOut p ev s =
     (let s1 = (if sk_worker s = None then s\<lparr>sk_worker := Some p, sk_q := [], sk_q_open := True\<rparr> else s) in
      if \<not> sk_q_open s1 then s1\<lparr>sk_dropped := Suc (sk_dropped s1)\<rparr>
      else if length (sk_q s1) < fanOutQueueDepth then s1\<lparr>sk_q := sk_q s1 @ [ev]\<rparr>
      else s1\<lparr>sk_dropped := Suc (sk_dropped s1)\<rparr>)"

definition sink_latch :: "FileSink \<Rightarrow> FileSink" where
  "sink_latch s = s\<lparr>sk_failed := True, sk_on_latch := False,
     sk_latch_calls := (if sk_on_latch s then Suc (sk_latch_calls s) else sk_latch_calls s)\<rparr>"

text \<open>The event as \<open>Mandate\<close> stamps it.\<close>

definition stamp :: "i64 \<Rightarrow> FileSink \<Rightarrow> FileActivityEvent \<Rightarrow> FileActivityEvent" where
  "stamp now s ev =
     (let m = ev_Metadata ev;
          m1 = (if md_Version m = [] then m\<lparr>md_Version := ''1.1.0''\<rparr> else m);
          m2 = (if md_ProductName m1 = [] then m1\<lparr>md_ProductName := ''ocu-filestore''\<rparr> else m1)
      in ev\<lparr>ev_Time := now, ev_Metadata := m2, PrevHash := hex_encode (sk_prev s)\<rparr>)"

datatype mandate_arg = Activity FileActivityEvent | OtherEvent

definition Mandate :: "(string \<Rightarrow> string) \<Rightarrow> bool \<Rightarrow> i64 \<Rightarrow> append_io \<Rightarrow> mandate_arg \<Rightarrow> FileSink \<Rightarrow>
    (audit_err, unit) res \<times> FileSink" where
  "Mandate H ctx_done now io event s =
     (case event of
        OtherEvent \<Rightarrow> (Inl ErrAuditUnavailable, s)
      | Activity ev0 \<Rightarrow>
          if ctx_done then (Inl ErrAuditUnavailable, s)
          else if sk_failed s \<or> sk_closed s then (Inl ErrAuditUnavailable, s)
          else
            (let ev = stamp now s ev0; line = event_line ev @ [newline] in
             case io of
               WriteFault n \<Rightarrow> (Inl ErrAuditUnavailable, sink_latch (s\<lparr>sk_file := sk_file s @ take n line\<rparr>))
             | SyncFault n \<Rightarrow> (Inl ErrAuditUnavailable, sink_latch (s\<lparr>sk_file := sk_file s @ take n line\<rparr>))
             | AppendOk \<Rightarrow>
                 (let s1 = s\<lparr>sk_file := sk_file s @ line, sk_prev := H line\<rparr> in
                  case sk_publisher s1 of
                    None \<Rightarrow> (Inr (), s1)
                  | Some p \<Rightarrow>
                      (let s2 = s1\<lparr>sk_commitSeq := Suc (sk_commitSeq s1)\<rparr>
                       in (Inr (), fanOut p (ev\<lparr>commitSeq := sk_commitSeq s2\<rparr>) s2)))))"

text \<open>
  \<open>Close\<close> in its two halves: it marks the sink closed and gives up the sending end of the
  channel under the mutex, waits without the mutex for the worker to drain the buffer, and
  then closes the publisher it owns and the file.
\<close>

definition Close_begin :: "FileSink \<Rightarrow> FileSink" where
  "Close_begin s = (if sk_closed s then s else s\<lparr>sk_closed := True, sk_q_open := False\<rparr>)"

definition drained :: "FileSink \<Rightarrow> bool" where
  "drained s = (sk_q s = [] \<and> sk_flight s = None)"

definition Close_end :: "FileSink \<Rightarrow> FileSink" where
  "Close_end s =
     (let s1 = (case sk_owned s of
          None \<Rightarrow> s
        | Some p \<Rightarrow> s\<lparr>sk_pubs := (sk_pubs s)(p := fp_Close (sk_pubs s p)), sk_owned := None\<rparr>)
      in s1\<lparr>sk_open := False\<rparr>)"

definition worker_recv :: "FileSink \<Rightarrow> FileSink" where
  "worker_recv s =
     (case (sk_flight s, sk_q s) of
        (None, ev # q) \<Rightarrow> s\<lparr>sk_flight := Some ev, sk_q := q\<rparr>
      | _ \<Rightarrow> s)"

definition worker_publish :: "nat option \<Rightarrow> FileSink \<Rightarrow> FileSink" where
  "worker_publish fault s =
     (case (sk_flight s, sk_worker s) of
        (Some ev, Some p) \<Rightarrow>
          (let (ok, p') = Publish fault ev (sk_pubs s p);
               s1 = s\<lparr>sk_pubs := (sk_pubs s)(p := p'), sk_flight := None\<rparr>
           in if ok then s1 else s1\<lparr>sk_dropped := Suc (sk_dropped s1)\<rparr>)
      | _ \<Rightarrow> s)"

definition fresh_sink :: "string \<Rightarrow> string \<Rightarrow> FileSink" where
  "fresh_sink bytes prev =
     \<lparr>sk_file = bytes, sk_open = True, sk_failed = False, sk_closed = False, sk_on_latch = False,
      sk_latch_calls = 0, sk_prev = prev, sk_publisher = None, sk_owned = None, sk_worker = None,
      sk_pubs = (\<lambda>_. \<lparr>fp_file = [], fp_closed = False, fp_acc = []\<rparr>), sk_q = [], sk_q_open = False,
      sk_flight = None, sk_dropped = 0, sk_commitSeq = 0\<rparr>"

datatype sink_open_err =
    SinkStat | SinkOpen | SinkSync | SinkDir | SinkReopen | SinkTrunc
  | SinkChain "chain_fault scan_err"

definition NewFileSink :: "(string \<Rightarrow> string) \<Rightarrow> open_env \<Rightarrow> string option \<Rightarrow> (sink_open_err, FileSink) res" where
  "NewFileSink H v file =
     (if oe_stat_err v then Inl SinkStat
      else if oe_open_err v then Inl SinkOpen
      else
        (case file of
           None \<Rightarrow>
             if oe_sync_err v then Inl SinkSync
             else if \<not> sync_dir (oe_dir_open v) (oe_dir_sync v) then Inl SinkDir
             else Inr (fresh_sink [] (genesisHash H))
         | Some bytes \<Rightarrow>
             if bytes = [] then Inr (fresh_sink [] (genesisHash H))
             else if oe_reopen_err v then Inl SinkReopen
             else
               (case chainScan H (read_stream v bytes) of
                  Inl e \<Rightarrow> Inl (SinkChain e)
                | Inr (h, torn) \<Rightarrow>
                    if 0 < torn then
                      if oe_trunc_err v then Inl SinkTrunc
                      else if oe_sync_err v then Inl SinkSync
                      else Inr (fresh_sink (take (length bytes - torn) bytes) h)
                    else Inr (fresh_sink bytes h))))"

section \<open>Interleavings\<close>

text \<open>
  The states a sink can reach from \<open>s0\<close>, with the records it has acknowledged on the way, as
  they were stamped. Every rule is one critical section of a goroutine. The events carry
  valid UTF-8, as everything decoded from a request does.
\<close>

definition wf_event :: "FileActivityEvent \<Rightarrow> bool" where
  "wf_event ev \<longleftrightarrow> list_all valid_utf8
     [md_Version (ev_Metadata ev), md_ProductName (ev_Metadata ev), UserUID (Actor ev), SessionUID (Actor ev),
      ev_FilesystemID ev, ObjectHandle ev, ev_Intent ev, DispositionID (ev_Outcome ev),
      XDenyReason (ev_Outcome ev), PrevHash ev, CorrelationUID ev]"

fun wf_arg :: "mandate_arg \<Rightarrow> bool" where
  "wf_arg (Activity ev) = wf_event ev"
| "wf_arg OtherEvent = True"

inductive sink_reach :: "(string \<Rightarrow> string) \<Rightarrow> FileSink \<Rightarrow> FileActivityEvent list \<Rightarrow> FileSink \<Rightarrow> bool"
  for H :: "string \<Rightarrow> string" and s0 :: FileSink where
  start: "sink_reach H s0 [] s0"
| acked: "sink_reach H s0 acked s \<Longrightarrow> wf_event ev \<Longrightarrow>
    Mandate H ctx_done now io (Activity ev) s = (Inr (), s') \<Longrightarrow> sink_reach H s0 (acked @ [stamp now s ev]) s'"
| refused: "sink_reach H s0 acked s \<Longrightarrow> wf_arg event \<Longrightarrow>
    Mandate H ctx_done now io event s = (Inl e, s') \<Longrightarrow> sink_reach H s0 acked s'"
| on_latch: "sink_reach H s0 acked s \<Longrightarrow> sink_reach H s0 acked (SetOnLatch s)"
| publisher: "sink_reach H s0 acked s \<Longrightarrow> sink_reach H s0 acked (SetPublisher p s)"
| owned: "sink_reach H s0 acked s \<Longrightarrow> sink_reach H s0 acked (SetPublisherOwned p s)"
| recv: "sink_reach H s0 acked s \<Longrightarrow> sink_reach H s0 acked (worker_recv s)"
| publish: "sink_reach H s0 acked s \<Longrightarrow> sink_reach H s0 acked (worker_publish fault s)"
| close_begin: "sink_reach H s0 acked s \<Longrightarrow> sink_reach H s0 acked (Close_begin s)"
| close_end: "sink_reach H s0 acked s \<Longrightarrow> sk_closed s \<Longrightarrow> drained s \<Longrightarrow> sink_reach H s0 acked (Close_end s)"

section \<open>The records read back\<close>

lemma event_names:
  "fold_name ''class_uid'' = ''CLASS_UID''" "fold_name ''category_uid'' = ''CATEGORY_UID''"
  "fold_name ''activity_id'' = ''ACTIVITY_ID''" "fold_name ''time'' = ''TIME''"
  "fold_name ''metadata'' = ''METADATA''" "fold_name ''actor'' = ''ACTOR''"
  "fold_name ''filesystem_id'' = ''FILESYSTEM_ID''" "fold_name ''object_handle'' = ''OBJECT_HANDLE''"
  "fold_name ''byte_count'' = ''BYTE_COUNT''" "fold_name ''intent'' = ''INTENT''"
  "fold_name ''downloadable'' = ''DOWNLOADABLE''" "fold_name ''outcome'' = ''OUTCOME''"
  "fold_name ''prev_hash'' = ''PREV_HASH''" "fold_name ''correlation_uid'' = ''CORRELATION_UID''"
  by (simp_all add: upper_byte_def char_of_def bit_0)

lemma wf_event_json: "wf_event ev \<Longrightarrow> wf_json (JObj (event_members ev))"
  by (simp add: wf_event_def event_members_def metadata_json_def actor_json_def outcome_json_def omitempty_def
      valid_utf8_ascii)

lemma depth_event_json: "json_depth (JObj (event_members ev)) \<le> max_depth"
  by (simp add: event_members_def metadata_json_def actor_json_def outcome_json_def omitempty_def max_depth_def)

lemma prev_hash_field: "field_vals ''prev_hash'' (event_members ev) = [JStr (PrevHash ev)]"
  by (simp add: field_vals_def event_members_def omitempty_def event_names del: fold_name.simps)

lemma event_line_members:
  assumes "wf_event ev"
  shows "json_members (event_line ev @ [newline]) = Some (event_members ev)"
  unfolding event_line_def
  by (rule json_members_print [OF wf_event_json [OF assms] depth_event_json]) (simp add: is_ws_def)

lemma event_line_no_newline: "wf_event ev \<Longrightarrow> newline \<notin> set (event_line ev)"
  using print_printable(1) [OF wf_event_json] by (fastforce simp: event_line_def)

definition linked :: "string \<Rightarrow> FileActivityEvent \<Rightarrow> bool" where
  "linked prev ev \<longleftrightarrow> wf_event ev \<and> PrevHash ev = hex_encode prev"

definition advance :: "(string \<Rightarrow> string) \<Rightarrow> FileActivityEvent \<Rightarrow> string \<Rightarrow> string" where
  "advance H ev prev = H (event_line ev @ [newline])"

lemma chain_line_event:
  "linked prev ev \<Longrightarrow> chain_line H prev (event_line ev @ [newline]) = Inr (advance H ev prev)"
  by (simp add: chain_line_def linked_def advance_def event_line_members prev_hash_field)

interpretation alog: line_log event_line "chain_line H" "advance H" linked for H :: "string \<Rightarrow> string"
  by unfold_locales (simp_all add: chain_line_event event_line_no_newline linked_def)

section \<open>The chain on disk\<close>

definition chain_text :: "FileActivityEvent list \<Rightarrow> string" where
  "chain_text evs = concat (map (\<lambda>ev. event_line ev @ [newline]) evs)"

definition chain_head :: "(string \<Rightarrow> string) \<Rightarrow> FileActivityEvent list \<Rightarrow> string" where
  "chain_head H evs = fold (advance H) evs (genesisHash H)"

fun chain_ok :: "(string \<Rightarrow> string) \<Rightarrow> string \<Rightarrow> FileActivityEvent list \<Rightarrow> bool" where
  "chain_ok H prev [] = True"
| "chain_ok H prev (ev # evs) = (linked prev ev \<and> chain_ok H (advance H ev prev) evs)"

lemma chain_text_eq: "alog.log_text = chain_text"
  by (rule ext) (simp add: chain_text_def alog.log_text_def)

lemma chain_ok_eq: "alog.all_fit H prev evs = chain_ok H prev evs"
  by (induction evs arbitrary: prev) auto

lemma chain_ok_append: "chain_ok H prev (as @ bs) \<longleftrightarrow> chain_ok H prev as \<and> chain_ok H (fold (advance H) as prev) bs"
  using alog.all_fit_append [of H prev as bs] by (simp add: chain_ok_eq)

lemma chain_text_simps [simp]:
  "chain_text [] = []" "chain_text (evs @ [ev]) = chain_text evs @ event_line ev @ [newline]"
  by (simp_all add: chain_text_def)

lemma chain_text_Nil_iff: "chain_text evs = [] \<longleftrightarrow> evs = []"
  by (cases evs) (auto simp: chain_text_def)

lemma wf_stamp: "wf_event ev \<Longrightarrow> wf_event (stamp now s ev)"
  by (simp add: wf_event_def stamp_def Let_def valid_utf8_hex valid_utf8_ascii)

lemma linked_stamp: "wf_event ev \<Longrightarrow> linked (sk_prev s) (stamp now s ev)"
  using wf_stamp [of ev now s] by (simp add: linked_def stamp_def Let_def)

definition torn_tail :: "string \<Rightarrow> string \<Rightarrow> bool" where
  "torn_tail prev t \<longleftrightarrow> (\<exists>ev n. linked prev ev \<and> t = take n (event_line ev @ [newline]))"

definition blank_event :: FileActivityEvent where
  "blank_event = \<lparr>ClassUID = 1001, CategoryUID = 1, ActivityID = ActivityRead, ev_Time = 0,
     ev_Metadata = \<lparr>md_Version = [], md_ProductName = []\<rparr>,
     Actor = \<lparr>UserUID = [], SessionUID = [], ProcessPID = 0\<rparr>,
     ev_FilesystemID = [], ObjectHandle = [], ByteCount = 0, ev_Intent = [], ev_Downloadable = False,
     ev_Outcome = \<lparr>DispositionID = [], XDenyReason = []\<rparr>, PrevHash = [], CorrelationUID = [], commitSeq = 0\<rparr>"

lemma wf_blank_event: "wf_event blank_event"
  by (simp add: wf_event_def blank_event_def)

lemma torn_tail_Nil: "torn_tail prev []"
proof -
  have "linked prev (blank_event\<lparr>PrevHash := hex_encode prev\<rparr>)"
    using wf_blank_event by (simp add: linked_def wf_event_def valid_utf8_hex)
  then show ?thesis unfolding torn_tail_def by (metis take0)
qed

definition sink_inv :: "(string \<Rightarrow> string) \<Rightarrow> FileActivityEvent list \<Rightarrow> FileSink \<Rightarrow> bool" where
  "sink_inv H acked s \<longleftrightarrow> chain_ok H (genesisHash H) acked \<and> sk_prev s = chain_head H acked \<and>
     (\<exists>t. sk_file s = chain_text acked @ t \<and> (t = [] \<or> sk_failed s \<and> torn_tail (sk_prev s) t))"

lemma fanOut_chain [simp]:
  "sk_file (fanOut p ev s) = sk_file s" "sk_prev (fanOut p ev s) = sk_prev s" "sk_failed (fanOut p ev s) = sk_failed s"
  by (simp_all add: fanOut_def Let_def)

lemma Mandate_Inr:
  assumes "Mandate H d now io (Activity ev) s = (Inr (), s')"
  shows "\<not> sk_failed s \<and> \<not> sk_closed s \<and> sk_file s' = sk_file s @ event_line (stamp now s ev) @ [newline] \<and>
    sk_prev s' = advance H (stamp now s ev) (sk_prev s) \<and> \<not> sk_failed s'"
  using assms by (auto simp: Mandate_def Let_def advance_def split: if_splits append_io.splits option.splits)

lemma Mandate_Inl:
  assumes "Mandate H d now io event s = (Inl e, s')" "wf_arg event"
  shows "s' = s \<or> \<not> sk_failed s \<and> sk_failed s' \<and> sk_prev s' = sk_prev s \<and>
    (\<exists>t. sk_file s' = sk_file s @ t \<and> torn_tail (sk_prev s) t)"
proof (cases event)
  case (Activity ev)
  have l: "linked (sk_prev s) (stamp now s ev)" using assms(2) Activity linked_stamp by simp
  have "torn_tail (sk_prev s) (take n (event_line (stamp now s ev) @ [newline]))" for n
    unfolding torn_tail_def using l by blast
  with assms(1) Activity show ?thesis
    by (auto simp: Mandate_def Let_def sink_latch_def simp del: take_append
        split: if_splits append_io.splits option.splits)
qed (use assms in \<open>simp add: Mandate_def\<close>)

lemma sink_inv_same:
  "sink_inv H acked s \<Longrightarrow> sk_file s' = sk_file s \<Longrightarrow> sk_prev s' = sk_prev s \<Longrightarrow> sk_failed s' = sk_failed s \<Longrightarrow>
   sink_inv H acked s'"
  by (auto simp: sink_inv_def)

lemma worker_chain [simp]:
  "sk_file (worker_recv s) = sk_file s" "sk_prev (worker_recv s) = sk_prev s" "sk_failed (worker_recv s) = sk_failed s"
  "sk_file (worker_publish f s) = sk_file s" "sk_prev (worker_publish f s) = sk_prev s"
  "sk_failed (worker_publish f s) = sk_failed s"
  by (auto simp: worker_recv_def worker_publish_def Let_def split: option.splits list.splits prod.splits)

lemma sink_reach_inv:
  assumes "sink_reach H (fresh_sink [] (genesisHash H)) acked s"
  shows "sink_inv H acked s"
  using assms
proof (induction rule: sink_reach.induct)
  case start
  then show ?case by (simp add: sink_inv_def fresh_sink_def chain_head_def)
next
  case (acked acked s ev ctx_done now io s')
  note m = Mandate_Inr [OF acked.hyps(3)]
  have "linked (chain_head H acked) (stamp now s ev)"
    using linked_stamp [OF acked.hyps(2), of s now] acked.IH by (simp add: sink_inv_def)
  then show ?case using m acked.IH
    by (auto simp: sink_inv_def chain_ok_append chain_head_def)
next
  case (refused acked s event ctx_done now io e s')
  from Mandate_Inl [OF refused.hyps(3,2)] show ?case
    using refused.IH by (auto simp: sink_inv_def)
qed (auto elim!: sink_inv_same simp: SetOnLatch_def SetPublisher_def SetPublisherOwned_def Close_begin_def
      Close_end_def Let_def split: option.splits)

lemma chainScan_log:
  assumes "chain_ok H (genesisHash H) evs"
  shows "chainScan H \<lparr>st_bytes = chain_text evs, st_fault = False\<rparr> = Inr (chain_head H evs, 0)"
  using alog.recover_log [of H "genesisHash H" evs] assms
  by (simp add: chainScan_def chain_text_eq chain_ok_eq chain_head_def)

lemma chainScan_crash:
  assumes "chain_ok H (genesisHash H) evs" "linked (chain_head H evs) ev"
  shows "chainScan H \<lparr>st_bytes = chain_text evs @ take n (event_line ev @ [newline]), st_fault = False\<rparr> =
    (if n \<le> length (event_line ev) then Inr (chain_head H evs, n) else Inr (chain_head H (evs @ [ev]), 0))"
  using alog.recover_crash [of H "genesisHash H" evs ev n] assms
  by (simp add: chainScan_def chain_text_eq chain_ok_eq chain_head_def del: take_append)

text \<open>Reopening a chain with a torn tail keeps the chain and at most one further record.\<close>

lemma reopen_torn:
  assumes "chain_ok H (genesisHash H) evs" "torn_tail (chain_head H evs) t"
  shows "\<exists>more. length more \<le> 1 \<and> Verify H False (Some (chain_text evs @ t)) = None \<and>
    NewFileSink H healthy_open (Some (chain_text evs @ t)) =
      Inr (fresh_sink (chain_text (evs @ more)) (chain_head H (evs @ more)))"
proof -
  obtain ev n where t: "linked (chain_head H evs) ev" "t = take n (event_line ev @ [newline])"
    using assms(2) by (auto simp: torn_tail_def)
  note scan = chainScan_crash [OF assms(1) t(1), of n, folded t(2)]
  show ?thesis
  proof (cases "chain_text evs @ t = []")
    case True
    then have "evs = []" "t = []" by (simp_all add: chain_text_Nil_iff)
    then show ?thesis
      using chainScan_log [of H "[]"]
      by (intro exI [of _ "[]"]) (simp add: NewFileSink_def healthy_open_def Verify_def chain_head_def)
  next
    case False
    show ?thesis
    proof (cases "n \<le> length (event_line ev)")
      case True
      then have "length t = n" using t(2) by simp
      then show ?thesis using scan True False
        by (intro exI [of _ "[]"]) (auto simp: NewFileSink_def healthy_open_def read_stream_def Verify_def)
    next
      case False': False
      then have "t = event_line ev @ [newline]" using t(2) by simp
      then show ?thesis using scan False' False
        by (intro exI [of _ "[ev]"]) (auto simp: NewFileSink_def healthy_open_def read_stream_def Verify_def)
    qed
  qed
qed

section \<open>Links between lines\<close>

text \<open>The complete lines of a file, and the link field the scan reads in each.\<close>

function complete_lines :: "string \<Rightarrow> string list" where
  "complete_lines s =
     (case dropWhile (\<lambda>c. c \<noteq> newline) s of
        [] \<Rightarrow> []
      | x # rest \<Rightarrow> (takeWhile (\<lambda>c. c \<noteq> newline) s @ [newline]) # complete_lines rest)"
  by pat_completeness auto
termination
  by (relation "measure length") (auto dest: dropWhile_length_less)

declare complete_lines.simps [simp del]

definition link_of :: "string \<Rightarrow> string option" where
  "link_of l = Option.bind (json_members l) (\<lambda>ms. str_field [] (field_vals ''prev_hash'' ms))"

fun links :: "(string \<Rightarrow> string) \<Rightarrow> string \<Rightarrow> string list \<Rightarrow> bool" where
  "links H prev [] = True"
| "links H prev (l # ls) = (link_of l = Some (hex_encode prev) \<and> links H (H l) ls)"

lemma scan_links: "scan_loop (chain_line H) n prev s fault = Inr r \<Longrightarrow> links H prev (complete_lines s)"
proof (induction "chain_line H" n prev s fault rule: scan_loop.induct)
  case (1 n prev s fault)
  show ?case
  proof (cases "dropWhile (\<lambda>c. c \<noteq> newline) s")
    case Nil
    then show ?thesis by (subst complete_lines.simps) (simp del: dropWhile_eq_Nil_conv)
  next
    case (Cons x rest)
    let ?l = "takeWhile (\<lambda>c. c \<noteq> newline) s @ [newline]"
    obtain h where h: "chain_line H prev ?l = Inr h" "scan_loop (chain_line H) (Suc n) h rest fault = Inr r"
      using 1(2) Cons by (subst (asm) scan_loop.simps) (auto split: sum.splits)
    then have "link_of ?l = Some (hex_encode prev)" "h = H ?l"
      by (auto simp: chain_line_def link_of_def split: option.splits if_splits)
    moreover have "links H h (complete_lines rest)" using 1(1) Cons h by blast
    ultimately show ?thesis using Cons by (subst complete_lines.simps) simp
  qed
qed

lemma complete_lines_newline: "l \<in> set (complete_lines s) \<Longrightarrow> newline \<in> set l"
proof (induction s rule: complete_lines.induct)
  case (1 s)
  show ?case
  proof (cases "dropWhile (\<lambda>c. c \<noteq> newline) s")
    case Nil
    then show ?thesis using 1(2) by (subst (asm) complete_lines.simps) (simp del: dropWhile_eq_Nil_conv)
  next
    case (Cons x rest)
    then show ?thesis using 1 by (subst (asm) complete_lines.simps) auto
  qed
qed

lemma links_snoc: "links H prev (ls @ [l]) \<longleftrightarrow>
    links H prev ls \<and> link_of l = Some (hex_encode (if ls = [] then prev else H (last ls)))"
  by (induction ls arbitrary: prev) auto

text \<open>Two chains with the same last line agree, as far as \<open>H\<close> has no collision among their lines.\<close>

lemma links_unique:
  assumes "links H (H g) xs" "links H (H g) ys" "xs \<noteq> []" "ys \<noteq> []" "last xs = last ys"
    and "inj_on H (insert g (set xs \<union> set ys))" "g \<notin> set xs \<union> set ys"
  shows "xs = ys"
  using assms
proof (induction xs arbitrary: ys rule: rev_induct)
  case (snoc x xs)
  obtain zs where ys: "ys = zs @ [x]" using snoc.prems(4,5) by (metis append_butlast_last_id last_snoc)
  have "hex_encode (if xs = [] then H g else H (last xs)) = hex_encode (if zs = [] then H g else H (last zs))"
    using snoc.prems(1,2) unfolding ys links_snoc by (metis option.inject)
  then have h: "(if xs = [] then H g else H (last xs)) = (if zs = [] then H g else H (last zs))"
    by (rule hex_encode_inject)
  have inj: "inj_on H (insert g (set xs \<union> set zs))" "g \<notin> set xs \<union> set zs"
    using snoc.prems(6,7) unfolding ys by (auto intro: inj_on_subset)
  have lx: "xs \<noteq> [] \<Longrightarrow> last xs \<in> set xs" and lz: "zs \<noteq> [] \<Longrightarrow> last zs \<in> set zs" by simp_all
  consider "xs = []" "zs = []" | "xs \<noteq> []" "zs \<noteq> []" | "xs = []" "zs \<noteq> []" | "xs \<noteq> []" "zs = []" by blast
  then show ?case
  proof cases
    case 2
    then have "last xs = last zs" using h inj lx lz by (auto dest: inj_onD)
    with 2 snoc.IH [of zs] snoc.prems(1,2) inj show ?thesis unfolding ys links_snoc by simp
  next
    case 3
    then show ?thesis using h inj lz by (auto dest: inj_onD)
  next
    case 4
    then have "H g \<in> H ` set xs" using h lx by (metis image_eqI)
    then show ?thesis using inj by auto
  qed (simp add: ys)
qed simp

lemma complete_lines_line: "newline \<notin> set l \<Longrightarrow> complete_lines (l @ newline # s) = (l @ [newline]) # complete_lines s"
proof -
  assume "newline \<notin> set l"
  then have "dropWhile (\<lambda>c. c \<noteq> newline) (l @ newline # s) = newline # s"
    "takeWhile (\<lambda>c. c \<noteq> newline) (l @ newline # s) = l"
    by (auto intro!: dropWhile_eq_tail_append takeWhile_eq_all_append)
  then show ?thesis by (subst complete_lines.simps) simp
qed

lemma complete_lines_torn: "newline \<notin> set t \<Longrightarrow> complete_lines t = []"
proof -
  assume "newline \<notin> set t"
  then have "dropWhile (\<lambda>c. c \<noteq> newline) t = []" by (auto simp: dropWhile_eq_Nil_conv)
  then show ?thesis by (subst complete_lines.simps) (simp del: dropWhile_eq_Nil_conv)
qed

section \<open>Fan-out accounting\<close>

definition strip :: "FileActivityEvent \<Rightarrow> FileActivityEvent" where
  "strip ev = ev\<lparr>commitSeq := 0\<rparr>"

definition published :: "FileSink \<Rightarrow> FileActivityEvent list" where
  "published s = (case sk_worker s of None \<Rightarrow> [] | Some p \<Rightarrow> fp_acc (sk_pubs s p))"

text \<open>What the publisher has accepted, the worker holds and the channel buffers.\<close>

definition fan_stream :: "FileSink \<Rightarrow> FileActivityEvent list" where
  "fan_stream s = published s @ (case sk_flight s of None \<Rightarrow> [] | Some ev \<Rightarrow> [ev]) @ sk_q s"

definition fan_inv :: "FileActivityEvent list \<Rightarrow> FileSink \<Rightarrow> bool" where
  "fan_inv acked s \<longleftrightarrow>
     length (fan_stream s) + sk_dropped s = sk_commitSeq s \<and>
     subseq (map strip (fan_stream s)) (map strip acked) \<and>
     sorted_wrt (<) (map commitSeq (fan_stream s)) \<and>
     (\<forall>ev\<in>set (fan_stream s). commitSeq ev \<le> sk_commitSeq s) \<and>
     length (sk_q s) \<le> fanOutQueueDepth \<and>
     (sk_worker s = None \<longrightarrow> sk_flight s = None \<and> sk_q s = [] \<and> sk_dropped s = 0 \<and> sk_commitSeq s = 0) \<and>
     (\<forall>p. sk_worker s \<noteq> Some p \<longrightarrow> fp_acc (sk_pubs s p) = [])"

lemma fan_inv_same:
  assumes "fan_inv acked s" "sk_worker s' = sk_worker s" "sk_flight s' = sk_flight s" "sk_q s' = sk_q s"
    "sk_dropped s' = sk_dropped s" "sk_commitSeq s' = sk_commitSeq s" "\<And>p. fp_acc (sk_pubs s' p) = fp_acc (sk_pubs s p)"
  shows "fan_inv acked s'"
proof -
  have "fan_stream s' = fan_stream s"
    using assms(2-4,7) by (simp add: fan_stream_def published_def split: option.splits)
  then show ?thesis using assms by (auto simp: fan_inv_def)
qed

lemma fan_inv_more: "fan_inv acked s \<Longrightarrow> fan_inv (acked @ evs) s"
  by (auto simp: fan_inv_def intro: subseq_order.order_trans)

lemma fan_inv_fanOut:
  assumes "fan_inv acked s" "strip ev' = strip ev" "commitSeq ev' = Suc (sk_commitSeq s)"
  shows "fan_inv (acked @ [ev]) (fanOut p ev' (s\<lparr>sk_commitSeq := Suc (sk_commitSeq s)\<rparr>))"
proof -
  let ?s = "fanOut p ev' (s\<lparr>sk_commitSeq := Suc (sk_commitSeq s)\<rparr>)"
  have "fan_stream ?s = fan_stream s \<and> sk_dropped ?s = Suc (sk_dropped s) \<and> sk_q ?s = sk_q s \<or>
      fan_stream ?s = fan_stream s @ [ev'] \<and> sk_dropped ?s = sk_dropped s \<and> length (sk_q ?s) \<le> fanOutQueueDepth"
    using assms(1)
    by (auto simp: fanOut_def Let_def fan_stream_def published_def fan_inv_def fanOutQueueDepth_def split: option.splits)
  moreover have "sk_worker ?s \<noteq> None" "sk_commitSeq ?s = Suc (sk_commitSeq s)"
    "sk_worker ?s \<noteq> Some r \<Longrightarrow> fp_acc (sk_pubs ?s r) = []" for r
    using assms(1) by (auto simp: fanOut_def Let_def fan_inv_def split: if_splits)
  ultimately show ?thesis
    using assms unfolding fan_inv_def
    by (auto simp: sorted_wrt_append le_Suc_eq less_Suc_eq_le intro: subseq_order.order_trans)
qed

lemma fan_inv_recv: "fan_inv acked s \<Longrightarrow> fan_inv acked (worker_recv s)"
  by (auto simp: fan_inv_def worker_recv_def fan_stream_def published_def split: option.splits list.splits)

lemma fan_inv_drop:
  assumes "fan_inv acked s" "sk_worker s' = sk_worker s" "sk_q s' = sk_q s" "sk_flight s = Some ev"
    "sk_flight s' = None" "sk_commitSeq s' = sk_commitSeq s" "sk_worker s \<noteq> None"
    "\<And>r. sk_worker s \<noteq> Some r \<Longrightarrow> fp_acc (sk_pubs s' r) = fp_acc (sk_pubs s r)"
    "published s' = published s @ [ev] \<and> sk_dropped s' = sk_dropped s \<or>
     published s' = published s \<and> sk_dropped s' = Suc (sk_dropped s)"
  shows "fan_inv acked s'"
  using assms(9)
proof
  assume p: "published s' = published s @ [ev] \<and> sk_dropped s' = sk_dropped s"
  then have "fan_stream s' = fan_stream s" using assms by (simp add: fan_stream_def)
  then show ?thesis using assms p by (auto simp: fan_inv_def)
next
  assume p: "published s' = published s \<and> sk_dropped s' = Suc (sk_dropped s)"
  then have 1: "fan_stream s = published s @ ev # sk_q s" "fan_stream s' = published s @ sk_q s"
    using assms by (simp_all add: fan_stream_def)
  have "subseq (map strip (fan_stream s')) (map strip (fan_stream s))"
    unfolding 1 map_append list.map by (intro list_emb_append_mono list_emb_Cons) simp_all
  then show ?thesis
    using assms p unfolding fan_inv_def 1
    by (auto simp: sorted_wrt_append intro: subseq_order.order_trans)
qed

lemma fan_inv_publish: "fan_inv acked s \<Longrightarrow> fan_inv acked (worker_publish fault s)"
proof -
  assume inv: "fan_inv acked s"
  show ?thesis
  proof (cases "sk_flight s")
    case None
    then show ?thesis using inv by (simp add: worker_publish_def)
  next
    case (Some ev)
    then obtain p where p: "sk_worker s = Some p" using inv by (cases "sk_worker s") (auto simp: fan_inv_def)
    obtain ok p' where pub: "Publish fault ev (sk_pubs s p) = (ok, p')" by fastforce
    then have "fp_acc p' = (if ok then fp_acc (sk_pubs s p) @ [ev] else fp_acc (sk_pubs s p))"
      by (auto simp: Publish_def split: if_splits option.splits)
    then show ?thesis
      by (intro fan_inv_drop [OF inv, of _ ev]) (auto simp: worker_publish_def Some p pub published_def Let_def)
  qed
qed

lemma fan_inv_Mandate:
  assumes "fan_inv acked s" "Mandate H d now io (Activity ev) s = (Inr (), s')"
  shows "fan_inv (acked @ [stamp now s ev]) s'"
proof -
  let ?e = "stamp now s ev"
  let ?s = "s\<lparr>sk_file := sk_file s @ event_line ?e @ [newline], sk_prev := H (event_line ?e @ [newline])\<rparr>"
  have inv: "fan_inv acked ?s" by (rule fan_inv_same [OF assms(1)]) simp_all
  show ?thesis
  proof (cases "sk_publisher s")
    case None
    then have "s' = ?s"
      using assms(2) by (auto simp: Mandate_def Let_def split: if_splits append_io.splits)
    then show ?thesis using fan_inv_more [OF inv] by simp
  next
    case (Some p)
    then have "s' = fanOut p (?e\<lparr>commitSeq := Suc (sk_commitSeq ?s)\<rparr>) (?s\<lparr>sk_commitSeq := Suc (sk_commitSeq ?s)\<rparr>)"
      using assms(2) by (auto simp: Mandate_def Let_def split: if_splits append_io.splits)
    then show ?thesis by (simp only:) (rule fan_inv_fanOut [OF inv], simp_all add: strip_def)
  qed
qed

lemma sink_reach_fan_inv:
  assumes "sink_reach H (fresh_sink bytes prev) acked s"
  shows "fan_inv acked s"
  using assms
proof (induction rule: sink_reach.induct)
  case start
  then show ?case by (simp add: fan_inv_def fresh_sink_def fan_stream_def published_def)
next
  case (acked acked s ev ctx_done now io s')
  then show ?case using fan_inv_Mandate by blast
next
  case (refused acked s event ctx_done now io e s')
  then show ?case
    by (auto elim!: fan_inv_same simp: Mandate_def sink_latch_def Let_def
        split: mandate_arg.splits if_splits append_io.splits option.splits)
next
  case (close_end acked s)
  then show ?case
    by (auto elim!: fan_inv_same simp: Close_end_def fp_Close_def Let_def split: option.splits)
qed (auto elim!: fan_inv_same simp: fan_inv_recv fan_inv_publish SetOnLatch_def SetPublisher_def
      SetPublisherOwned_def Close_begin_def)

section \<open>Properties\<close>

text \<open>
  C8. No acknowledged record is ever lost: in every interleaving of mandates (with any write or
  sync fault), fan-out, publisher changes and shutdown, and with the machine stopping after
  any number of bytes of a further record, the file holds the acknowledged records in order;
  the constructor accepts it, the verifier finds the chain intact, and what is recovered is
  the acknowledged records followed by at most one record that was still in progress.
\<close>

theorem audit_no_loss:
  assumes "sink_reach H (fresh_sink [] (genesisHash H)) acked s"
    and "disk = sk_file s \<or> \<not> sk_failed s \<and> wf_event ev \<and>
      disk = sk_file s @ take n (event_line (stamp now s ev) @ [newline])"
  shows "\<exists>more. length more \<le> 1 \<and> Verify H False (Some disk) = None \<and>
    NewFileSink H healthy_open (Some disk) =
      Inr (fresh_sink (chain_text (acked @ more)) (chain_head H (acked @ more)))"
proof -
  from sink_reach_inv [OF assms(1)] obtain t where inv: "chain_ok H (genesisHash H) acked"
    "sk_prev s = chain_head H acked" "sk_file s = chain_text acked @ t"
    "t = [] \<or> sk_failed s \<and> torn_tail (sk_prev s) t" by (auto simp: sink_inv_def)
  have "\<exists>t'. disk = chain_text acked @ t' \<and> torn_tail (chain_head H acked) t'"
    using assms(2)
  proof
    assume "disk = sk_file s"
    then show ?thesis using inv torn_tail_Nil by auto
  next
    assume a: "\<not> sk_failed s \<and> wf_event ev \<and> disk = sk_file s @ take n (event_line (stamp now s ev) @ [newline])"
    then have "linked (sk_prev s) (stamp now s ev)" by (simp add: linked_stamp)
    then show ?thesis using inv a unfolding torn_tail_def by auto
  qed
  then show ?thesis using reopen_torn [OF inv(1)] by blast
qed

definition sample_event :: FileActivityEvent where
  "sample_event = blank_event\<lparr>ev_FilesystemID := ''fs1'', ev_Intent := ''read'', ev_Outcome := \<lparr>DispositionID = ''allow'', XDenyReason = []\<rparr>\<rparr>"

lemma wf_sample_event: "wf_event sample_event"
  by (simp add: wf_event_def sample_event_def blank_event_def valid_utf8_ascii)

text \<open>A sink with a publisher that has acknowledged two records and published the first.\<close>

definition sample_sink0 :: FileSink where
  "sample_sink0 = SetPublisher 0 (fresh_sink [] (genesisHash id))"

definition sample_sink1 :: FileSink where
  "sample_sink1 = snd (Mandate id False 7 AppendOk (Activity sample_event) sample_sink0)"

definition sample_sink2 :: FileSink where
  "sample_sink2 = snd (Mandate id False 8 AppendOk (Activity sample_event) (worker_publish None (worker_recv sample_sink1)))"

lemma Mandate_ok:
  assumes "\<not> sk_failed s" "\<not> sk_closed s"
  shows "Mandate H False now AppendOk (Activity ev) s = (Inr (), snd (Mandate H False now AppendOk (Activity ev) s))"
  using assms by (simp add: Mandate_def Let_def split: option.splits)

lemma sample_healthy:
  "\<not> sk_failed sample_sink0" "\<not> sk_closed sample_sink0" "\<not> sk_failed (worker_publish None (worker_recv sample_sink1))"
  "\<not> sk_closed (worker_publish None (worker_recv sample_sink1))" "\<not> sk_failed sample_sink2"
  by (simp_all add: sample_sink2_def sample_sink1_def sample_sink0_def SetPublisher_def fresh_sink_def Mandate_def Let_def
      fanOut_def worker_publish_def worker_recv_def fanOutQueueDepth_def Publish_def)

lemma sample_reach:
  "sink_reach id (fresh_sink [] (genesisHash id))
     ([] @ [stamp 7 sample_sink0 sample_event] @ [stamp 8 (worker_publish None (worker_recv sample_sink1)) sample_event])
     sample_sink2"
proof -
  have "sink_reach id (fresh_sink [] (genesisHash id)) [] sample_sink0"
    unfolding sample_sink0_def by (rule sink_reach.publisher [OF sink_reach.start])
  from sink_reach.acked [OF this wf_sample_event Mandate_ok [OF sample_healthy(1,2)], of 7]
  have "sink_reach id (fresh_sink [] (genesisHash id)) ([] @ [stamp 7 sample_sink0 sample_event]) sample_sink1"
    unfolding sample_sink1_def .
  from sink_reach.acked [OF sink_reach.publish [OF sink_reach.recv [OF this]] wf_sample_event
      Mandate_ok [OF sample_healthy(3,4)], of 8]
  show ?thesis unfolding sample_sink2_def by simp
qed

theorem audit_no_loss_witness:
  "\<exists>more. length more \<le> 1 \<and>
    Verify id False (Some (sk_file sample_sink2 @ take 5 (event_line (stamp 9 sample_sink2 sample_event) @ [newline]))) = None \<and>
    NewFileSink id healthy_open
        (Some (sk_file sample_sink2 @ take 5 (event_line (stamp 9 sample_sink2 sample_event) @ [newline]))) =
      Inr (fresh_sink
        (chain_text (([] @ [stamp 7 sample_sink0 sample_event] @ [stamp 8 (worker_publish None (worker_recv sample_sink1)) sample_event]) @ more))
        (chain_head id (([] @ [stamp 7 sample_sink0 sample_event] @ [stamp 8 (worker_publish None (worker_recv sample_sink1)) sample_event]) @ more)))"
  by (rule audit_no_loss [OF sample_reach, of _ sample_event 5 9]) (use sample_healthy wf_sample_event in blast)

text \<open>
  C27. Tamper evidence: two files that the verifier accepts and whose last complete lines are
  equal hold the same lines throughout, as long as the hash has no collision among the lines
  of the two files and the genesis input. So with the last line known, no earlier record can
  be changed, inserted, removed or reordered unnoticed.
\<close>

theorem tamper_evident:
  assumes "Verify H False (Some a) = None" "Verify H False (Some b) = None"
    and "complete_lines a \<noteq> []" "complete_lines b \<noteq> []" "last (complete_lines a) = last (complete_lines b)"
    and "inj_on H (insert genesisInput (set (complete_lines a) \<union> set (complete_lines b)))"
  shows "complete_lines a = complete_lines b"
proof -
  have "links H (H genesisInput) (complete_lines f)" if "Verify H False (Some f) = None" for f
    using that scan_links by (fastforce simp: Verify_def chainScan_def scan_lines_def genesisHash_def split: sum.splits)
  moreover have "genesisInput \<notin> set (complete_lines f)" for f
    using complete_lines_newline [of genesisInput f] by (auto simp: genesisInput_def)
  ultimately show ?thesis using assms by (intro links_unique [of H genesisInput]) auto
qed

theorem tamper_evident_witness:
  "complete_lines (sk_file sample_sink1) = complete_lines (sk_file sample_sink1 @ ''{'')"
proof -
  let ?e = "stamp 7 sample_sink0 sample_event"
  have l: "linked (genesisHash id) ?e"
    using linked_stamp [OF wf_sample_event, of sample_sink0 7]
    by (simp add: sample_sink0_def SetPublisher_def fresh_sink_def)
  have f: "sk_file sample_sink1 = chain_text [?e]"
    by (simp add: sample_sink1_def sample_sink0_def SetPublisher_def fresh_sink_def Mandate_def Let_def chain_text_def)
  have ok: "chain_ok id (genesisHash id) [?e]" using l by simp
  have 1: "Verify id False (Some (sk_file sample_sink1)) = None"
    using chainScan_log [OF ok] by (simp add: f Verify_def)
  have "scan_lines (chain_line id) (genesisHash id) \<lparr>st_bytes = chain_text [?e] @ ''{'', st_fault = False\<rparr>
      = Inr (fold (advance id) [?e] (genesisHash id), 1)"
    using alog.recover [of id "genesisHash id" "[?e]" "''{''"] ok by (simp add: chain_text_eq chain_ok_eq)
  then have 2: "Verify id False (Some (sk_file sample_sink1 @ ''{'')) = None"
    by (simp add: f Verify_def chainScan_def)
  have n: "newline \<notin> set (event_line ?e)" using l event_line_no_newline by (simp add: linked_def)
  have 3: "complete_lines (sk_file sample_sink1) = [event_line ?e @ [newline]]"
    "complete_lines (sk_file sample_sink1 @ ''{'') = [event_line ?e @ [newline]]"
    using complete_lines_line [OF n] complete_lines_torn by (simp_all add: f chain_text_def)
  show ?thesis by (rule tamper_evident [OF 1 2]) (simp_all add: 3)
qed

text \<open>
  Fan-out never reorders and never loses silently: in every reachable state the records
  accepted by the publisher, held by the worker and buffered in the channel are, in this
  order, a subsequence of the acknowledged records with increasing commit numbers; together
  with the dropped ones they account for every commit; and the buffer stays within its depth.
\<close>

lemma fan_out_ordered:
  assumes "sink_reach H (fresh_sink bytes prev) acked s"
  shows "subseq (map strip (fan_stream s)) (map strip acked) \<and>
    sorted_wrt (<) (map commitSeq (fan_stream s)) \<and>
    length (fan_stream s) + sk_dropped s = sk_commitSeq s \<and>
    length (sk_q s) \<le> fanOutQueueDepth"
  using sink_reach_fan_inv [OF assms] by (simp add: fan_inv_def)

end
