(* ===== verification/VolumeFS.thy ===== *)
theory VolumeFS
  imports ScopePath "HOL-Library.Sublist"
begin

text \<open>
  The part of the host file system the local-volume engine uses: one scope directory as a
  finite map from component lists to entries, and the calls of \<open>os.Root\<close> and \<open>os\<close> on it with
  their error numbers (\<open>stat\<close>, \<open>mkdir\<close>, \<open>unlink\<close>/\<open>rmdir\<close>, \<open>rename\<close>, \<open>link\<close>, exclusive create,
  write, \<open>readdir\<close>). A scope holds files and directories only; the engine has no call that
  creates a symbolic link below a scope root. The lemmas give each successful call as an
  update of the map and show that a well-formed tree stays well-formed.
\<close>

section \<open>Trees\<close>

datatype entry = EFile string | EDir

type_synonym fpath = "string list"
type_synonym fs = "(fpath \<times> entry) list"

definition fs_at :: "fs \<Rightarrow> fpath \<Rightarrow> entry option" where
  "fs_at t p = (if p = [] then Some EDir else map_of t p)"

definition fs_put :: "fpath \<Rightarrow> entry \<Rightarrow> fs \<Rightarrow> fs" where
  "fs_put p e t = (p, e) # filter (\<lambda>(q, _). q \<noteq> p) t"

definition fs_drop :: "fpath \<Rightarrow> fs \<Rightarrow> fs" where
  "fs_drop p t = filter (\<lambda>(q, _). q \<noteq> p) t"

definition fs_move :: "fpath \<Rightarrow> fpath \<Rightarrow> fs \<Rightarrow> fs" where
  "fs_move src dst t =
     map (\<lambda>(q, e). (dst @ drop (length src) q, e)) (filter (\<lambda>(q, _). prefix src q) t) @
     filter (\<lambda>(q, _). \<not> prefix src q \<and> q \<noteq> dst) t"

text \<open>The error of walking to the parent of a path: the first prefix that is not a directory.\<close>

fun walk_err :: "fs \<Rightarrow> fpath \<Rightarrow> fpath \<Rightarrow> errno option" where
  "walk_err t pre [] = None"
| "walk_err t pre [c] = None"
| "walk_err t pre (c # d # cs) =
     (case fs_at t (pre @ [c]) of
        None \<Rightarrow> Some ENOENT
      | Some (EFile _) \<Rightarrow> Some ENOTDIR
      | Some EDir \<Rightarrow> walk_err t (pre @ [c]) (d # cs))"

definition child_names :: "fs \<Rightarrow> fpath \<Rightarrow> string list" where
  "child_names t p = sort (map last (filter (\<lambda>q. q \<noteq> [] \<and> butlast q = p) (map fst t)))"

section \<open>Calls\<close>

definition sys_stat :: "fpath \<Rightarrow> fs \<Rightarrow> (errno, entry) res" where
  "sys_stat p t =
     (case walk_err t [] p of
        Some e \<Rightarrow> Inl e
      | None \<Rightarrow> (case fs_at t p of None \<Rightarrow> Inl ENOENT | Some e \<Rightarrow> Inr e))"

definition sys_mkdir :: "fpath \<Rightarrow> fs \<Rightarrow> (errno, fs) res" where
  "sys_mkdir p t =
     (case sys_stat p t of
        Inr _ \<Rightarrow> Inl EEXIST
      | Inl e \<Rightarrow> if walk_err t [] p = None then Inr (fs_put p EDir t) else Inl e)"

definition sys_create :: "fpath \<Rightarrow> fs \<Rightarrow> (errno, fs) res" where
  "sys_create p t =
     (case sys_stat p t of
        Inr _ \<Rightarrow> Inl EEXIST
      | Inl e \<Rightarrow> if walk_err t [] p = None then Inr (fs_put p (EFile []) t) else Inl e)"

definition sys_append :: "fpath \<Rightarrow> string \<Rightarrow> fs \<Rightarrow> (errno, fs) res" where
  "sys_append p bytes t =
     (case fs_at t p of
        Some (EFile old) \<Rightarrow> Inr (fs_put p (EFile (old @ bytes)) t)
      | _ \<Rightarrow> Inl EINVAL)"

definition sys_remove :: "fpath \<Rightarrow> fs \<Rightarrow> (errno, fs) res" where
  "sys_remove p t =
     (case sys_stat p t of
        Inl e \<Rightarrow> Inl e
      | Inr (EFile _) \<Rightarrow> Inr (fs_drop p t)
      | Inr EDir \<Rightarrow> if child_names t p \<noteq> [] then Inl ENOTEMPTY else Inr (fs_drop p t))"

definition sys_link :: "fpath \<Rightarrow> fpath \<Rightarrow> fs \<Rightarrow> (errno, fs) res" where
  "sys_link src dst t =
     (case sys_stat src t of
        Inl e \<Rightarrow> Inl e
      | Inr e \<Rightarrow>
          (case sys_stat dst t of
             Inr _ \<Rightarrow> Inl EEXIST
           | Inl d \<Rightarrow>
               if walk_err t [] dst \<noteq> None then Inl d
               else (case e of EDir \<Rightarrow> Inl EPERM | EFile b \<Rightarrow> Inr (fs_put dst (EFile b) t))))"

definition rename_refused :: "entry \<Rightarrow> entry \<Rightarrow> bool \<Rightarrow> errno option" where
  "rename_refused s d nonempty =
     (case (s, d) of
        (EFile _, EFile _) \<Rightarrow> None
      | (EFile _, EDir) \<Rightarrow> Some EISDIR
      | (EDir, EFile _) \<Rightarrow> Some ENOTDIR
      | (EDir, EDir) \<Rightarrow> if nonempty then Some ENOTEMPTY else None)"

definition sys_rename :: "fpath \<Rightarrow> fpath \<Rightarrow> fs \<Rightarrow> (errno, fs) res" where
  "sys_rename src dst t =
     (case sys_stat src t of
        Inl e \<Rightarrow> Inl e
      | Inr s \<Rightarrow>
          if walk_err t [] dst \<noteq> None then Inl (the (walk_err t [] dst))
          else if src = dst then Inr t
          else if prefix src dst then Inl EINVAL
          else if prefix dst src then Inl ENOTEMPTY
          else (case fs_at t dst of
                  None \<Rightarrow> Inr (fs_move src dst t)
                | Some d \<Rightarrow>
                    (case rename_refused s d (child_names t dst \<noteq> []) of
                       Some e \<Rightarrow> Inl e
                     | None \<Rightarrow> Inr (fs_move src dst t))))"

definition sys_readdir :: "fpath \<Rightarrow> fs \<Rightarrow> (errno, string list) res" where
  "sys_readdir p t =
     (case sys_stat p t of
        Inl e \<Rightarrow> Inl e
      | Inr (EFile _) \<Rightarrow> Inl ENOTDIR
      | Inr EDir \<Rightarrow> Inr (child_names t p))"

text \<open>
  \<open>fs.ReadDir\<close> on \<open>root.FS()\<close> first refuses a name that \<open>fs.ValidPath\<close> rejects; on a cleaned
  relative path that is exactly a name that is not well-formed UTF-8.
\<close>

definition rootfs_readdir :: "fpath \<Rightarrow> fs \<Rightarrow> (errno, string list) res" where
  "rootfs_readdir p t =
     (if \<not> valid_utf8 (join_with CHR ''/'' p) then Inl EINVAL else sys_readdir p t)"

section \<open>Well-formed trees\<close>

definition fs_wf :: "fs \<Rightarrow> bool" where
  "fs_wf t \<longleftrightarrow> distinct (map fst t) \<and>
     (\<forall>p\<in>set (map fst t). p \<noteq> [] \<and> list_all plain_comp p \<and> fs_at t (butlast p) = Some EDir)"

lemma fs_wf_Nil [simp]: "fs_wf []"
  by (simp add: fs_wf_def)

lemma fs_at_Nil [simp]: "fs_at t [] = Some EDir"
  by (simp add: fs_at_def)

lemma fs_at_empty: "fs_at [] p = (if p = [] then Some EDir else None)"
  by (simp add: fs_at_def)

lemma map_of_filter_key: "map_of (filter (\<lambda>(q, _). P q) t) p = (if P p then map_of t p else None)"
  by (induction t) auto

lemma fs_at_put: "p \<noteq> [] \<Longrightarrow> fs_at (fs_put p e t) q = (if q = p then Some e else fs_at t q)"
  by (simp add: fs_at_def fs_put_def map_of_filter_key)

lemma fs_at_drop: "p \<noteq> [] \<Longrightarrow> fs_at (fs_drop p t) q = (if q = p then None else fs_at t q)"
  by (simp add: fs_at_def fs_drop_def map_of_filter_key)

lemma map_of_shift:
  "map_of (map (\<lambda>(q, e). (dst @ drop (length src) q, e)) (filter (\<lambda>(q, _). prefix src q) t)) p =
     (if prefix dst p then map_of t (src @ drop (length dst) p) else None)"
proof (induction t)
  case (Cons x t)
  obtain q e where x: "x = (q, e)" by (cases x)
  show ?case
  proof (cases "prefix src q")
    case True
    then obtain u where u: "q = src @ u" by (auto simp: prefix_def)
    show ?thesis using Cons x u by (auto simp: prefix_def)
  next
    case False
    then have "src @ v \<noteq> q" for v by (auto simp: prefix_def)
    with Cons x False show ?thesis by auto
  qed
qed simp

lemma fs_at_move:
  assumes "src \<noteq> []" "dst \<noteq> []" "\<not> prefix dst src" "\<not> prefix src dst"
    "\<And>u. u \<noteq> [] \<Longrightarrow> fs_at t (dst @ u) = None" "fs_at t src \<noteq> None"
  shows "fs_at (fs_move src dst t) p =
    (if prefix dst p then fs_at t (src @ drop (length dst) p) else if prefix src p then None else fs_at t p)"
proof (cases "p = []")
  case False
  show ?thesis
  proof (cases "prefix dst p")
    case True
    then obtain u where u: "p = dst @ u" by (auto simp: prefix_def)
    have "map_of t (src @ u) = None \<Longrightarrow> (if \<not> prefix src p \<and> p \<noteq> dst then map_of t p else None) = None"
      using assms(5) [of u] assms(2) u by (auto simp: fs_at_def)
    moreover have "src @ u \<noteq> []" using assms(1) by simp
    ultimately show ?thesis
      using u assms(2) False
      by (auto simp: fs_at_def fs_move_def map_of_shift map_of_filter_key map_add_def split: option.splits)
  next
    case False
    with \<open>p \<noteq> []\<close> show ?thesis
      by (auto simp: fs_at_def fs_move_def map_of_shift map_of_filter_key map_add_def)
  qed
qed (use assms in auto)

lemma fs_wfD:
  assumes "fs_wf t" "fs_at t p = Some e" "p \<noteq> []"
  shows "list_all plain_comp p" "fs_at t (butlast p) = Some EDir"
proof -
  have "p \<in> set (map fst t)"
    using assms(2,3) by (auto simp: fs_at_def dest!: map_of_SomeD intro: rev_image_eqI)
  with assms(1) show "list_all plain_comp p" "fs_at t (butlast p) = Some EDir"
    by (auto simp: fs_wf_def)
qed

lemma fs_wf_ancestor:
  "fs_wf t \<Longrightarrow> fs_at t (p @ q) \<noteq> None \<Longrightarrow> q \<noteq> [] \<Longrightarrow> fs_at t p = Some EDir"
proof (induction q rule: rev_induct)
  case (snoc c q)
  then obtain e where "fs_at t (p @ q @ [c]) = Some e" by auto
  with snoc.prems(1) have d: "fs_at t (p @ q) = Some EDir"
    using fs_wfD(2) [of t "p @ q @ [c]" e] by (simp add: butlast_append)
  then show ?case using snoc by (cases "q = []") auto
qed simp

lemma walk_err_None_iff:
  "fs_wf t \<Longrightarrow> cs \<noteq> [] \<Longrightarrow> fs_at t pre = Some EDir \<Longrightarrow>
    walk_err t pre cs = None \<longleftrightarrow> fs_at t (pre @ butlast cs) = Some EDir"
proof (induction t pre cs rule: walk_err.induct)
  case (3 t pre c d cs)
  have "fs_at t (pre @ [c]) = Some EDir" if a: "fs_at t (pre @ butlast (c # d # cs)) = Some EDir"
  proof (cases "butlast (d # cs) = []")
    case True
    with a show ?thesis by (simp split: if_splits)
  next
    case False
    have "pre @ butlast (c # d # cs) = (pre @ [c]) @ butlast (d # cs)" by simp
    with a fs_wf_ancestor [OF \<open>fs_wf t\<close> _ False, of "pre @ [c]"] show ?thesis by simp
  qed
  with 3 show ?case by (auto split: option.splits entry.splits)
qed auto

lemma walk_ok: "fs_wf t \<Longrightarrow> p \<noteq> [] \<Longrightarrow> walk_err t [] p = None \<longleftrightarrow> fs_at t (butlast p) = Some EDir"
  using walk_err_None_iff [of t p "[]"] by simp

lemma sys_stat_Inr: "fs_wf t \<Longrightarrow> sys_stat p t = Inr e \<longleftrightarrow> fs_at t p = Some e"
proof (cases "p = []")
  case False
  assume wf: "fs_wf t"
  have "fs_at t p = Some e \<Longrightarrow> walk_err t [] p = None"
    using wf fs_wfD(2) [OF wf _ False] walk_ok [OF wf False] by simp
  then show ?thesis by (auto simp: sys_stat_def split: option.splits)
qed (auto simp: sys_stat_def)

lemma sys_stat_Inl: "fs_wf t \<Longrightarrow> sys_stat p t = Inl e \<Longrightarrow> fs_at t p = None"
  by (metis option.exhaust sys_stat_Inr sum.distinct(1))

lemma sys_stat_ENOENT: "fs_wf t \<Longrightarrow> p \<noteq> [] \<Longrightarrow> fs_at t (butlast p) = Some EDir \<Longrightarrow> fs_at t p = None \<Longrightarrow> sys_stat p t = Inl ENOENT"
  using walk_ok [of t p] by (simp add: sys_stat_def)

lemma child_names_Nil_iff: "child_names t p = [] \<longleftrightarrow> (\<forall>q\<in>set (map fst t). q \<noteq> [] \<longrightarrow> butlast q \<noteq> p)"
proof -
  have "child_names t p = [] \<longleftrightarrow> set (child_names t p) = {}" by simp
  also have "\<dots> \<longleftrightarrow> filter (\<lambda>q. q \<noteq> [] \<and> butlast q = p) (map fst t) = []"
    by (simp only: child_names_def set_sort set_map image_is_empty set_empty)
  finally show ?thesis by (simp only: filter_empty_conv) blast
qed

lemma fs_at_keys: "fs_at t p \<noteq> None \<longleftrightarrow> p = [] \<or> p \<in> set (map fst t)"
  using map_of_eq_None_iff [of t p] by (auto simp: fs_at_def)

lemma no_children_below:
  assumes wf: "fs_wf t" and ch: "child_names t p = []" and u: "u \<noteq> []"
  shows "fs_at t (p @ u) = None"
proof (rule ccontr)
  assume "fs_at t (p @ u) \<noteq> None"
  moreover obtain c v where cv: "u = c # v" using u by (cases u) auto
  ultimately have "fs_at t (p @ [c]) \<noteq> None"
    using fs_wf_ancestor [OF wf, of "p @ [c]" v] by (cases "v = []") auto
  then have "p @ [c] \<in> set (map fst t)" using fs_at_keys by auto
  then have "butlast (p @ [c]) \<noteq> p" using ch unfolding child_names_Nil_iff by blast
  then show False by simp
qed

lemma file_no_below: "fs_wf t \<Longrightarrow> fs_at t p = Some (EFile b) \<Longrightarrow> u \<noteq> [] \<Longrightarrow> fs_at t (p @ u) = None"
  using fs_wf_ancestor [of t p u] by (cases "fs_at t (p @ u)") auto

lemma child_names_mem: "fs_wf t \<Longrightarrow> c \<in> set (child_names t p) \<longleftrightarrow> fs_at t (p @ [c]) \<noteq> None"
proof
  assume wf: "fs_wf t" and "c \<in> set (child_names t p)"
  then obtain q where "q \<in> set (map fst t)" "q \<noteq> []" "butlast q = p" "last q = c"
    by (auto simp: child_names_def)
  then have "p @ [c] \<in> set (map fst t)" by (metis append_butlast_last_id)
  then show "fs_at t (p @ [c]) \<noteq> None" using fs_at_keys by blast
next
  assume "fs_at t (p @ [c]) \<noteq> None"
  then have "p @ [c] \<in> set (map fst t)" using fs_at_keys [of t "p @ [c]"] by auto
  then have "p @ [c] \<in> set (filter (\<lambda>q. q \<noteq> [] \<and> butlast q = p) (map fst t))" by simp
  then have "last (p @ [c]) \<in> set (map last (filter (\<lambda>q. q \<noteq> [] \<and> butlast q = p) (map fst t)))"
    unfolding set_map by (rule imageI)
  then show "c \<in> set (child_names t p)" by (simp add: child_names_def)
qed

text \<open>Each update keeps a tree well-formed under the conditions its call has checked.\<close>

lemma fs_wf_iff:
  "fs_wf t \<longleftrightarrow> distinct (map fst t) \<and> [] \<notin> set (map fst t) \<and>
     (\<forall>p. p \<noteq> [] \<longrightarrow> fs_at t p \<noteq> None \<longrightarrow> list_all plain_comp p \<and> fs_at t (butlast p) = Some EDir)"
proof (intro iffI conjI allI impI)
  assume wf: "fs_wf t"
  then show "distinct (map fst t)" "[] \<notin> set (map fst t)" unfolding fs_wf_def by blast+
  fix p assume "p \<noteq> []" "fs_at t p \<noteq> None"
  then have "p \<in> set (map fst t)" using fs_at_keys [of t p] by simp
  with wf show "list_all plain_comp p" "fs_at t (butlast p) = Some EDir" unfolding fs_wf_def by blast+
next
  assume r: "distinct (map fst t) \<and> [] \<notin> set (map fst t) \<and>
    (\<forall>p. p \<noteq> [] \<longrightarrow> fs_at t p \<noteq> None \<longrightarrow> list_all plain_comp p \<and> fs_at t (butlast p) = Some EDir)"
  have "p \<noteq> [] \<and> list_all plain_comp p \<and> fs_at t (butlast p) = Some EDir" if "p \<in> set (map fst t)" for p
  proof -
    have "p \<noteq> []" using r that by metis
    moreover have "fs_at t p \<noteq> None" using fs_at_keys [of t p] that by simp
    ultimately show ?thesis using r by simp
  qed
  with r show "fs_wf t" unfolding fs_wf_def by blast
qed

lemma distinct_filter_keys: "distinct (map fst t) \<Longrightarrow> distinct (map fst (filter P t))"
  by (induction t) auto

lemma fs_wf_put:
  assumes wf: "fs_wf t" and p: "p \<noteq> []" "list_all plain_comp p" "fs_at t (butlast p) = Some EDir"
    and e: "e = EDir \<or> (\<forall>u. u \<noteq> [] \<longrightarrow> fs_at t (p @ u) = None)"
  shows "fs_wf (fs_put p e t)"
proof -
  have d: "distinct (map fst (fs_put p e t))" "[] \<notin> set (map fst (fs_put p e t))"
    using wf p(1) by (auto simp: fs_put_def fs_wf_def distinct_filter_keys)
  have "list_all plain_comp q \<and> fs_at (fs_put p e t) (butlast q) = Some EDir"
    if q: "q \<noteq> []" "fs_at (fs_put p e t) q \<noteq> None" for q
  proof (cases "q = p")
    case True
    moreover have "butlast p \<noteq> p" using p(1) by (metis append_butlast_last_id append_self_conv list.distinct(1))
    ultimately show ?thesis using p by (simp add: fs_at_put)
  next
    case False
    with q p(1) have old: "fs_at t q \<noteq> None" by (simp add: fs_at_put)
    then have par: "list_all plain_comp q" "fs_at t (butlast q) = Some EDir"
      using fs_wfD [OF wf] q(1) by auto
    have "butlast q = p \<Longrightarrow> e = EDir"
      using e old q(1) by (metis append_butlast_last_id list.distinct(1))
    with par p(1) show ?thesis by (simp add: fs_at_put)
  qed
  with d show ?thesis by (simp add: fs_wf_iff)
qed

lemma fs_wf_drop:
  assumes wf: "fs_wf t" and p: "p \<noteq> []" and below: "\<And>u. u \<noteq> [] \<Longrightarrow> fs_at t (p @ u) = None"
  shows "fs_wf (fs_drop p t)"
proof -
  have d: "distinct (map fst (fs_drop p t))" "[] \<notin> set (map fst (fs_drop p t))"
    using wf by (auto simp: fs_drop_def fs_wf_def distinct_filter_keys)
  have "list_all plain_comp q \<and> fs_at (fs_drop p t) (butlast q) = Some EDir"
    if q: "q \<noteq> []" "fs_at (fs_drop p t) q \<noteq> None" for q
  proof -
    from q p have old: "fs_at t q \<noteq> None" by (auto simp: fs_at_drop split: if_splits)
    then have "list_all plain_comp q" "fs_at t (butlast q) = Some EDir" using fs_wfD [OF wf] q(1) by auto
    moreover have "butlast q \<noteq> p" using below [of "[last q]"] old q(1) by auto
    ultimately show ?thesis using p by (simp add: fs_at_drop)
  qed
  with d show ?thesis by (simp add: fs_wf_iff)
qed

lemma distinct_fs_move:
  assumes "distinct (map fst t)" "\<And>u. u \<noteq> [] \<Longrightarrow> dst @ u \<notin> set (map fst t)"
  shows "distinct (map fst (fs_move src dst t))"
proof -
  let ?mv = "filter (\<lambda>(q, _). prefix src q) t" and ?f = "\<lambda>q. dst @ drop (length src) q"
  have "inj_on ?f (set (map fst ?mv))"
    by (rule inj_onI) (auto simp: prefix_def)
  then have d1: "distinct (map ?f (map fst ?mv))"
    using distinct_filter_keys [OF assms(1)] by (simp only: distinct_map [of ?f])
  have keys: "map fst (map (\<lambda>(q, e). (?f q, e)) ?mv) = map ?f (map fst ?mv)"
    by (simp add: case_prod_beta comp_def)
  have "set (map ?f (map fst ?mv)) \<inter> set (map fst (filter (\<lambda>(q, _). \<not> prefix src q \<and> q \<noteq> dst) t)) = {}"
  proof (rule equals0I)
    fix x assume "x \<in> set (map ?f (map fst ?mv)) \<inter> set (map fst (filter (\<lambda>(q, _). \<not> prefix src q \<and> q \<noteq> dst) t))"
    then have "\<exists>u. x = dst @ u" "x \<in> set (map fst t)" "x \<noteq> dst" by auto
    then show False using assms(2) by (metis append_Nil2)
  qed
  then show ?thesis
    unfolding fs_move_def map_append distinct_append keys
    using d1 distinct_filter_keys [OF assms(1)] by blast
qed

lemma fs_wf_move:
  assumes wf: "fs_wf t" and src: "src \<noteq> []" and dst: "dst \<noteq> []" "list_all plain_comp dst"
    and np: "\<not> prefix dst src" "\<not> prefix src dst"
    and par: "fs_at t (butlast dst) = Some EDir" and below: "\<And>u. u \<noteq> [] \<Longrightarrow> fs_at t (dst @ u) = None"
    and ex: "fs_at t src \<noteq> None"
  shows "fs_wf (fs_move src dst t)"
proof -
  note mv = fs_at_move [OF src dst(1) np below ex]
  have pp: "\<not> prefix src (butlast dst)" "\<not> prefix dst (butlast dst)"
  proof -
    have "prefix (butlast dst) dst" by (metis append_butlast_last_id dst(1) prefixI)
    then show "\<not> prefix src (butlast dst)" using np(2) prefix_order.trans by blast
    show "\<not> prefix dst (butlast dst)" using dst(1) prefix_length_le [of dst "butlast dst"] by (cases dst) auto
  qed
  have "list_all plain_comp q \<and> fs_at (fs_move src dst t) (butlast q) = Some EDir"
    if q: "q \<noteq> []" "fs_at (fs_move src dst t) q \<noteq> None" for q
  proof (cases "prefix dst q")
    case True
    then obtain u where u: "q = dst @ u" by (auto simp: prefix_def)
    with q(2) mv have su: "fs_at t (src @ u) \<noteq> None" by simp
    then have pl: "list_all plain_comp (src @ u)" "fs_at t (butlast (src @ u)) = Some EDir"
      using fs_wfD [OF wf, of "src @ u"] src by auto
    show ?thesis
    proof (cases "u = []")
      case True
      with u mv pp par dst(2) show ?thesis by simp
    next
      case False
      have "butlast q = dst @ butlast u" using u False by (simp add: butlast_append)
      with pl u False dst(2) mv show ?thesis by (simp add: butlast_append)
    qed
  next
    case False
    with q(2) mv have ns: "\<not> prefix src q" "fs_at t q \<noteq> None" by (auto split: if_splits)
    then have pl: "list_all plain_comp q" "fs_at t (butlast q) = Some EDir" using fs_wfD [OF wf] q(1) by auto
    have "prefix (butlast q) q" by (metis append_butlast_last_id q(1) prefixI)
    then have "\<not> prefix src (butlast q)" "\<not> prefix dst (butlast q)"
      using ns(1) False prefix_order.trans by blast+
    with pl mv show ?thesis by simp
  qed
  moreover have "distinct (map fst (fs_move src dst t))"
  proof (rule distinct_fs_move)
    show "distinct (map fst t)" using wf by (simp add: fs_wf_def)
    show "dst @ u \<notin> set (map fst t)" if "u \<noteq> []" for u using below [OF that] fs_at_keys [of t "dst @ u"] by auto
  qed
  moreover have "[] \<notin> set (map fst (fs_move src dst t))"
    using dst(1) wf by (auto simp: fs_move_def fs_wf_def)
  ultimately show ?thesis by (simp add: fs_wf_iff)
qed

section \<open>What a successful call does\<close>

lemma sys_mkdir_Inr:
  assumes "fs_wf t" "p \<noteq> []" "list_all plain_comp p" "sys_mkdir p t = Inr t'"
  shows "fs_at t p = None" "fs_at t (butlast p) = Some EDir" "t' = fs_put p EDir t" "fs_wf t'"
proof -
  have s: "fs_at t p = None" "walk_err t [] p = None" "t' = fs_put p EDir t"
    using assms(4) sys_stat_Inl [OF assms(1), of p] by (auto simp: sys_mkdir_def split: sum.splits if_splits)
  then have b: "fs_at t (butlast p) = Some EDir" using walk_ok [OF assms(1,2)] by simp
  then show "fs_at t p = None" "fs_at t (butlast p) = Some EDir" "t' = fs_put p EDir t" "fs_wf t'"
    using s fs_wf_put [OF assms(1-3) b, of EDir] by auto
qed

lemma no_entry_below: "fs_wf t \<Longrightarrow> fs_at t p = None \<Longrightarrow> fs_at t (p @ u) = None"
  using fs_wf_ancestor [of t p u] by (cases "u = []"; cases "fs_at t (p @ u)") auto

lemma sys_create_Inr:
  assumes "fs_wf t" "p \<noteq> []" "list_all plain_comp p" "sys_create p t = Inr t'"
  shows "fs_at t p = None" "fs_at t (butlast p) = Some EDir" "t' = fs_put p (EFile []) t" "fs_wf t'"
proof -
  have s: "fs_at t p = None" "walk_err t [] p = None" "t' = fs_put p (EFile []) t"
    using assms(4) sys_stat_Inl [OF assms(1), of p] by (auto simp: sys_create_def split: sum.splits if_splits)
  then have b: "fs_at t (butlast p) = Some EDir" using walk_ok [OF assms(1,2)] by simp
  moreover have "fs_at t (p @ u) = None" for u by (rule no_entry_below [OF assms(1) s(1)])
  ultimately show "fs_at t p = None" "fs_at t (butlast p) = Some EDir" "t' = fs_put p (EFile []) t" "fs_wf t'"
    using s fs_wf_put [OF assms(1-3) b, of "EFile []"] by auto
qed

lemma sys_append_Inr:
  assumes "fs_wf t" "p \<noteq> []" "sys_append p bytes t = Inr t'"
  shows "\<exists>old. fs_at t p = Some (EFile old) \<and> t' = fs_put p (EFile (old @ bytes)) t" "fs_wf t'"
proof -
  obtain old where old: "fs_at t p = Some (EFile old)" "t' = fs_put p (EFile (old @ bytes)) t"
    using assms(3) by (auto simp: sys_append_def split: option.splits entry.splits)
  then show "\<exists>old. fs_at t p = Some (EFile old) \<and> t' = fs_put p (EFile (old @ bytes)) t" by blast
  show "fs_wf t'"
    using fs_wf_put [OF assms(1,2) fs_wfD [OF assms(1) old(1) assms(2)]] file_no_below [OF assms(1) old(1)] old(2) by simp
qed

lemma sys_remove_Inr:
  assumes "fs_wf t" "p \<noteq> []" "sys_remove p t = Inr t'"
  shows "fs_at t p \<noteq> None" "\<And>u. u \<noteq> [] \<Longrightarrow> fs_at t (p @ u) = None" "t' = fs_drop p t" "fs_wf t'"
proof -
  obtain e where e: "fs_at t p = Some e" "t' = fs_drop p t" "e = EDir \<longrightarrow> child_names t p = []"
    using assms(3) sys_stat_Inr [OF assms(1), of p]
    by (auto simp: sys_remove_def split: sum.splits entry.splits if_splits)
  then show "fs_at t p \<noteq> None" "t' = fs_drop p t" by auto
  show below: "fs_at t (p @ u) = None" if "u \<noteq> []" for u
    using e(1,3) no_children_below [OF assms(1) _ that] file_no_below [OF assms(1) _ that] by (cases e) auto
  show "fs_wf t'" unfolding e(2) by (rule fs_wf_drop [OF assms(1,2) below])
qed

lemma sys_link_Inr:
  assumes "fs_wf t" "dst \<noteq> []" "list_all plain_comp dst" "sys_link src dst t = Inr t'"
  shows "\<exists>b. fs_at t src = Some (EFile b) \<and> t' = fs_put dst (EFile b) t" "fs_at t dst = None" "fs_wf t'"
proof -
  obtain b where b: "fs_at t src = Some (EFile b)" "fs_at t dst = None" "walk_err t [] dst = None" "t' = fs_put dst (EFile b) t"
    using assms(4) sys_stat_Inr [OF assms(1), of src] sys_stat_Inl [OF assms(1), of dst]
    by (auto simp: sys_link_def split: sum.splits entry.splits if_splits)
  then show "\<exists>b. fs_at t src = Some (EFile b) \<and> t' = fs_put dst (EFile b) t" "fs_at t dst = None" by auto
  have p: "fs_at t (butlast dst) = Some EDir" using walk_ok [OF assms(1,2)] b(3) by simp
  have "fs_at t (dst @ u) = None" for u by (rule no_entry_below [OF assms(1) b(2)])
  with b(4) fs_wf_put [OF assms(1-3) p, of "EFile b"] show "fs_wf t'" by simp
qed

lemma sys_rename_Inr:
  assumes "fs_wf t" "src \<noteq> []" "dst \<noteq> []" "list_all plain_comp dst" "sys_rename src dst t = Inr t'" "src \<noteq> dst"
  shows "fs_at t src \<noteq> None" "\<not> prefix src dst" "\<not> prefix dst src" "\<And>u. u \<noteq> [] \<Longrightarrow> fs_at t (dst @ u) = None"
    "t' = fs_move src dst t" "fs_wf t'" "\<And>d. fs_at t dst = Some d \<Longrightarrow> (d = EDir) = (fs_at t src = Some EDir)"
proof -
  obtain s where s: "fs_at t src = Some s" "walk_err t [] dst = None" "\<not> prefix src dst" "\<not> prefix dst src"
      "t' = fs_move src dst t" and d: "\<And>d. fs_at t dst = Some d \<Longrightarrow> rename_refused s d (child_names t dst \<noteq> []) = None"
    using assms(5,6) sys_stat_Inr [OF assms(1), of src]
    by (auto simp: sys_rename_def split: sum.splits if_splits option.splits)
  then show "fs_at t src \<noteq> None" "\<not> prefix src dst" "\<not> prefix dst src" "t' = fs_move src dst t" by auto
  show below: "fs_at t (dst @ u) = None" if u: "u \<noteq> []" for u
  proof (cases "fs_at t dst")
    case None
    then show ?thesis by (rule no_entry_below [OF assms(1)])
  next
    case (Some e)
    show ?thesis
    proof (cases e)
      case EDir
      with d [OF Some] have "child_names t dst = []" by (auto simp: rename_refused_def split: entry.splits if_splits)
      then show ?thesis by (rule no_children_below [OF assms(1) _ u])
    next
      case (EFile b)
      with Some show ?thesis using file_no_below [OF assms(1) _ u] by simp
    qed
  qed
  show "(e = EDir) = (fs_at t src = Some EDir)" if "fs_at t dst = Some e" for e
    using d [OF that] s(1) by (cases e; cases s) (auto simp: rename_refused_def)
  have "fs_at t (butlast dst) = Some EDir" using walk_ok [OF assms(1,3)] s(2) by simp
  with fs_wf_move [OF assms(1-4) s(4,3) _ below] s show "fs_wf t'" by simp
qed

end
