(* ===== verification/LocalEngine.thy ===== *)
theory LocalEngine
  imports VolumeFS
begin

text \<open>
  The local-volume engine (\<open>src/internal/objectstore/engine_local.go\<close>) over the file system of
  \<open>VolumeFS\<close>: scope provisioning and teardown, and the data verbs with their path guards,
  context checks and atomic staging-and-commit writes. Every system call can fail with an
  I/O error: the state carries a script of fault outcomes, consumed one per call, and a
  context that is cancelled after a given number of consultations, so a statement about all
  states covers every placement of faults and cancellation. Modification times are left out,
  and so is the error branch of \<open>crypto/rand.Read\<close>, which is documented never to fail.
\<close>

section \<open>Engine interface\<close>

record FileInfo =
  fi_name :: string
  fi_size :: nat
  fi_is_dir :: bool

datatype EngineKind = LocalVolume | S3

definition ParseEngine :: "string \<Rightarrow> (store_err, EngineKind) res" where
  "ParseEngine s =
     (if s = ''local-volume'' then Inr LocalVolume
      else if s = ''s3'' then Inr S3
      else Inl ErrUnknownEngine)"

definition isPathEscape :: "store_err \<Rightarrow> bool" where
  "isPathEscape e = (case e of PathError _ \<Rightarrow> True | LinkError _ \<Rightarrow> True | _ \<Rightarrow> False)"

text \<open>\<open>errors.Is(err, fs.ErrNotExist)\<close> and \<open>errors.Is(err, fs.ErrExist)\<close> on a system error.\<close>

definition is_not_exist :: "errno \<Rightarrow> bool" where
  "is_not_exist e = (e = ENOENT)"

definition is_exist :: "errno \<Rightarrow> bool" where
  "is_exist e = (e = EEXIST \<or> e = ENOTEMPTY)"

text \<open>
  A byte stream handed to the engine: the chunks its \<open>Read\<close> calls yield and the error it ends
  with, \<open>None\<close> for \<open>io.EOF\<close>.
\<close>

type_synonym reader = "string list \<times> store_err option"

datatype engine_call =
    CallProvisionScope
  | CallTeardownScope
  | CallList string
  | CallStat string
  | CallMakeDir string
  | CallMoveDir string string bool
  | CallRemoveDir string
  | CallCopyFile string string bool
  | CallMoveFile string string bool
  | CallRemoveFile string
  | CallReadRange string i64 i64
  | CallWriteStream string reader bool

text \<open>
  The reply to \<open>ReadRange\<close> carries the bytes the writer received and the error that ended the
  transfer, if any; an error before the first byte is an error of the call.
\<close>

datatype engine_reply =
    ReplyUnit
  | ReplyInfos "FileInfo list"
  | ReplyInfo FileInfo
  | ReplyRead string "store_err option"
  | ReplyDigest string

type_synonym 's engine = "scope_id \<Rightarrow> engine_call \<Rightarrow> 's \<Rightarrow> (store_err, engine_reply) res \<times> 's"

section \<open>One scope directory with its environment\<close>

record sworld =
  sw_fs :: fs
  sw_ctx :: "nat option"
  sw_faults :: "bool list"
  sw_dirsize :: nat

definition consult :: "sworld \<Rightarrow> bool \<times> sworld" where
  "consult w =
     (case sw_ctx w of
        None \<Rightarrow> (False, w)
      | Some 0 \<Rightarrow> (True, w)
      | Some (Suc n) \<Rightarrow> (False, w\<lparr>sw_ctx := Some n\<rparr>))"

definition fault :: "sworld \<Rightarrow> bool \<times> sworld" where
  "fault w = (case sw_faults w of [] \<Rightarrow> (False, w) | b # bs \<Rightarrow> (b, w\<lparr>sw_faults := bs\<rparr>))"

definition sys_get :: "(fs \<Rightarrow> (errno, 'a) res) \<Rightarrow> sworld \<Rightarrow> (errno, 'a) res \<times> sworld" where
  "sys_get f w = (let (bad, w1) = fault w in (if bad then Inl EIO else f (sw_fs w), w1))"

definition sys_set :: "(fs \<Rightarrow> (errno, fs) res) \<Rightarrow> sworld \<Rightarrow> (errno, unit) res \<times> sworld" where
  "sys_set f w =
     (let (bad, w1) = fault w in
      if bad then (Inl EIO, w1)
      else (case f (sw_fs w) of Inl e \<Rightarrow> (Inl e, w1) | Inr t \<Rightarrow> (Inr (), w1\<lparr>sw_fs := t\<rparr>)))"

definition comps :: "string \<Rightarrow> fpath" where
  "comps clean = split_on CHR ''/'' clean"

section \<open>Atomic writes\<close>

fun base36 :: "nat \<Rightarrow> string" where
  "base36 n =
     (let d = (if n mod 36 < 10 then byte_of (48 + n mod 36) else byte_of (87 + n mod 36)) in
      if n < 36 then [d] else base36 (n div 36) @ [d])"

declare base36.simps [simp del]

definition tmp_path :: "string \<Rightarrow> u64 \<Rightarrow> fpath" where
  "tmp_path cleanDst rnd = [stagingDirName, path_base cleanDst @ ''.tmp.'' @ base36 (unat rnd)]"

text \<open>
  \<open>io.Copy\<close> from a \<open>ctxReader\<close> into the temporary file: the context is consulted before every
  read, also before the read that reports the end. \<open>rd\<close> is the outcome of a read itself.
\<close>

fun copy_loop :: "(sworld \<Rightarrow> bool \<times> sworld) \<Rightarrow> fpath \<Rightarrow> string list \<Rightarrow> store_err option \<Rightarrow> sworld \<Rightarrow>
    (store_err, unit) res \<times> sworld" where
  "copy_loop rd tmp chunks fin w =
     (let (cancelled, w1) = consult w; (bad, w2) = rd w1 in
      if cancelled then (Inl CtxErr, w1)
      else if bad then (Inl (PathError EIO), w2)
      else (case chunks of
              [] \<Rightarrow> (case fin of None \<Rightarrow> (Inr (), w2) | Some e \<Rightarrow> (Inl e, w2))
            | c # cs \<Rightarrow>
                (case sys_set (sys_append tmp c) w2 of
                   (Inl e, w3) \<Rightarrow> (Inl (PathError e), w3)
                 | (Inr _, w3) \<Rightarrow> copy_loop rd tmp cs fin w3)))"

declare copy_loop.simps [simp del]

definition commit_tmp :: "fpath \<Rightarrow> fpath \<Rightarrow> bool \<Rightarrow> sworld \<Rightarrow> (store_err, unit) res \<times> bool \<times> sworld" where
  "commit_tmp tmp dst replace w =
     (if \<not> replace then
        (case sys_set (sys_link tmp dst) w of
           (Inl e, w1) \<Rightarrow> (Inl (if is_exist e then ErrAlreadyExists else LinkError e), True, w1)
         | (Inr _, w1) \<Rightarrow> (Inr (), True, w1))
      else
        (case sys_set (sys_rename tmp dst) w of
           (Inl e, w1) \<Rightarrow> (Inl (LinkError e), True, w1)
         | (Inr _, w1) \<Rightarrow> (Inr (), False, w1)))"

text \<open>Copy, \<open>Sync\<close>, \<open>Close\<close> and commit; the flag is the \<open>cleanup\<close> variable at the return.\<close>

definition write_body :: "(sworld \<Rightarrow> bool \<times> sworld) \<Rightarrow> fpath \<Rightarrow> fpath \<Rightarrow> reader \<Rightarrow> bool \<Rightarrow> sworld \<Rightarrow>
    (store_err, unit) res \<times> bool \<times> sworld" where
  "write_body rd tmp dst r replace w =
     (case copy_loop rd tmp (fst r) (snd r) w of
        (Inl e, w1) \<Rightarrow> (Inl e, True, w1)
      | (Inr _, w1) \<Rightarrow>
          (let (sync_bad, w2) = fault w1; (close_bad, w3) = fault w2 in
           if sync_bad then (Inl (PathError EIO), True, w2)
           else if close_bad then (Inl (PathError EIO), True, w3)
           else commit_tmp tmp dst replace w3))"

definition writeTempAndCommit :: "u64 \<Rightarrow> (sworld \<Rightarrow> bool \<times> sworld) \<Rightarrow> string \<Rightarrow> reader \<Rightarrow> bool \<Rightarrow> sworld \<Rightarrow>
    (store_err, unit) res \<times> sworld" where
  "writeTempAndCommit rnd rd cleanDst r replace w =
     (case sys_set (sys_mkdir [stagingDirName]) w of
        (m, w1) \<Rightarrow>
          if (case m of Inl e \<Rightarrow> \<not> is_exist e | Inr _ \<Rightarrow> False) then (Inl (PathError (projl m)), w1)
          else (let tmp = tmp_path cleanDst rnd in
            (case sys_set (sys_create tmp) w1 of
               (Inl e, w2) \<Rightarrow> (Inl (PathError e), w2)
             | (Inr _, w2) \<Rightarrow>
                 (case write_body rd tmp (comps cleanDst) r replace w2 of
                    (res, cleanup, w3) \<Rightarrow>
                      (res, if cleanup then snd (sys_set (sys_remove tmp) w3) else w3)))))"

section \<open>Recursive removal\<close>

definition remove_path :: "fpath \<Rightarrow> sworld \<Rightarrow> (store_err, unit) res \<times> sworld" where
  "remove_path p w = (case sys_set (sys_remove p) w of (Inl e, w1) \<Rightarrow> (Inl (PathError e), w1) | (Inr _, w1) \<Rightarrow> (Inr (), w1))"

fun remove_entries :: "(fpath \<Rightarrow> sworld \<Rightarrow> (store_err, unit) res \<times> sworld) \<Rightarrow> fpath \<Rightarrow> string list \<Rightarrow> sworld \<Rightarrow>
    (store_err, unit) res \<times> sworld" where
  "remove_entries f p [] w = (Inr (), w)"
| "remove_entries f p (c # cs) w =
     (let (cancelled, w1) = consult w in
      if cancelled then (Inl CtxErr, w1)
      else (case f (p @ [c]) w1 of
              (Inl e, w2) \<Rightarrow> (Inl e, w2)
            | (Inr _, w2) \<Rightarrow> remove_entries f p cs w2))"

text \<open>
  The recursion of \<open>removeAllUnderRoot\<close> and \<open>removeAllCtx\<close>, which differ in how a directory is
  read. The fuel bounds the depth; the depth of the tree is enough.
\<close>

primrec remove_tree :: "(fpath \<Rightarrow> fs \<Rightarrow> (errno, string list) res) \<Rightarrow> nat \<Rightarrow> fpath \<Rightarrow> sworld \<Rightarrow>
    (store_err, unit) res \<times> sworld" where
  "remove_tree rd 0 p w = (Inl OtherErr, w)"
| "remove_tree rd (Suc n) p w =
     (let (cancelled, w1) = consult w in
      if cancelled then (Inl CtxErr, w1)
      else (case sys_get (sys_stat p) w1 of
              (Inl e, w2) \<Rightarrow> if is_not_exist e then (Inr (), w2) else (Inl (PathError e), w2)
            | (Inr (EFile _), w2) \<Rightarrow> remove_path p w2
            | (Inr EDir, w2) \<Rightarrow>
                (case sys_get (rd p) w2 of
                   (Inl e, w3) \<Rightarrow> (Inl (PathError e), w3)
                 | (Inr names, w3) \<Rightarrow>
                     (case remove_entries (remove_tree rd n) p names w3 of
                        (Inl e, w4) \<Rightarrow> (Inl e, w4)
                      | (Inr _, w4) \<Rightarrow> remove_path p w4))))"

definition fs_depth :: "fs \<Rightarrow> nat" where
  "fs_depth t = Suc (fold max (map (length \<circ> fst) t) 0)"

definition removeAllUnderRoot :: "string \<Rightarrow> sworld \<Rightarrow> (store_err, unit) res \<times> sworld" where
  "removeAllUnderRoot cleanPath w = remove_tree rootfs_readdir (fs_depth (sw_fs w)) (comps cleanPath) w"

definition removeAllCtx :: "fpath \<Rightarrow> sworld \<Rightarrow> (store_err, unit) res \<times> sworld" where
  "removeAllCtx p w = remove_tree sys_readdir (fs_depth (sw_fs w)) p w"

section \<open>The volume\<close>

text \<open>
  An entry of the base directory: a scope directory, something that is not a directory, or a
  symbolic link with the directory it leads to, if it leads to one.
\<close>

datatype base_entry = BDir fs | BFile | BLink "fs option"

record lvol =
  lv_base :: "(scope_id \<times> base_entry) list"
  lv_ctx :: "nat option"
  lv_faults :: "bool list"
  lv_dirsize :: nat

definition base_at :: "lvol \<Rightarrow> scope_id \<Rightarrow> base_entry option" where
  "base_at v s = map_of (lv_base v) s"

definition base_put :: "scope_id \<Rightarrow> base_entry \<Rightarrow> lvol \<Rightarrow> lvol" where
  "base_put s b v = v\<lparr>lv_base := (s, b) # filter (\<lambda>(q, _). q \<noteq> s) (lv_base v)\<rparr>"

definition base_drop :: "scope_id \<Rightarrow> lvol \<Rightarrow> lvol" where
  "base_drop s v = v\<lparr>lv_base := filter (\<lambda>(q, _). q \<noteq> s) (lv_base v)\<rparr>"

definition enter :: "fs \<Rightarrow> lvol \<Rightarrow> sworld" where
  "enter t v = \<lparr>sw_fs = t, sw_ctx = lv_ctx v, sw_faults = lv_faults v, sw_dirsize = lv_dirsize v\<rparr>"

definition leave :: "sworld \<Rightarrow> lvol \<Rightarrow> lvol" where
  "leave w v = v\<lparr>lv_ctx := sw_ctx w, lv_faults := sw_faults w\<rparr>"

definition vol_consult :: "lvol \<Rightarrow> bool \<times> lvol" where
  "vol_consult v = (let (c, w) = consult (enter [] v) in (c, leave w v))"

definition vol_fault :: "lvol \<Rightarrow> bool \<times> lvol" where
  "vol_fault v = (let (b, w) = fault (enter [] v) in (b, leave w v))"

definition openScope :: "scope_id \<Rightarrow> lvol \<Rightarrow> (store_err, fs) res \<times> lvol" where
  "openScope s v =
     (case validateScopeID s of
        Some e \<Rightarrow> (Inl e, v)
      | None \<Rightarrow>
          (let (bad, v1) = vol_fault v in
           if bad then (Inl (PathError EIO), v1)
           else (case base_at v s of
                   None \<Rightarrow> (Inl (PathError ENOENT), v1)
                 | Some BFile \<Rightarrow> (Inl (PathError ENOTDIR), v1)
                 | Some (BLink None) \<Rightarrow> (Inl (PathError ENOENT), v1)
                 | Some (BLink (Some t)) \<Rightarrow> (Inr t, v1)
                 | Some (BDir t) \<Rightarrow> (Inr t, v1))))"

definition put_tree :: "scope_id \<Rightarrow> fs \<Rightarrow> lvol \<Rightarrow> lvol" where
  "put_tree s t v =
     (case base_at v s of
        Some (BDir _) \<Rightarrow> base_put s (BDir t) v
      | Some (BLink (Some _)) \<Rightarrow> base_put s (BLink (Some t)) v
      | _ \<Rightarrow> v)"

text \<open>A verb body runs under the root that \<open>openScope\<close> returned and closes it on return.\<close>

definition with_scope :: "scope_id \<Rightarrow> (sworld \<Rightarrow> (store_err, 'a) res \<times> sworld) \<Rightarrow> lvol \<Rightarrow> (store_err, 'a) res \<times> lvol" where
  "with_scope s body v =
     (case openScope s v of
        (Inl e, v1) \<Rightarrow> (Inl e, v1)
      | (Inr t, v1) \<Rightarrow>
          (let (r, w) = body (enter t v1) in (r, put_tree s (sw_fs w) (leave w v1))))"

definition with_ctx :: "(lvol \<Rightarrow> (store_err, 'a) res \<times> lvol) \<Rightarrow> lvol \<Rightarrow> (store_err, 'a) res \<times> lvol" where
  "with_ctx f v = (let (cancelled, v1) = vol_consult v in if cancelled then (Inl CtxErr, v1) else f v1)"

section \<open>Data verbs\<close>

definition toFileInfo :: "string \<Rightarrow> entry \<Rightarrow> nat \<Rightarrow> FileInfo" where
  "toFileInfo name e dirsize =
     (case e of
        EFile b \<Rightarrow> \<lparr>fi_name = name, fi_size = length b, fi_is_dir = False\<rparr>
      | EDir \<Rightarrow> \<lparr>fi_name = name, fi_size = dirsize, fi_is_dir = True\<rparr>)"

fun list_infos :: "fpath \<Rightarrow> string list \<Rightarrow> sworld \<Rightarrow> (store_err, FileInfo list) res \<times> sworld" where
  "list_infos p [] w = (Inr [], w)"
| "list_infos p (c # cs) w =
     (if p = [] \<and> c = stagingDirName then list_infos p cs w
      else (case sys_get (sys_stat (p @ [c])) w of
              (Inl e, w1) \<Rightarrow> (Inl (PathError e), w1)
            | (Inr en, w1) \<Rightarrow>
                (case list_infos p cs w1 of
                   (Inl e, w2) \<Rightarrow> (Inl e, w2)
                 | (Inr fis, w2) \<Rightarrow> (Inr (toFileInfo c en (sw_dirsize w1) # fis), w2))))"

definition list_body :: "fpath \<Rightarrow> sworld \<Rightarrow> (store_err, FileInfo list) res \<times> sworld" where
  "list_body p w =
     (case sys_get (rootfs_readdir p) w of
        (Inl e, w1) \<Rightarrow> (Inl (if e = ENOTDIR then ErrNotADirectory else PathError e), w1)
      | (Inr names, w1) \<Rightarrow> list_infos p names w1)"

definition local_List :: "scope_id \<Rightarrow> string \<Rightarrow> lvol \<Rightarrow> (store_err, FileInfo list) res \<times> lvol" where
  "local_List s path = with_ctx (with_scope s (\<lambda>w.
     if path = dot then list_body [] w
     else (case guestPath path of Inl e \<Rightarrow> (Inl e, w) | Inr clean \<Rightarrow> list_body (comps clean) w)))"

definition local_Stat :: "scope_id \<Rightarrow> string \<Rightarrow> lvol \<Rightarrow> (store_err, FileInfo) res \<times> lvol" where
  "local_Stat s path = with_ctx (with_scope s (\<lambda>w.
     (case guestPath path of
        Inl e \<Rightarrow> (Inl e, w)
      | Inr clean \<Rightarrow>
          (case sys_get (sys_stat (comps clean)) w of
             (Inl e, w1) \<Rightarrow> (Inl (PathError e), w1)
           | (Inr en, w1) \<Rightarrow> (Inr (toFileInfo (path_base clean) en (sw_dirsize w1)), w1)))))"

definition local_MakeDir :: "scope_id \<Rightarrow> string \<Rightarrow> lvol \<Rightarrow> (store_err, unit) res \<times> lvol" where
  "local_MakeDir s path = with_ctx (with_scope s (\<lambda>w.
     (case guestPath path of
        Inl e \<Rightarrow> (Inl e, w)
      | Inr clean \<Rightarrow>
          (case sys_set (sys_mkdir (comps clean)) w of
             (Inl e, w1) \<Rightarrow> (Inl (PathError e), w1)
           | (Inr _, w1) \<Rightarrow> (Inr (), w1)))))"

definition rename_replace :: "fpath \<Rightarrow> fpath \<Rightarrow> sworld \<Rightarrow> (store_err, unit) res \<times> sworld" where
  "rename_replace src dst w =
     (case sys_set (sys_rename src dst) w of
        (Inl e, w1) \<Rightarrow> (Inl (LinkError e), w1)
      | (Inr _, w1) \<Rightarrow> (Inr (), w1))"

definition rename_dir_noreplace :: "fpath \<Rightarrow> fpath \<Rightarrow> sworld \<Rightarrow> (store_err, unit) res \<times> sworld" where
  "rename_dir_noreplace src dst w =
     (case sys_get (sys_stat dst) w of
        (Inr _, w1) \<Rightarrow> (Inl ErrAlreadyExists, w1)
      | (Inl e, w1) \<Rightarrow> if \<not> is_not_exist e then (Inl (PathError e), w1) else rename_replace src dst w1)"

definition rename_file_noreplace :: "fpath \<Rightarrow> fpath \<Rightarrow> sworld \<Rightarrow> (store_err, unit) res \<times> sworld" where
  "rename_file_noreplace src dst w =
     (case sys_set (sys_link src dst) w of
        (Inl e, w1) \<Rightarrow> (Inl (if is_exist e then ErrAlreadyExists else LinkError e), w1)
      | (Inr _, w1) \<Rightarrow>
          (case sys_set (sys_remove src) w1 of
             (Inl e, w2) \<Rightarrow> (Inl (PathError e), snd (sys_set (sys_remove dst) w2))
           | (Inr _, w2) \<Rightarrow> (Inr (), w2)))"

definition renameWithin :: "scope_id \<Rightarrow> string \<Rightarrow> string \<Rightarrow> bool \<Rightarrow> lvol \<Rightarrow> (store_err, unit) res \<times> lvol" where
  "renameWithin s src dst overwrite = with_scope s (\<lambda>w.
     (case guestPath src of
        Inl e \<Rightarrow> (Inl e, w)
      | Inr cleanSrc \<Rightarrow>
          (case guestPath dst of
             Inl e \<Rightarrow> (Inl e, w)
           | Inr cleanDst \<Rightarrow>
               if overwrite then rename_replace (comps cleanSrc) (comps cleanDst) w
               else (case sys_get (sys_stat (comps cleanSrc)) w of
                       (Inl e, w1) \<Rightarrow> (Inl (PathError e), w1)
                     | (Inr EDir, w1) \<Rightarrow> rename_dir_noreplace (comps cleanSrc) (comps cleanDst) w1
                     | (Inr (EFile _), w1) \<Rightarrow> rename_file_noreplace (comps cleanSrc) (comps cleanDst) w1))))"

definition local_MoveDir :: "scope_id \<Rightarrow> string \<Rightarrow> string \<Rightarrow> bool \<Rightarrow> lvol \<Rightarrow> (store_err, unit) res \<times> lvol" where
  "local_MoveDir s src dst overwrite = with_ctx (renameWithin s src dst overwrite)"

definition local_MoveFile :: "scope_id \<Rightarrow> string \<Rightarrow> string \<Rightarrow> bool \<Rightarrow> lvol \<Rightarrow> (store_err, unit) res \<times> lvol" where
  "local_MoveFile s src dst overwrite = with_ctx (renameWithin s src dst overwrite)"

definition local_RemoveDir :: "scope_id \<Rightarrow> string \<Rightarrow> lvol \<Rightarrow> (store_err, unit) res \<times> lvol" where
  "local_RemoveDir s path = with_ctx (with_scope s (\<lambda>w.
     (case guestPath path of Inl e \<Rightarrow> (Inl e, w) | Inr clean \<Rightarrow> removeAllUnderRoot clean w)))"

definition local_RemoveFile :: "scope_id \<Rightarrow> string \<Rightarrow> lvol \<Rightarrow> (store_err, unit) res \<times> lvol" where
  "local_RemoveFile s path = with_ctx (with_scope s (\<lambda>w.
     (case guestPath path of Inl e \<Rightarrow> (Inl e, w) | Inr clean \<Rightarrow> remove_path (comps clean) w)))"

text \<open>The buffer size of \<open>io.Copy\<close>.\<close>

definition copy_buf :: nat where
  "copy_buf = 32768"

function chunks_of :: "string \<Rightarrow> string list" where
  "chunks_of b = (if b = [] then [] else take copy_buf b # chunks_of (drop copy_buf b))"
  by pat_completeness auto
termination
  by (relation "measure length") (auto simp: copy_buf_def)

declare chunks_of.simps [simp del]

text \<open>The early existence check of the two writing verbs when replacing is not allowed.\<close>

definition refuse_existing :: "bool \<Rightarrow> fpath \<Rightarrow> sworld \<Rightarrow> (store_err, unit) res \<times> sworld" where
  "refuse_existing overwrite dst w =
     (if overwrite then (Inr (), w)
      else (case sys_get (sys_stat dst) w of
              (Inr _, w1) \<Rightarrow> (Inl ErrAlreadyExists, w1)
            | (Inl e, w1) \<Rightarrow> if is_not_exist e then (Inr (), w1) else (Inl (PathError e), w1)))"

definition file_reader :: "entry \<Rightarrow> reader" where
  "file_reader e = (case e of EFile b \<Rightarrow> (chunks_of b, None) | EDir \<Rightarrow> ([], Some (PathError EISDIR)))"

definition local_CopyFile :: "u64 \<Rightarrow> scope_id \<Rightarrow> string \<Rightarrow> string \<Rightarrow> bool \<Rightarrow> lvol \<Rightarrow> (store_err, unit) res \<times> lvol" where
  "local_CopyFile rnd s src dst overwrite = with_scope s (\<lambda>w.
     (case guestPath dst of
        Inl e \<Rightarrow> (Inl e, w)
      | Inr cleanDst \<Rightarrow>
          (case refuse_existing overwrite (comps cleanDst) w of
             (Inl e, w1) \<Rightarrow> (Inl e, w1)
           | (Inr _, w1) \<Rightarrow>
               (case guestPath src of
                  Inl e \<Rightarrow> (Inl e, w1)
                | Inr cleanSrc \<Rightarrow>
                    (case sys_get (sys_stat (comps cleanSrc)) w1 of
                       (Inl e, w2) \<Rightarrow> (Inl (PathError e), w2)
                     | (Inr en, w2) \<Rightarrow> writeTempAndCommit rnd fault cleanDst (file_reader en) overwrite w2)))))"

definition local_WriteStream :: "(string \<Rightarrow> string) \<Rightarrow> u64 \<Rightarrow> scope_id \<Rightarrow> string \<Rightarrow> reader \<Rightarrow> bool \<Rightarrow> lvol \<Rightarrow>
    (store_err, string) res \<times> lvol" where
  "local_WriteStream sha256 rnd s path r overwrite = with_scope s (\<lambda>w.
     (case guestPath path of
        Inl e \<Rightarrow> (Inl e, w)
      | Inr cleanPath \<Rightarrow>
          (case refuse_existing overwrite (comps cleanPath) w of
             (Inl e, w1) \<Rightarrow> (Inl e, w1)
           | (Inr _, w1) \<Rightarrow>
               (case writeTempAndCommit rnd (Pair False) cleanPath r overwrite w1 of
                  (Inl e, w2) \<Rightarrow> (Inl e, w2)
                | (Inr _, w2) \<Rightarrow> (Inr (hex_encode (sha256 (concat (fst r)))), w2)))))"

text \<open>
  \<open>io.Copy\<close> of the window into the writer: a context check, a read and a write per chunk.
  \<open>full\<close> says that the window ends before the file does, so that no read follows the last
  chunk.
\<close>

fun read_loop :: "bool \<Rightarrow> string list \<Rightarrow> sworld \<Rightarrow> string \<times> store_err option \<times> sworld" where
  "read_loop full [] w =
     (let (cancelled, w1) = consult w; (bad, w2) = fault w1 in
      if cancelled then ([], Some CtxErr, w1)
      else if full then ([], None, w1)
      else if bad then ([], Some (PathError EIO), w2) else ([], None, w2))"
| "read_loop full (c # cs) w =
     (let (cancelled, w1) = consult w; (bad, w2) = fault w1; (wbad, w3) = fault w2 in
      if cancelled then ([], Some CtxErr, w1)
      else if bad then ([], Some (PathError EIO), w2)
      else if wbad then ([], Some WriterErr, w3)
      else (case read_loop full cs w3 of (out, e, w4) \<Rightarrow> (c @ out, e, w4)))"

definition read_window :: "entry \<Rightarrow> i64 \<Rightarrow> i64 \<Rightarrow> sworld \<Rightarrow> string \<times> store_err option \<times> sworld" where
  "read_window en offset len w =
     (case en of
        EFile b \<Rightarrow>
          (let rest = drop (nat (sint offset)) b; win = take (nat (sint len)) rest in
           read_loop (length win = nat (sint len)) (chunks_of win) w)
      | EDir \<Rightarrow>
          (let (cancelled, w1) = consult w in
           if cancelled then ([], Some CtxErr, w1)
           else if len = 0 then ([], None, w1)
           else ([], Some (PathError EISDIR), w1)))"

definition local_ReadRange :: "scope_id \<Rightarrow> string \<Rightarrow> i64 \<Rightarrow> i64 \<Rightarrow> lvol \<Rightarrow>
    (store_err, string \<times> store_err option) res \<times> lvol" where
  "local_ReadRange s path offset len v =
     (if sint offset < 0 \<or> sint len < 0 then (Inl ErrInvalidRange, v)
      else with_scope s (\<lambda>w.
        (case guestPath path of
           Inl e \<Rightarrow> (Inl e, w)
         | Inr cleanPath \<Rightarrow>
             (case sys_get (sys_stat (comps cleanPath)) w of
                (Inl e, w1) \<Rightarrow> (Inl (PathError e), w1)
              | (Inr en, w1) \<Rightarrow>
                  (let (seek_bad, w2) = (if 0 < sint offset then fault w1 else (False, w1)) in
                   if seek_bad then (Inl (PathError EIO), w2)
                   else (case read_window en offset len w2 of (out, e, w3) \<Rightarrow> (Inr (out, e), w3)))))) v)"

section \<open>Scope lifecycle\<close>

definition vol_mkdir_all :: "scope_id \<Rightarrow> lvol \<Rightarrow> (store_err, unit) res \<times> lvol" where
  "vol_mkdir_all s v =
     (let (bad, v1) = vol_fault v in
      if bad then (Inl (PathError EIO), v1)
      else (case base_at v s of
              None \<Rightarrow> (Inr (), base_put s (BDir []) v1)
            | Some BFile \<Rightarrow> (Inl (PathError ENOTDIR), v1)
            | Some (BLink None) \<Rightarrow> (Inl (PathError EEXIST), v1)
            | _ \<Rightarrow> (Inr (), v1)))"

definition run_in :: "scope_id \<Rightarrow> fs \<Rightarrow> (sworld \<Rightarrow> (store_err, 'a) res \<times> sworld) \<Rightarrow> lvol \<Rightarrow> (store_err, 'a) res \<times> lvol" where
  "run_in s t body v = (let (r, w) = body (enter t v) in (r, put_tree s (sw_fs w) (leave w v)))"

definition sweep_staging :: "scope_id \<Rightarrow> lvol \<Rightarrow> (store_err, unit) res \<times> lvol" where
  "sweep_staging s v =
     (let (bad, v1) = vol_fault v in
      if bad then (Inl (PathError EIO), v1)
      else (case base_at v s of
              None \<Rightarrow> (Inr (), v1)
            | Some (BLink _) \<Rightarrow> (Inl ErrInvalidPath, v1)
            | Some BFile \<Rightarrow> (Inl ErrNotADirectory, v1)
            | Some (BDir t) \<Rightarrow> run_in s t (removeAllCtx [stagingDirName]) v1))"

definition mkdir_staging :: "scope_id \<Rightarrow> lvol \<Rightarrow> (store_err, unit) res \<times> lvol" where
  "mkdir_staging s v =
     (case base_at v s of
        Some (BDir t) \<Rightarrow>
          run_in s t (\<lambda>w. (case sys_set (sys_mkdir [stagingDirName]) w of
                             (Inl e, w1) \<Rightarrow> (if is_exist e then Inr () else Inl (PathError e), w1)
                           | (Inr _, w1) \<Rightarrow> (Inr (), w1))) v
      | _ \<Rightarrow> (Inl (PathError ENOENT), v))"

definition local_ProvisionScope :: "scope_id \<Rightarrow> lvol \<Rightarrow> (store_err, unit) res \<times> lvol" where
  "local_ProvisionScope s = with_ctx (\<lambda>v.
     (case validateScopeID s of
        Some e \<Rightarrow> (Inl e, v)
      | None \<Rightarrow>
          (case sweep_staging s v of
             (Inl e, v1) \<Rightarrow> (Inl e, v1)
           | (Inr _, v1) \<Rightarrow>
               (case vol_mkdir_all s v1 of
                  (Inl e, v2) \<Rightarrow> (Inl e, v2)
                | (Inr _, v2) \<Rightarrow> mkdir_staging s v2))))"

text \<open>\<open>removeAllCtx\<close> on the scope directory itself: its entries, then the directory.\<close>

definition erase_scope :: "scope_id \<Rightarrow> fs \<Rightarrow> lvol \<Rightarrow> (store_err, unit) res \<times> lvol" where
  "erase_scope s t v =
     (case run_in s t (\<lambda>w.
        (let (cancelled, w1) = consult w; (lstat_bad, w2) = fault w1 in
         if cancelled then (Inl CtxErr, w1)
         else if lstat_bad then (Inl (PathError EIO), w2)
         else (case sys_get (sys_readdir []) w2 of
                 (Inl e, w3) \<Rightarrow> (Inl (PathError e), w3)
               | (Inr names, w3) \<Rightarrow> remove_entries (remove_tree sys_readdir (fs_depth t)) [] names w3))) v of
        (Inl e, v1) \<Rightarrow> (Inl e, v1)
      | (Inr _, v1) \<Rightarrow>
          (let (bad, v2) = vol_fault v1 in
           if bad then (Inl (PathError EIO), v2) else (Inr (), base_drop s v2)))"

definition local_TeardownScope :: "scope_id \<Rightarrow> lvol \<Rightarrow> (store_err, unit) res \<times> lvol" where
  "local_TeardownScope s = with_ctx (\<lambda>v.
     (case validateScopeID s of
        Some e \<Rightarrow> (Inl e, v)
      | None \<Rightarrow>
          (let (bad, v1) = vol_fault v in
           if bad then (Inl (PathError EIO), v1)
           else (case base_at v s of
                   None \<Rightarrow> vol_mkdir_all s v1
                 | Some (BLink _) \<Rightarrow> (Inl ErrInvalidPath, v1)
                 | Some BFile \<Rightarrow> (Inl ErrNotADirectory, v1)
                 | Some (BDir t) \<Rightarrow>
                     (case erase_scope s t v1 of
                        (Inl e, v2) \<Rightarrow> (Inl e, v2)
                      | (Inr _, v2) \<Rightarrow> vol_mkdir_all s v2)))))"

section \<open>The engine\<close>

definition reply :: "('a \<Rightarrow> engine_reply) \<Rightarrow> (store_err, 'a) res \<times> lvol \<Rightarrow> (store_err, engine_reply) res \<times> lvol" where
  "reply f r = (case r of (Inl e, v) \<Rightarrow> (Inl e, v) | (Inr x, v) \<Rightarrow> (Inr (f x), v))"

text \<open>
  \<open>sha256\<close> is the digest function and \<open>rnd\<close> the random suffix the call draws if it writes.
\<close>

definition local_engine :: "(string \<Rightarrow> string) \<Rightarrow> u64 \<Rightarrow> lvol engine" where
  "local_engine sha256 rnd s c v =
     (case c of
        CallProvisionScope \<Rightarrow> reply (\<lambda>_. ReplyUnit) (local_ProvisionScope s v)
      | CallTeardownScope \<Rightarrow> reply (\<lambda>_. ReplyUnit) (local_TeardownScope s v)
      | CallList p \<Rightarrow> reply ReplyInfos (local_List s p v)
      | CallStat p \<Rightarrow> reply ReplyInfo (local_Stat s p v)
      | CallMakeDir p \<Rightarrow> reply (\<lambda>_. ReplyUnit) (local_MakeDir s p v)
      | CallMoveDir src dst ow \<Rightarrow> reply (\<lambda>_. ReplyUnit) (local_MoveDir s src dst ow v)
      | CallRemoveDir p \<Rightarrow> reply (\<lambda>_. ReplyUnit) (local_RemoveDir s p v)
      | CallCopyFile src dst ow \<Rightarrow> reply (\<lambda>_. ReplyUnit) (local_CopyFile rnd s src dst ow v)
      | CallMoveFile src dst ow \<Rightarrow> reply (\<lambda>_. ReplyUnit) (local_MoveFile s src dst ow v)
      | CallRemoveFile p \<Rightarrow> reply (\<lambda>_. ReplyUnit) (local_RemoveFile s p v)
      | CallReadRange p offset len \<Rightarrow> reply (\<lambda>(out, e). ReplyRead out e) (local_ReadRange s p offset len v)
      | CallWriteStream p r ow \<Rightarrow> reply ReplyDigest (local_WriteStream sha256 rnd s p r ow v))"

end
