(* ===== verification/SouthState.thy ===== *)
theory SouthState
  imports SouthPath AuditGate HandleList LocalEngine
begin

text \<open>
  What the handlers of the south face work on (\<open>src/internal/southface\<close>): the request bodies and
  their strict decoding (\<open>ops_bodies.go\<close>, \<open>envelope.go\<close>), the listing cursor (\<open>cursor.go\<close>), the
  store of session uuids (\<open>objectid.go\<close>), audit events (\<open>dispatch.go\<close>, \<open>audit_event.go\<close>), and the
  state a request runs in: the engine, the audit gate, the handle store and the ceilings, with
  a trace of the effects in their order. The lemmas: a listing cursor decodes to its key, and
  the uuid store stays a bijection.
\<close>

section \<open>Request bodies\<close>

text \<open>
  \<open>json.Decoder\<close> reads one value and leaves the rest; the code then tries to decode a second
  value and takes any failure of that for the end of the body.
\<close>

definition json_prefix :: "string \<Rightarrow> (json \<times> string) option" where
  "json_prefix s = parse_value (Suc (length s)) 0 s"

definition decode_single :: "string \<Rightarrow> (string \<times> json) list option" where
  "decode_single body =
     (case json_prefix body of
        None \<Rightarrow> None
      | Some (v, rest) \<Rightarrow> if json_prefix rest \<noteq> None then None else obj_field [] [v])"

record authorizationMetadata =
  am_Intent :: Intent
  am_Downloadable :: bool

record unaryEnvelope =
  env_FilesystemID :: string
  env_Path :: string
  env_Auth :: authorizationMetadata

definition decode_auth :: "(string \<times> json) list \<Rightarrow> authorizationMetadata option" where
  "decode_auth ms =
     Option.bind (obj_field [] (field_vals ''authorization_metadata'' ms)) (\<lambda>as.
     Option.bind (str_field [] (field_vals ''intent'' as)) (\<lambda>i.
     map_option (\<lambda>d. \<lparr>am_Intent = i, am_Downloadable = d\<rparr>) (bool_field False (field_vals ''downloadable'' as))))"

definition decodeUnaryEnvelopeBytes :: "string \<Rightarrow> (env_err, unaryEnvelope) res" where
  "decodeUnaryEnvelopeBytes body =
     (case Option.bind (decode_single body) (\<lambda>ms.
        Option.bind (str_field [] (field_vals ''filesystem_id'' ms)) (\<lambda>fs.
        Option.bind (str_field [] (field_vals ''path'' ms)) (\<lambda>p.
        map_option (\<lambda>a. \<lparr>env_FilesystemID = fs, env_Path = p, env_Auth = a\<rparr>) (decode_auth ms)))) of
        None \<Rightarrow> Inl errMalformedEnvelope
      | Some e \<Rightarrow> Inr e)"

datatype field_type = FStr | FInt | FBool | FAuth | FRange

text \<open>The request struct of each operation: its JSON fields with their types.\<close>

definition common_fields :: "(string \<times> field_type) list" where
  "common_fields = [(''filesystem_id'', FStr), (''authorization_metadata'', FAuth)]"

fun op_schema :: "Op \<Rightarrow> (string \<times> field_type) list" where
  "op_schema OpListDirectory =
     common_fields @ [(''path'', FStr), (''limit'', FInt), (''cursor'', FStr), (''recursive'', FBool)]"
| "op_schema OpMakeDirectory = common_fields @ [(''path'', FStr), (''make_parents'', FBool)]"
| "op_schema OpMoveDirectory = common_fields @ [(''source'', FStr), (''destination'', FStr)]"
| "op_schema OpRemoveDirectory = common_fields @ [(''path'', FStr), (''recursive'', FBool)]"
| "op_schema OpCopyFile =
     common_fields @ [(''source'', FStr), (''destination'', FStr), (''overwrite_existing'', FBool)]"
| "op_schema OpMoveFile =
     common_fields @ [(''source'', FStr), (''destination'', FStr), (''overwrite_existing'', FBool)]"
| "op_schema OpRemoveFile = common_fields @ [(''path'', FStr)]"
| "op_schema OpReadFile = common_fields @ [(''path'', FStr), (''range'', FRange)]"
| "op_schema OpReadMetadata = common_fields @ [(''path'', FStr)]"
| "op_schema OpGetFileMetadata = common_fields @ [(''file_id'', FStr)]"
| "op_schema OpFileDelete = common_fields @ [(''file_id'', FStr)]"
| "op_schema OpListFiles = common_fields @ [(''after'', FStr), (''limit'', FInt), (''order'', FStr)]"
| "op_schema OpFileDownload = common_fields @ [(''uuid'', FStr), (''range'', FRange)]"
| "op_schema _ = common_fields"

definition only_fields :: "string list \<Rightarrow> (string \<times> json) list \<Rightarrow> bool" where
  "only_fields names ms = list_all (\<lambda>(k, v). list_ex (\<lambda>n. fold_name k = fold_name n) names) ms"

fun field_ok :: "field_type \<Rightarrow> json list \<Rightarrow> bool" where
  "field_ok FStr vs = (str_field [] vs \<noteq> None)"
| "field_ok FInt vs = (int64_field 0 vs \<noteq> None)"
| "field_ok FBool vs = (bool_field False vs \<noteq> None)"
| "field_ok FAuth vs =
     (case obj_field [] vs of
        None \<Rightarrow> False
      | Some as \<Rightarrow> only_fields [''intent'', ''downloadable''] as \<and>
          str_field [] (field_vals ''intent'' as) \<noteq> None \<and> bool_field False (field_vals ''downloadable'' as) \<noteq> None)"
| "field_ok FRange vs =
     (case obj_field [] vs of
        None \<Rightarrow> False
      | Some rs \<Rightarrow> only_fields [''offset'', ''length''] rs \<and>
          int64_field 0 (field_vals ''offset'' rs) \<noteq> None \<and> int64_field 0 (field_vals ''length'' rs) \<noteq> None)"

definition decodeStrictBytes :: "(string \<times> field_type) list \<Rightarrow> string \<Rightarrow> (env_err, (string \<times> json) list) res" where
  "decodeStrictBytes schema body =
     (case decode_single body of
        None \<Rightarrow> Inl errMalformedEnvelope
      | Some ms \<Rightarrow>
          if only_fields (map fst schema) ms \<and> list_all (\<lambda>(n, t). field_ok t (field_vals n ms)) schema
          then Inr ms else Inl errMalformedEnvelope)"

definition get_str :: "string \<Rightarrow> (string \<times> json) list \<Rightarrow> string" where
  "get_str n ms = (case str_field [] (field_vals n ms) of None \<Rightarrow> [] | Some s \<Rightarrow> s)"

definition get_int :: "string \<Rightarrow> (string \<times> json) list \<Rightarrow> int" where
  "get_int n ms = (case int64_field 0 (field_vals n ms) of None \<Rightarrow> 0 | Some i \<Rightarrow> i)"

definition get_bool :: "string \<Rightarrow> (string \<times> json) list \<Rightarrow> bool" where
  "get_bool n ms = (case bool_field False (field_vals n ms) of None \<Rightarrow> False | Some b \<Rightarrow> b)"

text \<open>
  The two legs of a move or copy. They are read with \<open>json.Unmarshal\<close>, which refuses a body with
  anything but white space after the value; a body it refuses counts as having no legs.
\<close>

definition is_two_path :: "Op \<Rightarrow> bool" where
  "is_two_path x = (x = OpMoveDirectory \<or> x = OpCopyFile \<or> x = OpMoveFile)"

definition lax_ok :: "Op \<Rightarrow> (string \<times> json) list \<Rightarrow> bool" where
  "lax_ok x ms =
     list_all (\<lambda>(n, t). case t of FAuth \<Rightarrow> decode_auth ms \<noteq> None | _ \<Rightarrow> field_ok t (field_vals n ms)) (op_schema x)"

definition canonicalizeMoveCopyLegs :: "Op \<Rightarrow> string \<Rightarrow> string \<Rightarrow> (south_err, string \<times> string) res" where
  "canonicalizeMoveCopyLegs x body subtree =
     (if \<not> is_two_path x then Inr ([], [])
      else
        (case json_members body of
           None \<Rightarrow> Inr ([], [])
         | Some ms \<Rightarrow>
             if \<not> lax_ok x ms then Inr ([], [])
             else
               rbind (canonicalizePath (get_str ''source'' ms) subtree) (\<lambda>src.
               rbind (canonicalizePath (get_str ''destination'' ms) subtree) (\<lambda>dst. Inr (src, dst)))))"

section \<open>Listing cursor\<close>

definition cursorV1 :: char where "cursorV1 = CHR 0x01"

definition encodeCursor :: "string \<Rightarrow> string" where
  "encodeCursor rel = b64_encode (cursorV1 # rel)"

definition decodeCursor :: "string \<Rightarrow> string option" where
  "decodeCursor tok =
     (if tok = [] then Some []
      else (case b64_decode tok of
              None \<Rightarrow> None
            | Some [] \<Rightarrow> None
            | Some (v # b) \<Rightarrow> if v \<noteq> cursorV1 then None else Some b))"

section \<open>Session uuids\<close>

record objectIDStore =
  byKey :: "((string \<times> string) \<times> string) list"
  byID :: "(string \<times> (string \<times> string)) list"

definition newObjectIDStore :: objectIDStore where
  "newObjectIDStore = \<lparr>byKey = [], byID = []\<rparr>"

text \<open>\<open>rnd\<close> is the random text used if an id has to be minted; the flag says whether it was.\<close>

definition idFor :: "string \<Rightarrow> string \<Rightarrow> string \<Rightarrow> objectIDStore \<Rightarrow> string \<times> bool \<times> objectIDStore" where
  "idFor rnd scope path s =
     (case map_of (byKey s) (scope, path) of
        Some uid \<Rightarrow> (uid, False, s)
      | None \<Rightarrow>
          (let uid = objectid_new rnd
           in (uid, True, s\<lparr>byKey := AList.update (scope, path) uid (byKey s), byID := AList.update uid (scope, path) (byID s)\<rparr>)))"

definition evict :: "string \<Rightarrow> string \<Rightarrow> objectIDStore \<Rightarrow> objectIDStore" where
  "evict scope path s =
     (case map_of (byKey s) (scope, path) of
        None \<Rightarrow> s
      | Some uid \<Rightarrow> s\<lparr>byKey := AList.delete (scope, path) (byKey s), byID := AList.delete uid (byID s)\<rparr>)"

definition in_tree :: "string \<Rightarrow> string \<Rightarrow> string \<times> string \<Rightarrow> bool" where
  "in_tree scope gp k =
     (fst k = scope \<and> (snd k = gp \<or> has_prefix (snd k) (if gp \<noteq> ''/'' then gp @ ''/'' else gp)))"

definition evictTree :: "string \<Rightarrow> string \<Rightarrow> objectIDStore \<Rightarrow> objectIDStore" where
  "evictTree scope gp s =
     (let gone = map snd (filter (\<lambda>(k, uid). in_tree scope gp k) (byKey s))
      in s\<lparr>byKey := filter (\<lambda>(k, uid). \<not> in_tree scope gp k) (byKey s),
           byID := filter (\<lambda>(uid, v). uid \<notin> set gone) (byID s)\<rparr>)"

definition id_lookup :: "string \<Rightarrow> objectIDStore \<Rightarrow> (string \<times> string) option" where
  "id_lookup uuid s = map_of (byID s) uuid"

section \<open>Audit events\<close>

record auditEvent =
  ae_Op :: "Op option"
  ae_Scope :: string
  ae_Path :: string
  ae_Intent :: Intent
  ae_PeerUID :: "32 word"
  ae_PeerPID :: "32 word"
  ae_ActivityID :: int
  ae_ObjectHandle :: string
  ae_ByteCount :: i64
  ae_Downloadable :: bool
  ae_DenyReason :: string
  ae_RequestID :: string

fun activityForOp :: "Op \<Rightarrow> int" where
  "activityForOp OpMakeDirectory = 1"
| "activityForOp OpMoveDirectory = 1"
| "activityForOp OpCopyFile = 1"
| "activityForOp OpMoveFile = 1"
| "activityForOp OpRemoveDirectory = 4"
| "activityForOp OpRemoveFile = 4"
| "activityForOp _ = 2"

definition objectHandleForOp :: "Op \<Rightarrow> string \<Rightarrow> Request \<Rightarrow> string \<Rightarrow> string" where
  "objectHandleForOp x scope req canonDst =
     scope @ '':'' @ (if is_two_path x \<and> canonDst \<noteq> [] then canonDst else rq_Path req)"

definition auditEvent_of :: "Op \<Rightarrow> PeerScope \<Rightarrow> Request \<Rightarrow> Grant \<Rightarrow> string \<Rightarrow> auditEvent" where
  "auditEvent_of x ps req grant canonDst =
     \<lparr>ae_Op = Some x, ae_Scope = ps_FilesystemID ps, ae_Path = rq_Path req, ae_Intent = rq_Intent req,
      ae_PeerUID = ps_UID ps, ae_PeerPID = ps_PID ps, ae_ActivityID = activityForOp x,
      ae_ObjectHandle = objectHandleForOp x (ps_FilesystemID ps) req canonDst, ae_ByteCount = 0,
      ae_Downloadable = gr_Downloadable grant, ae_DenyReason = [], ae_RequestID = []\<rparr>"

definition denyAuditEvent :: "Op \<Rightarrow> PeerScope \<Rightarrow> Request \<Rightarrow> Grant \<Rightarrow> string \<Rightarrow> string \<Rightarrow> auditEvent" where
  "denyAuditEvent x ps req grant canonDst reason =
     (auditEvent_of x ps req grant canonDst)\<lparr>ae_DenyReason := reason\<rparr>"

definition mapAuditEvent :: "auditEvent \<Rightarrow> FileActivityEvent" where
  "mapAuditEvent e =
     \<lparr>ClassUID = 1001, CategoryUID = 1, ActivityID = ae_ActivityID e, ev_Time = 0,
      ev_Metadata = \<lparr>md_Version = [], md_ProductName = []\<rparr>,
      Actor = \<lparr>UserUID = dec_nat (unat (ae_PeerUID e)), SessionUID = ae_Scope e, ProcessPID = ae_PeerPID e\<rparr>,
      ev_FilesystemID = ae_Scope e, ObjectHandle = ae_ObjectHandle e, ByteCount = ae_ByteCount e,
      ev_Intent = ae_Intent e, ev_Downloadable = ae_Downloadable e,
      ev_Outcome = (if ae_DenyReason e \<noteq> [] then \<lparr>DispositionID = DispositionDeny, XDenyReason = ae_DenyReason e\<rparr>
                    else \<lparr>DispositionID = DispositionAllow, XDenyReason = []\<rparr>),
      PrevHash = [], CorrelationUID = ae_RequestID e, commitSeq = 0\<rparr>"

section \<open>State of the face\<close>

text \<open>
  The effects of a request in their order: an audit record offered to the gate with the gate's
  answer, a call of the engine with the scope it names, and a call of the handle store.
\<close>

datatype effect =
    Audited FileActivityEvent bool
  | EngineCalled string engine_call
  | HandleCalled string

text \<open>
  The parts a dispatcher is wired with. The engine is the deployment engine behind the adapter
  of the broker, \<open>dp_mandate\<close> the audit gate, \<open>dp_tag\<close> the downloadable policy inside the
  resolver, \<open>dp_extractor\<close> the credential extractor (\<open>None\<close> is the nil extractor), \<open>dp_rand\<close> the
  random bytes of the n-th minted id, \<open>dp_henv\<close> what the n-th handle operation finds, and
  \<open>dp_mtime\<close> the text of a modification time.
\<close>

record ('s, 'g) dispatcher =
  dp_engine :: "'s engine"
  dp_mandate :: "FileActivityEvent \<Rightarrow> 'g \<Rightarrow> (south_err, unit) res \<times> 'g"
  dp_tag :: StoredTagFunc
  dp_extractor :: "bind_fun option option"
  dp_grantedIntentsCeiling :: "Intent list option"
  dp_subtrees :: SubtreeMap
  dp_sizeCeiling :: int
  dp_maxFileSize :: int
  dp_mtime :: "string \<Rightarrow> FileInfo \<Rightarrow> string"
  dp_rand :: "nat \<Rightarrow> string"
  dp_henv :: "nat \<Rightarrow> req_env"

record ('s, 'g) face =
  fc_eng :: 's
  fc_guard :: 'g
  fc_ids :: objectIDStore
  fc_handles :: "disk_store option"
  fc_reg :: Registry
  fc_rnd :: nat
  fc_ctx :: "nat option"
  fc_trace :: "effect list"

definition emit_effect :: "effect \<Rightarrow> ('s, 'g) face \<Rightarrow> ('s, 'g) face" where
  "emit_effect e f = f\<lparr>fc_trace := fc_trace f @ [e]\<rparr>"

definition mandate :: "('s, 'g) dispatcher \<Rightarrow> FileActivityEvent \<Rightarrow> ('s, 'g) face \<Rightarrow> (south_err, unit) res \<times> ('s, 'g) face" where
  "mandate d ev f =
     (let (r, g) = dp_mandate d ev (fc_guard f)
      in (r, emit_effect (Audited ev (ok r)) (f\<lparr>fc_guard := g\<rparr>)))"

definition engine :: "('s, 'g) dispatcher \<Rightarrow> string \<Rightarrow> engine_call \<Rightarrow> ('s, 'g) face \<Rightarrow>
    (south_err, engine_reply) res \<times> ('s, 'g) face" where
  "engine d scope call f =
     (let (r, s) = dp_engine d scope call (fc_eng f)
      in (case r of Inl e \<Rightarrow> Inl (mapEngineErr e) | Inr x \<Rightarrow> Inr x,
          emit_effect (EngineCalled scope call) (f\<lparr>fc_eng := s\<rparr>)))"

text \<open>\<open>ctx.Err()\<close>: \<open>fc_ctx\<close> is the number of consultations before the request is cancelled.\<close>

definition ctx_err :: "('s, 'g) face \<Rightarrow> bool \<times> ('s, 'g) face" where
  "ctx_err f =
     (case fc_ctx f of
        None \<Rightarrow> (False, f)
      | Some 0 \<Rightarrow> (True, f)
      | Some (Suc n) \<Rightarrow> (False, f\<lparr>fc_ctx := Some n\<rparr>))"

definition mint_id :: "('s, 'g) dispatcher \<Rightarrow> string \<Rightarrow> string \<Rightarrow> ('s, 'g) face \<Rightarrow> string \<times> ('s, 'g) face" where
  "mint_id d scope path f =
     (let (uid, fresh, ids) = idFor (dp_rand d (fc_rnd f)) scope path (fc_ids f)
      in (uid, f\<lparr>fc_ids := ids, fc_rnd := (if fresh then Suc (fc_rnd f) else fc_rnd f)\<rparr>))"

text \<open>A call of the handle store with what the n-th such call finds.\<close>

definition handle_op :: "('s, 'g) dispatcher \<Rightarrow> string \<Rightarrow> (req_env \<Rightarrow> disk_store \<Rightarrow> 'r \<times> disk_store) \<Rightarrow>
    disk_store \<Rightarrow> ('s, 'g) face \<Rightarrow> 'r \<times> ('s, 'g) face" where
  "handle_op d scope h st f =
     (let (r, st') = h (dp_henv d (fc_rnd f)) st
      in (r, emit_effect (HandleCalled scope) (f\<lparr>fc_handles := Some st', fc_rnd := Suc (fc_rnd f)\<rparr>)))"

section \<open>Lemmas\<close>

lemma decode_encodeCursor [simp]: "decodeCursor (encodeCursor rel) = Some rel"
  by (simp add: decodeCursor_def encodeCursor_def)

text \<open>The two maps of the uuid store are inverse to each other.\<close>

definition ids_ok :: "objectIDStore \<Rightarrow> bool" where
  "ids_ok s \<longleftrightarrow> distinct (map fst (byKey s)) \<and> distinct (map fst (byID s)) \<and>
     (\<forall>k i. map_of (byKey s) k = Some i \<longleftrightarrow> map_of (byID s) i = Some k)"

lemma ids_ok_new: "ids_ok newObjectIDStore"
  by (simp add: ids_ok_def newObjectIDStore_def)

lemma ids_ok_idFor:
  assumes "ids_ok s" "map_of (byID s) (objectid_new rnd) = None"
  shows "ids_ok (snd (snd (idFor rnd scope path s)))"
proof (cases "map_of (byKey s) (scope, path)")
  case None
  then show ?thesis using assms
    by (auto simp: idFor_def ids_ok_def Let_def update_conv' distinct_update)
qed (use assms in \<open>simp add: idFor_def\<close>)

lemma ids_ok_inverse: "ids_ok s \<Longrightarrow> map_of (byKey s) k = Some i \<longleftrightarrow> map_of (byID s) i = Some k"
  unfolding ids_ok_def by blast

lemma ids_ok_evict:
  assumes "ids_ok s"
  shows "ids_ok (evict scope path s)"
proof (cases "map_of (byKey s) (scope, path)")
  case (Some i)
  have "((map_of (byKey s))((scope, path) := None)) k = Some j \<longleftrightarrow> ((map_of (byID s))(i := None)) j = Some k" for k j
    unfolding fun_upd_def using ids_ok_inverse [OF assms] Some by (metis option.distinct(1) option.inject)
  moreover have "distinct (map fst (AList.delete (scope, path) (byKey s)))" "distinct (map fst (AList.delete i (byID s)))"
    using assms by (simp_all add: ids_ok_def distinct_delete)
  ultimately show ?thesis unfolding ids_ok_def evict_def Some by (simp add: delete_conv' del: map_of_eq_Some_iff)
qed (use assms in \<open>simp add: evict_def\<close>)

lemma ids_ok_evictTree: 
  assumes "ids_ok s"
  shows "ids_ok (evictTree scope gp s)"
proof -
  let ?P = "in_tree scope gp"
  have gone: "i \<in> set (map snd (filter (\<lambda>(k, uid). ?P k) (byKey s))) \<longleftrightarrow> (\<exists>k. ?P k \<and> map_of (byKey s) k = Some i)" for i
    using assms by (force simp: ids_ok_def map_of_eq_Some_iff)
  have k: "map_of (byKey (evictTree scope gp s)) k = (if ?P k then None else map_of (byKey s) k)" for k
    using assms map_of_filter_key [of "\<lambda>k. \<not> ?P k" "byKey s" k] by (simp add: ids_ok_def evictTree_def Let_def)
  have i: "map_of (byID (evictTree scope gp s)) i = (if \<exists>k. ?P k \<and> map_of (byKey s) k = Some i then None else map_of (byID s) i)" for i
    using assms map_of_filter_key [of "\<lambda>i. i \<notin> set (map snd (filter (\<lambda>(k, uid). ?P k) (byKey s)))" "byID s" i] gone [of i]
    by (auto simp: ids_ok_def evictTree_def Let_def)
  have "distinct (map fst (byKey (evictTree scope gp s)))" "distinct (map fst (byID (evictTree scope gp s)))"
    using assms by (simp_all add: ids_ok_def evictTree_def Let_def distinct_map_filter)
  moreover have "map_of (byKey (evictTree scope gp s)) k = Some j \<longleftrightarrow> map_of (byID (evictTree scope gp s)) j = Some k" for k j
    unfolding k i using ids_ok_inverse [OF assms] by (metis option.distinct(1) option.inject)
  ultimately show ?thesis by (simp add: ids_ok_def)
qed

text \<open>After an eviction no path of the tree resolves.\<close>

lemma evictTree_lookup:
  "ids_ok s \<Longrightarrow> id_lookup i (evictTree scope gp s) = Some (scope, p) \<Longrightarrow> p \<noteq> gp \<and> \<not> has_prefix p (gp @ ''/'')"
proof -
  assume s: "ids_ok s" "id_lookup i (evictTree scope gp s) = Some (scope, p)"
  then have "map_of (byKey (evictTree scope gp s)) (scope, p) = Some i"
    using ids_ok_evictTree [OF s(1)] by (simp add: ids_ok_def id_lookup_def)
  then have "\<not> in_tree scope gp (scope, p)"
    using s(1) map_of_filter_key [of "\<lambda>k. \<not> in_tree scope gp k" "byKey s" "(scope, p)"]
    by (auto simp: ids_ok_def evictTree_def Let_def split: if_splits)
  then show ?thesis by (cases "gp = ''/''") (auto simp: in_tree_def has_prefix_conv)
qed

end
