(* ===== verification/SouthHandlers.thy ===== *)
theory SouthHandlers
  imports SouthState
begin

text \<open>
  The operation handlers of the south face (\<open>src/internal/southface/handlers.go\<close>,
  \<open>handlers_objects.go\<close>, \<open>ensuredir.go\<close>). A handler takes the context the dispatch spine
  prepared and returns the response with the new state. The lemmas bound the directory walk
  and say what every handler does to the trace of effects.
\<close>

section \<open>Handler context\<close>

record handlerCtx =
  hc_op :: Op
  hc_body :: string
  hc_canonPath :: string
  hc_subtree :: string
  hc_canonSource :: string
  hc_canonDest :: string
  hc_ps :: PeerScope
  hc_grant :: Grant
  hc_req :: Request
  hc_reqID :: string

abbreviation hc_scope :: "handlerCtx \<Rightarrow> string" where
  "hc_scope hc \<equiv> ps_FilesystemID (hc_ps hc)"

text \<open>
  The hook for a refusal after the allow record: the deny record must be durable before the
  refusal is written, otherwise the answer is that the audit gate is down.
\<close>

definition mandateDeny :: "('s, 'g) dispatcher \<Rightarrow> handlerCtx \<Rightarrow> string \<Rightarrow> deny_class \<Rightarrow> string \<Rightarrow> ('s, 'g) face \<Rightarrow>
    response \<times> ('s, 'g) face" where
  "mandateDeny d hc auditReason wireClass message f =
     (let ev = (denyAuditEvent (hc_op hc) (hc_ps hc) (hc_req hc) (hc_grant hc) (hc_canonDest hc) auditReason)
                 \<lparr>ae_RequestID := hc_reqID hc\<rparr>
      in case mandate d (mapAuditEvent ev) f of
           (Inl _, f1) \<Rightarrow> (WriteRESTDeny (MapDeny dc_AuditDown) ''audit gate unavailable'', f1)
         | (Inr _, f1) \<Rightarrow>
             (WriteRESTDeny ((MapDenyDegraded auditReason wireClass)\<lparr>CorrelationID := hc_reqID hc\<rparr>) message, f1))"

definition deny_engine :: "('s, 'g) dispatcher \<Rightarrow> handlerCtx \<Rightarrow> south_err \<Rightarrow> ('s, 'g) face \<Rightarrow> response \<times> ('s, 'g) face" where
  "deny_engine d hc err f =
     mandateDeny d hc (auditTruthForEngineErr err) (denyClassForEngineErr err) ''operation refused'' f"

definition writeJSON :: "json \<Rightarrow> response" where
  "writeJSON v =
     \<lparr>rs_status = 200, rs_header = [(''Content-Type'', ''application/json'')], rs_body = print_value v @ [newline]\<rparr>"

definition writeAck :: response where
  "writeAck = writeJSON (JObj [])"

text \<open>\<open>decodeOp\<close>, and the continuation of the handler on the decoded members.\<close>

definition decodeOp :: "('s, 'g) dispatcher \<Rightarrow> handlerCtx \<Rightarrow> ((string \<times> json) list \<Rightarrow> ('s, 'g) face \<Rightarrow> response \<times> ('s, 'g) face) \<Rightarrow>
    ('s, 'g) face \<Rightarrow> response \<times> ('s, 'g) face" where
  "decodeOp d hc k f =
     (case decodeStrictBytes (op_schema (hc_op hc)) (hc_body hc) of
        Inl _ \<Rightarrow> mandateDeny d hc dc_Malformed dc_Malformed ''malformed request body'' f
      | Inr ms \<Rightarrow> k ms f)"

definition assertWriteGrant :: "('s, 'g) dispatcher \<Rightarrow> handlerCtx \<Rightarrow> (('s, 'g) face \<Rightarrow> response \<times> ('s, 'g) face) \<Rightarrow>
    ('s, 'g) face \<Rightarrow> response \<times> ('s, 'g) face" where
  "assertWriteGrant d hc k f =
     (if IntentWrite \<in> set (ps_GrantedIntents (hc_ps hc)) then k f
      else mandateDeny d hc dc_IntentDenied dc_IntentDenied ''intent denied for operation'' f)"

section \<open>Directories\<close>

definition maxWalkDepth :: nat where "maxWalkDepth = 256"

text \<open>The loop of \<open>EnsureDir\<close> over the prefixes of the directory.\<close>

fun ensure_levels :: "('s, 'g) dispatcher \<Rightarrow> string \<Rightarrow> string list \<Rightarrow> ('s, 'g) face \<Rightarrow> (south_err, unit) res \<times> ('s, 'g) face" where
  "ensure_levels d scope [] f = (Inr (), f)"
| "ensure_levels d scope (p # ps) f =
     (case ctx_err f of
        (True, f1) \<Rightarrow> (Inl (RawStore CtxErr), f1)
      | (False, f1) \<Rightarrow>
          (case engine d scope (CallMakeDir p) f1 of
             (Inr _, f2) \<Rightarrow> ensure_levels d scope ps f2
           | (Inl e, f2) \<Rightarrow> if is_fs_ErrExist e then ensure_levels d scope ps f2 else (Inl e, f2)))"

definition dir_prefixes :: "string list \<Rightarrow> string list" where
  "dir_prefixes parts = map (\<lambda>i. join_with CHR ''/'' (take (Suc i) parts)) [0 ..< length parts]"

definition EnsureDir :: "('s, 'g) dispatcher \<Rightarrow> string \<Rightarrow> string \<Rightarrow> ('s, 'g) face \<Rightarrow> (south_err, unit) res \<times> ('s, 'g) face" where
  "EnsureDir d scope dir f =
     (if dir = [] then (Inr (), f)
      else (let parts = split_on CHR ''/'' dir in
        if maxWalkDepth < length parts then (Inl sErrInvalidPath, f)
        else ensure_levels d scope (dir_prefixes parts) f))"

definition unit_reply :: "(south_err, engine_reply) res \<times> ('s, 'g) face \<Rightarrow> (south_err, unit) res \<times> ('s, 'g) face" where
  "unit_reply r = (case r of (Inl e, f) \<Rightarrow> (Inl e, f) | (Inr _, f) \<Rightarrow> (Inr (), f))"

definition makeDirs :: "('s, 'g) dispatcher \<Rightarrow> string \<Rightarrow> string \<Rightarrow> bool \<Rightarrow> ('s, 'g) face \<Rightarrow> (south_err, unit) res \<times> ('s, 'g) face" where
  "makeDirs d scope rel parents f =
     (if \<not> parents then unit_reply (engine d scope (CallMakeDir rel) f)
      else (let parts = split_on CHR ''/'' rel in
        if maxWalkDepth < length parts then (Inl sErrInvalidPath, f)
        else if length parts = 1 then unit_reply (engine d scope (CallMakeDir rel) f)
        else
          (case EnsureDir d scope (join_with CHR ''/'' (butlast parts)) f of
             (Inl e, f1) \<Rightarrow> (Inl e, f1)
           | (Inr _, f1) \<Rightarrow> unit_reply (engine d scope (CallMakeDir rel) f1))))"

definition handleMakeDirectory :: "('s, 'g) dispatcher \<Rightarrow> handlerCtx \<Rightarrow> ('s, 'g) face \<Rightarrow> response \<times> ('s, 'g) face" where
  "handleMakeDirectory d hc =
     decodeOp d hc (\<lambda>ms. assertWriteGrant d hc (\<lambda>f.
       case makeDirs d (hc_scope hc) (enginePath (hc_canonPath hc)) (get_bool ''make_parents'' ms) f of
         (Inl e, f1) \<Rightarrow> deny_engine d hc e f1
       | (Inr _, f1) \<Rightarrow> (writeAck, f1)))"

definition infos_of :: "engine_reply \<Rightarrow> FileInfo list" where
  "infos_of r = (case r of ReplyInfos xs \<Rightarrow> xs | _ \<Rightarrow> [])"

definition info_of :: "engine_reply \<Rightarrow> FileInfo" where
  "info_of r = (case r of ReplyInfo x \<Rightarrow> x | _ \<Rightarrow> \<lparr>fi_name = [], fi_size = 0, fi_is_dir = False\<rparr>)"

definition handleMoveDirectory :: "('s, 'g) dispatcher \<Rightarrow> handlerCtx \<Rightarrow> ('s, 'g) face \<Rightarrow> response \<times> ('s, 'g) face" where
  "handleMoveDirectory d hc =
     decodeOp d hc (\<lambda>ms. assertWriteGrant d hc (\<lambda>f.
       let src = enginePath (hc_canonSource hc); dst = enginePath (hc_canonDest hc) in
       case engine d (hc_scope hc) (CallMoveDir src dst False) f of
         (Inl e, f1) \<Rightarrow> deny_engine d hc e f1
       | (Inr _, f1) \<Rightarrow> (writeAck, f1\<lparr>fc_ids := evictTree (hc_scope hc) (guestPathFromRel src) (fc_ids f1)\<rparr>)))"

definition remove_dir_now :: "('s, 'g) dispatcher \<Rightarrow> handlerCtx \<Rightarrow> string \<Rightarrow> ('s, 'g) face \<Rightarrow> response \<times> ('s, 'g) face" where
  "remove_dir_now d hc rel f =
     (case engine d (hc_scope hc) (CallRemoveDir rel) f of
        (Inl e, f1) \<Rightarrow> deny_engine d hc e f1
      | (Inr _, f1) \<Rightarrow> (writeAck, f1\<lparr>fc_ids := evictTree (hc_scope hc) (guestPathFromRel rel) (fc_ids f1)\<rparr>))"

definition handleRemoveDirectory :: "('s, 'g) dispatcher \<Rightarrow> handlerCtx \<Rightarrow> ('s, 'g) face \<Rightarrow> response \<times> ('s, 'g) face" where
  "handleRemoveDirectory d hc =
     decodeOp d hc (\<lambda>ms. assertWriteGrant d hc (\<lambda>f.
       let rel = enginePath (hc_canonPath hc) in
       if get_bool ''recursive'' ms then remove_dir_now d hc rel f
       else
         (case engine d (hc_scope hc) (CallList rel) f of
            (Inl e, f1) \<Rightarrow> deny_engine d hc e f1
          | (Inr r, f1) \<Rightarrow>
              if infos_of r \<noteq> [] then mandateDeny d hc dc_DirNotEmpty dc_DirNotEmpty ''directory not empty'' f1
              else remove_dir_now d hc rel f1)))"

section \<open>Files\<close>

definition handleCopyFile :: "('s, 'g) dispatcher \<Rightarrow> handlerCtx \<Rightarrow> ('s, 'g) face \<Rightarrow> response \<times> ('s, 'g) face" where
  "handleCopyFile d hc =
     decodeOp d hc (\<lambda>ms. assertWriteGrant d hc (\<lambda>f.
       let src = enginePath (hc_canonSource hc); dst = enginePath (hc_canonDest hc) in
       case engine d (hc_scope hc) (CallCopyFile src dst (get_bool ''overwrite_existing'' ms)) f of
         (Inl e, f1) \<Rightarrow> deny_engine d hc e f1
       | (Inr _, f1) \<Rightarrow> (writeAck, f1)))"

definition handleMoveFile :: "('s, 'g) dispatcher \<Rightarrow> handlerCtx \<Rightarrow> ('s, 'g) face \<Rightarrow> response \<times> ('s, 'g) face" where
  "handleMoveFile d hc =
     decodeOp d hc (\<lambda>ms. assertWriteGrant d hc (\<lambda>f.
       let src = enginePath (hc_canonSource hc); dst = enginePath (hc_canonDest hc) in
       case engine d (hc_scope hc) (CallMoveFile src dst (get_bool ''overwrite_existing'' ms)) f of
         (Inl e, f1) \<Rightarrow> deny_engine d hc e f1
       | (Inr _, f1) \<Rightarrow> (writeAck, f1\<lparr>fc_ids := evict (hc_scope hc) (guestPathFromRel src) (fc_ids f1)\<rparr>)))"

definition handleRemoveFile :: "('s, 'g) dispatcher \<Rightarrow> handlerCtx \<Rightarrow> ('s, 'g) face \<Rightarrow> response \<times> ('s, 'g) face" where
  "handleRemoveFile d hc =
     decodeOp d hc (\<lambda>ms. assertWriteGrant d hc (\<lambda>f.
       let rel = enginePath (hc_canonPath hc) in
       case engine d (hc_scope hc) (CallRemoveFile rel) f of
         (Inl e, f1) \<Rightarrow> deny_engine d hc e f1
       | (Inr _, f1) \<Rightarrow> (writeAck, f1\<lparr>fc_ids := evict (hc_scope hc) (guestPathFromRel rel) (fc_ids f1)\<rparr>)))"

definition octet_stream :: string where "octet_stream = ''application/octet-stream''"

text \<open>\<open>ext\<close> is what follows the last dot, \<open>None\<close> without a dot.\<close>

definition ext_of :: "string \<Rightarrow> string option" where
  "ext_of rel = (if CHR ''.'' \<in> set rel then Some (rev (takeWhile (\<lambda>c. c \<noteq> CHR ''.'') (rev rel))) else None)"

definition mimeForPath :: "string \<Rightarrow> string" where
  "mimeForPath rel =
     (case ext_of rel of
        None \<Rightarrow> octet_stream
      | Some e \<Rightarrow>
          (let x = map lower_byte e in
           if x = ''txt'' then ''text/plain''
           else if x = ''json'' then ''application/json''
           else if x = ''html'' \<or> x = ''htm'' then ''text/html''
           else if x = ''png'' then ''image/png''
           else if x = ''jpg'' \<or> x = ''jpeg'' then ''image/jpeg''
           else octet_stream))"

text \<open>The file and directory objects of the responses; \<open>guest\<close> is the displayed path.\<close>

definition file_json :: "('s, 'g) dispatcher \<Rightarrow> string \<Rightarrow> string \<Rightarrow> FileInfo \<Rightarrow> string \<Rightarrow> json" where
  "file_json d rel guest i uid =
     JObj [(''path'', JStr guest), (''size'', json_int (int (fi_size i))), (''mtime'', JStr (dp_mtime d rel i)),
           (''mime'', JStr (mimeForPath rel)), (''uuid'', JStr uid)]"

definition directory_json :: "('s, 'g) dispatcher \<Rightarrow> string \<Rightarrow> string \<Rightarrow> FileInfo \<Rightarrow> json" where
  "directory_json d rel guest i = JObj [(''path'', JStr guest), (''mtime'', JStr (dp_mtime d rel i))]"

definition handleReadFile :: "('s, 'g) dispatcher \<Rightarrow> handlerCtx \<Rightarrow> ('s, 'g) face \<Rightarrow> response \<times> ('s, 'g) face" where
  "handleReadFile d hc =
     decodeOp d hc (\<lambda>ms f.
       let rel = enginePath (hc_canonPath hc) in
       case engine d (hc_scope hc) (CallStat rel) f of
         (Inl e, f1) \<Rightarrow> deny_engine d hc e f1
       | (Inr r, f1) \<Rightarrow>
           if fi_is_dir (info_of r) then mandateDeny d hc dc_NotFound dc_NotFound ''object is not a file'' f1
           else
             (let (uid, f2) = mint_id d (hc_scope hc) (guestPathFromRel rel) f1
              in (writeJSON (JObj [(''file'', file_json d rel (guestDisplayPath rel (hc_subtree hc)) (info_of r) uid)]), f2)))"

definition handleReadMetadata :: "('s, 'g) dispatcher \<Rightarrow> handlerCtx \<Rightarrow> ('s, 'g) face \<Rightarrow> response \<times> ('s, 'g) face" where
  "handleReadMetadata d hc =
     decodeOp d hc (\<lambda>ms f.
       let rel = enginePath (hc_canonPath hc); guest = guestDisplayPath rel (hc_subtree hc) in
       case engine d (hc_scope hc) (CallStat rel) f of
         (Inl e, f1) \<Rightarrow> deny_engine d hc e f1
       | (Inr r, f1) \<Rightarrow>
           if fi_is_dir (info_of r) then (writeJSON (JObj [(''directory'', directory_json d rel guest (info_of r))]), f1)
           else
             (let (uid, f2) = mint_id d (hc_scope hc) (guestPathFromRel rel) f1
              in (writeJSON (JObj [(''file'', file_json d rel guest (info_of r) uid)]), f2)))"

section \<open>Listing\<close>

definition defaultPageSize :: int where "defaultPageSize = 1000"

definition listOneLevel :: "('s, 'g) dispatcher \<Rightarrow> string \<Rightarrow> string \<Rightarrow> ('s, 'g) face \<Rightarrow>
    (south_err, FileInfo list) res \<times> ('s, 'g) face" where
  "listOneLevel d scope rel f =
     (case engine d scope (CallList rel) f of
        (Inl e, f1) \<Rightarrow> (Inl e, f1)
      | (Inr r, f1) \<Rightarrow> (Inr (sort_slice (\<lambda>a b. fi_name a < fi_name b) (infos_of r)), f1))"

definition child_rel :: "string \<Rightarrow> string \<Rightarrow> string" where
  "child_rel rel name = (if rel \<noteq> dot \<and> rel \<noteq> [] then rel @ ''/'' @ name else name)"

text \<open>
  The loop of \<open>walk\<close> over its explicit stack of frames, the top frame first. A frame is a
  directory and its entries still to visit. \<open>emit\<close> is the callback: it returns whether to go on
  and its own state. The stack is at most \<open>maxWalkDepth\<close> deep.
\<close>

type_synonym frame = "string \<times> FileInfo list"

definition frame_weights :: "frame list \<Rightarrow> nat list" where
  "frame_weights st =
     map (\<lambda>(rel, es). Suc (length es)) (rev st) @ replicate (maxWalkDepth - length st) 0"

lemma weights_pop:
  "(frame_weights st, frame_weights ((rel, []) # st)) \<in> lenlex less_than"
proof (cases "length st < maxWalkDepth")
  case True
  then obtain n where n: "maxWalkDepth - length st = Suc n" "maxWalkDepth - length ((rel, []) # st) = n"
    by (metis Suc_diff_Suc diff_Suc_Suc length_Cons Suc_diff_le diff_Suc_eq_diff_pred less_imp_Suc_add add_diff_cancel_left' diff_Suc_1)
  let ?w = "map (\<lambda>(rel, es). Suc (length es)) (rev st)"
  have "frame_weights st = ?w @ 0 # replicate n 0" "frame_weights ((rel, []) # st) = ?w @ Suc 0 # replicate n 0"
    using n by (simp_all add: frame_weights_def)
  then show ?thesis by (simp add: lenlex_conv lex_append_leftI)
next
  case False
  then show ?thesis by (simp add: lenlex_conv frame_weights_def)
qed

lemma lenlex_at:
  "m < n \<Longrightarrow> length xs = length ys \<Longrightarrow> (w @ m # xs, w @ n # ys) \<in> lenlex less_than"
  by (simp add: lenlex_conv lex_append_leftI)

lemma weights_next:
  "(frame_weights ((rel, rest) # st), frame_weights ((rel, e # rest) # st)) \<in> lenlex less_than"
  using lenlex_at [of "Suc (length rest)" "Suc (Suc (length rest))"]
  by (simp add: frame_weights_def)

lemma weights_push:
  assumes "Suc (length st) < maxWalkDepth"
  shows "(frame_weights ((c, cs) # (rel, rest) # st), frame_weights ((rel, e # rest) # st)) \<in> lenlex less_than"
proof -
  have "frame_weights ((c, cs) # (rel, rest) # st) = map (\<lambda>(rel, es). Suc (length es)) (rev st) @
      Suc (length rest) # Suc (length cs) # replicate (maxWalkDepth - Suc (Suc (length st))) 0"
    "frame_weights ((rel, e # rest) # st) = map (\<lambda>(rel, es). Suc (length es)) (rev st) @
      Suc (Suc (length rest)) # replicate (maxWalkDepth - Suc (length st)) 0"
    by (simp_all add: frame_weights_def)
  then show ?thesis using assms by (simp only:) (rule lenlex_at, auto)
qed

function walk_loop :: "('s, 'g) dispatcher \<Rightarrow> string \<Rightarrow> bool \<Rightarrow>
    (string \<Rightarrow> FileInfo \<Rightarrow> 'a \<Rightarrow> ('s, 'g) face \<Rightarrow> bool \<times> 'a \<times> ('s, 'g) face) \<Rightarrow>
    frame list \<Rightarrow> 'a \<Rightarrow> ('s, 'g) face \<Rightarrow> (south_err, unit) res \<times> 'a \<times> ('s, 'g) face" where
  "walk_loop d scope recursive emit [] a f = (Inr (), a, f)"
| "walk_loop d scope recursive emit ((rel, es) # st) a f =
     (case ctx_err f of
        (True, f1) \<Rightarrow> (Inl (RawStore CtxErr), a, f1)
      | (False, f1) \<Rightarrow>
          (case es of
             [] \<Rightarrow> walk_loop d scope recursive emit st a f1
           | e # rest \<Rightarrow>
               (case emit (child_rel rel (fi_name e)) e a f1 of
                  (False, a1, f2) \<Rightarrow> (Inr (), a1, f2)
                | (True, a1, f2) \<Rightarrow>
                    if recursive \<and> fi_is_dir e then
                      if maxWalkDepth \<le> Suc (length st) then (Inl RawOther, a1, f2)
                      else
                        (case listOneLevel d scope (child_rel rel (fi_name e)) f2 of
                           (Inl err, f3) \<Rightarrow> (Inl err, a1, f3)
                         | (Inr children, f3) \<Rightarrow>
                             walk_loop d scope recursive emit
                               ((child_rel rel (fi_name e), children) # (rel, rest) # st) a1 f3)
                    else walk_loop d scope recursive emit ((rel, rest) # st) a1 f2)))"
  by pat_completeness auto

termination
proof (relation "inv_image (lenlex less_than) (\<lambda>(d, scope, recursive, emit, st, a, f). frame_weights st)")
  show "wf (inv_image (lenlex less_than) (\<lambda>(d, scope, recursive, emit, st, a, f). frame_weights st))"
    by (intro wf_inv_image wf_lenlex) simp
qed (auto simp: weights_pop weights_next weights_push)

declare walk_loop.simps(2) [simp del]

definition walk :: "('s, 'g) dispatcher \<Rightarrow> string \<Rightarrow> string \<Rightarrow> bool \<Rightarrow>
    (string \<Rightarrow> FileInfo \<Rightarrow> 'a \<Rightarrow> ('s, 'g) face \<Rightarrow> bool \<times> 'a \<times> ('s, 'g) face) \<Rightarrow>
    'a \<Rightarrow> ('s, 'g) face \<Rightarrow> (south_err, unit) res \<times> 'a \<times> ('s, 'g) face" where
  "walk d scope rootRel recursive emit a f =
     (case listOneLevel d scope rootRel f of
        (Inl e, f1) \<Rightarrow> (Inl e, a, f1)
      | (Inr es, f1) \<Rightarrow> walk_loop d scope recursive emit [(rootRel, es)] a f1)"

text \<open>The page under construction: its entries, the last emitted path and the next cursor.\<close>

record page =
  pg_entries :: "json list"
  pg_last :: string
  pg_cursor :: string

definition list_emit :: "('s, 'g) dispatcher \<Rightarrow> handlerCtx \<Rightarrow> string \<Rightarrow> int \<Rightarrow>
    string \<Rightarrow> FileInfo \<Rightarrow> page \<Rightarrow> ('s, 'g) face \<Rightarrow> bool \<times> page \<times> ('s, 'g) face" where
  "list_emit d hc after limit rel i p f =
     (if after \<noteq> [] \<and> rel \<le> after then (True, p, f)
      else if limit \<le> int (length (pg_entries p)) then (False, p\<lparr>pg_cursor := encodeCursor (pg_last p)\<rparr>, f)
      else
        (let guest = guestDisplayPath rel (hc_subtree hc) in
         if fi_is_dir i then
           (True, p\<lparr>pg_entries := pg_entries p @ [JObj [(''directory'', directory_json d rel guest i)]], pg_last := rel\<rparr>, f)
         else
           (let (uid, f1) = mint_id d (hc_scope hc) (guestPathFromRel rel) f
            in (True, p\<lparr>pg_entries := pg_entries p @ [JObj [(''file'', file_json d rel guest i uid)]], pg_last := rel\<rparr>, f1))))"

definition empty_list_page :: page where
  "empty_list_page = \<lparr>pg_entries = [], pg_last = [], pg_cursor = []\<rparr>"

definition list_limit :: "int \<Rightarrow> int" where
  "list_limit n = (if n \<le> 0 then defaultPageSize else n)"

definition handleListDirectory :: "('s, 'g) dispatcher \<Rightarrow> handlerCtx \<Rightarrow> ('s, 'g) face \<Rightarrow> response \<times> ('s, 'g) face" where
  "handleListDirectory d hc =
     decodeOp d hc (\<lambda>ms f.
       case decodeCursor (get_str ''cursor'' ms) of
         None \<Rightarrow> mandateDeny d hc dc_Malformed dc_Malformed ''malformed cursor'' f
       | Some after \<Rightarrow>
           (case walk d (hc_scope hc) (enginePath (hc_canonPath hc)) (get_bool ''recursive'' ms)
                   (list_emit d hc after (list_limit (get_int ''limit'' ms))) empty_list_page f of
              (Inl e, p, f1) \<Rightarrow> deny_engine d hc e f1
            | (Inr _, p, f1) \<Rightarrow>
                (writeJSON (JObj [(''entries'', JArr (pg_entries p)), (''cursor'', JStr (pg_cursor p))]), f1)))"

section \<open>Object handles\<close>

definition recordToFileObject :: "handle_record \<Rightarrow> json" where
  "recordToFileObject r =
     JObj [(''id'', JStr (hr_file_id r)), (''type'', JStr ''file''), (''filename'', JStr (hr_filename r)),
           (''mime_type'', JStr (hr_mime r)), (''size_bytes'', json_int (sint (hr_size r))),
           (''created_at'', JStr (hr_created_at r))]"

definition denyHandleStoreErr :: "('s, 'g) dispatcher \<Rightarrow> handlerCtx \<Rightarrow> hs_err \<Rightarrow> ('s, 'g) face \<Rightarrow> response \<times> ('s, 'g) face" where
  "denyHandleStoreErr d hc e f =
     (case e of
        ErrNotFound \<Rightarrow> mandateDeny d hc dc_NotFound dc_NotFound ''no such file_id in this scope'' f
      | ErrStoreUnavailable \<Rightarrow> mandateDeny d hc dc_BackendUnavailable dc_BackendUnavailable ''handle store unavailable'' f
      | _ \<Rightarrow> mandateDeny d hc dc_BackendUnavailable dc_BackendUnavailable ''handle store error'' f)"

definition requireHandles :: "('s, 'g) dispatcher \<Rightarrow> handlerCtx \<Rightarrow> (disk_store \<Rightarrow> ('s, 'g) face \<Rightarrow> response \<times> ('s, 'g) face) \<Rightarrow>
    ('s, 'g) face \<Rightarrow> response \<times> ('s, 'g) face" where
  "requireHandles d hc k f =
     (case fc_handles f of
        None \<Rightarrow> mandateDeny d hc dc_BackendUnavailable dc_BackendUnavailable ''handle store not configured'' f
      | Some st \<Rightarrow> k st f)"

definition handleGetFileMetadata :: "('s, 'g) dispatcher \<Rightarrow> handlerCtx \<Rightarrow> ('s, 'g) face \<Rightarrow> response \<times> ('s, 'g) face" where
  "handleGetFileMetadata d hc =
     decodeOp d hc (\<lambda>ms. requireHandles d hc (\<lambda>st f.
       if get_str ''file_id'' ms = [] then mandateDeny d hc dc_NotFound dc_NotFound ''no such file_id in this scope'' f
       else
         (case handle_op d (hc_scope hc) (\<lambda>_ st. (get_handle (get_str ''file_id'' ms) (hc_scope hc) st, st)) st f of
            (Inl e, f1) \<Rightarrow> denyHandleStoreErr d hc e f1
          | (Inr r, f1) \<Rightarrow> (writeJSON (recordToFileObject r), f1))))"

definition handleFileDelete :: "('s, 'g) dispatcher \<Rightarrow> handlerCtx \<Rightarrow> ('s, 'g) face \<Rightarrow> response \<times> ('s, 'g) face" where
  "handleFileDelete d hc =
     decodeOp d hc (\<lambda>ms. assertWriteGrant d hc (requireHandles d hc (\<lambda>st f.
       if get_str ''file_id'' ms = [] then mandateDeny d hc dc_NotFound dc_NotFound ''no such file_id in this scope'' f
       else
         (case handle_op d (hc_scope hc) (\<lambda>q. delete_handle q (get_str ''file_id'' ms) (hc_scope hc)) st f of
            (Inl e, f1) \<Rightarrow> denyHandleStoreErr d hc e f1
          | (Inr _, f1) \<Rightarrow> (writeAck, f1)))))"

definition listOrderFromWire :: "string \<Rightarrow> list_order" where
  "listOrderFromWire order = (if order = ''desc'' then ListOrderDesc else ListOrderAsc)"

definition list_files_json :: "list_page \<Rightarrow> json" where
  "list_files_json pg =
     JObj ([(''data'', JArr (map recordToFileObject (lp_records pg))), (''has_more'', JBool (lp_has_more pg))] @
       (if lp_records pg = [] then []
        else omitempty ''first_id'' (hr_file_id (hd (lp_records pg))) @ omitempty ''last_id'' (hr_file_id (last (lp_records pg)))) @
       omitempty ''next_cursor'' (lp_next_cursor pg))"

definition handleListFiles :: "('s, 'g) dispatcher \<Rightarrow> handlerCtx \<Rightarrow> ('s, 'g) face \<Rightarrow> response \<times> ('s, 'g) face" where
  "handleListFiles d hc =
     decodeOp d hc (\<lambda>ms. requireHandles d hc (\<lambda>st f.
       let i = \<lparr>li_scope = hc_scope hc, li_cursor = get_str ''after'' ms, li_limit = get_int ''limit'' ms,
                li_order = listOrderFromWire (get_str ''order'' ms)\<rparr> in
       case handle_op d (hc_scope hc) (\<lambda>_ st. (list_handles i st, st)) st f of
         (Inl e, f1) \<Rightarrow> denyHandleStoreErr d hc e f1
       | (Inr pg, f1) \<Rightarrow> (writeJSON (list_files_json pg), f1)))"

section \<open>Registry\<close>

definition unimplemented :: "('s, 'g) face \<Rightarrow> response \<times> ('s, 'g) face" where
  "unimplemented f = (WriteRESTDeny (MapDeny dc_Unimplemented) ''operation not implemented in this build'', f)"

fun handler :: "Op \<Rightarrow> ('s, 'g) dispatcher \<Rightarrow> handlerCtx \<Rightarrow> ('s, 'g) face \<Rightarrow> response \<times> ('s, 'g) face" where
  "handler OpListDirectory d hc f = handleListDirectory d hc f"
| "handler OpMakeDirectory d hc f = handleMakeDirectory d hc f"
| "handler OpMoveDirectory d hc f = handleMoveDirectory d hc f"
| "handler OpRemoveDirectory d hc f = handleRemoveDirectory d hc f"
| "handler OpCopyFile d hc f = handleCopyFile d hc f"
| "handler OpMoveFile d hc f = handleMoveFile d hc f"
| "handler OpRemoveFile d hc f = handleRemoveFile d hc f"
| "handler OpReadFile d hc f = handleReadFile d hc f"
| "handler OpReadMetadata d hc f = handleReadMetadata d hc f"
| "handler OpGetFileMetadata d hc f = handleGetFileMetadata d hc f"
| "handler OpListFiles d hc f = handleListFiles d hc f"
| "handler OpFileDelete d hc f = handleFileDelete d hc f"
| "handler _ d hc f = unimplemented f"

end
