(* ===== verification/SouthEffects.thy ===== *)
theory SouthEffects
  imports SouthHandlers
begin

text \<open>
  What a handler may do. \<open>runs\<close> says that a finished handler added only permitted effects to the
  trace and answered in step with the audit log; \<open>quiet\<close> says the same of a part of a handler
  that has not answered yet. One rule per building block carries the proofs of the handlers.
\<close>

section \<open>Permitted effects\<close>

fun call_mutates :: "engine_call \<Rightarrow> bool" where
  "call_mutates (CallList _) = False"
| "call_mutates (CallStat _) = False"
| "call_mutates (CallReadRange _ _ _) = False"
| "call_mutates _ = True"

text \<open>The paths of a call lie in the subtree; a parent directory may be above it.\<close>

fun call_inside :: "string \<Rightarrow> engine_call \<Rightarrow> bool" where
  "call_inside sub (CallList p) = pathUnderPrefix p sub"
| "call_inside sub (CallStat p) = pathUnderPrefix p sub"
| "call_inside sub (CallMakeDir p) = (pathUnderPrefix p sub \<or> pathUnderPrefix sub p)"
| "call_inside sub (CallMoveDir a b _) = (pathUnderPrefix a sub \<and> pathUnderPrefix b sub)"
| "call_inside sub (CallRemoveDir p) = pathUnderPrefix p sub"
| "call_inside sub (CallCopyFile a b _) = (pathUnderPrefix a sub \<and> pathUnderPrefix b sub)"
| "call_inside sub (CallMoveFile a b _) = (pathUnderPrefix a sub \<and> pathUnderPrefix b sub)"
| "call_inside sub (CallRemoveFile p) = pathUnderPrefix p sub"
| "call_inside sub (CallReadRange p _ _) = pathUnderPrefix p sub"
| "call_inside sub (CallWriteStream p _ _) = pathUnderPrefix p sub"
| "call_inside sub _ = False"

definition legs_inside :: "handlerCtx \<Rightarrow> bool" where
  "legs_inside hc \<longleftrightarrow> hc_subtree hc \<noteq> dot \<and>
     (if is_two_path (hc_op hc)
      then pathUnderPrefix (enginePath (hc_canonSource hc)) (hc_subtree hc) \<and>
           pathUnderPrefix (enginePath (hc_canonDest hc)) (hc_subtree hc)
      else pathUnderPrefix (enginePath (hc_canonPath hc)) (hc_subtree hc))"

text \<open>A move or copy reaches the engine only with a body its handler decoded.\<close>

definition decoded :: "handlerCtx \<Rightarrow> bool" where
  "decoded hc \<longleftrightarrow> is_two_path (hc_op hc) \<longrightarrow> (\<exists>ms. decodeStrictBytes (op_schema (hc_op hc)) (hc_body hc) = Inr ms)"

definition is_deny :: "FileActivityEvent \<Rightarrow> bool" where
  "is_deny ev \<longleftrightarrow> DispositionID (ev_Outcome ev) = DispositionDeny"

fun effect_ok :: "handlerCtx \<Rightarrow> effect \<Rightarrow> bool" where
  "effect_ok hc (EngineCalled s c) =
     (s = hc_scope hc \<and> decoded hc \<and>
      (call_mutates c \<longrightarrow> IntentWrite \<in> set (ps_GrantedIntents (hc_ps hc)) \<and> requiredIntentForOp (hc_op hc) = Some IntentWrite) \<and>
      (hc_subtree hc = [] \<or> \<not> legs_inside hc \<or> call_inside (hc_subtree hc) c))"
| "effect_ok hc (HandleCalled s) = (s = hc_scope hc)"
| "effect_ok hc (Audited ev b) = (is_deny ev \<and> ev_FilesystemID ev = hc_scope hc \<and> CorrelationUID ev = hc_reqID hc)"

fun is_audit :: "effect \<Rightarrow> bool" where
  "is_audit (Audited _ _) = True"
| "is_audit _ = False"

text \<open>
  The answer in step with the log: success leaves the allow record the last word; a refusal is
  preceded by its own deny record, and if that could not be made durable the answer is 503.
\<close>

definition answered :: "response \<Rightarrow> effect list \<Rightarrow> bool" where
  "answered r tr \<longleftrightarrow>
     rs_status r = 200 \<and> list_all (\<lambda>e. \<not> is_audit e) tr \<or>
     rs_status r \<ge> 400 \<and> (\<exists>pre ev b. tr = pre @ [Audited ev b] \<and> list_all (\<lambda>e. \<not> is_audit e) pre \<and>
       (b \<or> rs_status r = 503))"

text \<open>
  The state after a run is the one its effects lead to: the engine is where the calls of the
  trace bring it, the audit gate where the records of the trace bring it.
\<close>

fun replay_engine :: "('s, 'g) dispatcher \<Rightarrow> effect list \<Rightarrow> 's \<Rightarrow> 's" where
  "replay_engine d [] s = s"
| "replay_engine d (EngineCalled scope c # tr) s = replay_engine d tr (snd (dp_engine d scope c s))"
| "replay_engine d (_ # tr) s = replay_engine d tr s"

fun replay_guard :: "('s, 'g) dispatcher \<Rightarrow> effect list \<Rightarrow> 'g \<Rightarrow> 'g \<Rightarrow> bool" where
  "replay_guard d [] g g' \<longleftrightarrow> g' = g"
| "replay_guard d (Audited ev b # tr) g g' \<longleftrightarrow>
     ok (fst (dp_mandate d ev g)) = b \<and> replay_guard d tr (snd (dp_mandate d ev g)) g'"
| "replay_guard d (_ # tr) g g' \<longleftrightarrow> replay_guard d tr g g'"

definition does :: "('s, 'g) dispatcher \<Rightarrow> effect list \<Rightarrow> ('s, 'g) face \<Rightarrow> ('s, 'g) face \<Rightarrow> bool" where
  "does d tr f f' \<longleftrightarrow> fc_trace f' = fc_trace f @ tr \<and> fc_eng f' = replay_engine d tr (fc_eng f) \<and>
     replay_guard d tr (fc_guard f) (fc_guard f')"

definition quiet :: "('s, 'g) dispatcher \<Rightarrow> handlerCtx \<Rightarrow> ('s, 'g) face \<Rightarrow> ('s, 'g) face \<Rightarrow> bool" where
  "quiet d hc f f' \<longleftrightarrow> (\<exists>tr. does d tr f f' \<and> list_all (effect_ok hc) tr \<and> list_all (\<lambda>e. \<not> is_audit e) tr)"

definition runs :: "('s, 'g) dispatcher \<Rightarrow> handlerCtx \<Rightarrow> ('s, 'g) face \<Rightarrow> response \<times> ('s, 'g) face \<Rightarrow> bool" where
  "runs d hc f res \<longleftrightarrow> (\<exists>tr. does d tr f (snd res) \<and> list_all (effect_ok hc) tr \<and> answered (fst res) tr)"

section \<open>Rules\<close>

lemma replay_engine_append: "replay_engine d (t @ u) s = replay_engine d u (replay_engine d t s)"
  by (induction d t s rule: replay_engine.induct) simp_all

lemma replay_guard_append: "replay_guard d t g g1 \<Longrightarrow> replay_guard d u g1 g2 \<Longrightarrow> replay_guard d (t @ u) g g2"
  by (induction d t g g1 rule: replay_guard.induct) simp_all

lemma does_trans: "does d t f f1 \<Longrightarrow> does d u f1 f2 \<Longrightarrow> does d (t @ u) f f2"
  by (auto simp: does_def replay_engine_append intro: replay_guard_append)

lemma does_nothing: "does d [] f f' \<longleftrightarrow> fc_trace f' = fc_trace f \<and> fc_eng f' = fc_eng f \<and> fc_guard f' = fc_guard f"
  by (auto simp: does_def)

lemma quiet_refl [intro, simp]: "quiet d hc f f"
  by (auto simp: quiet_def does_nothing intro: exI [of _ "[]"])

lemma quiet_same:
  "fc_trace f' = fc_trace f \<Longrightarrow> fc_eng f' = fc_eng f \<Longrightarrow> fc_guard f' = fc_guard f \<Longrightarrow> quiet d hc f f'"
  by (auto simp: quiet_def does_nothing intro: exI [of _ "[]"])

lemma quiet_trans: "quiet d hc f f1 \<Longrightarrow> quiet d hc f1 f2 \<Longrightarrow> quiet d hc f f2"
  unfolding quiet_def using does_trans list_all_append by metis

lemma answered_after: "list_all (\<lambda>e. \<not> is_audit e) t \<Longrightarrow> answered r u \<Longrightarrow> answered r (t @ u)"
proof -
  assume t: "list_all (\<lambda>e. \<not> is_audit e) t" and u: "answered r u"
  from u consider "rs_status r = 200" "list_all (\<lambda>e. \<not> is_audit e) u"
    | pre ev b where "rs_status r \<ge> 400" "u = pre @ [Audited ev b]" "list_all (\<lambda>e. \<not> is_audit e) pre" "b \<or> rs_status r = 503"
    unfolding answered_def by blast
  then show ?thesis
  proof cases
    case 1
    then show ?thesis using t by (simp add: answered_def)
  next
    case (2 pre ev b)
    then have "t @ u = (t @ pre) @ [Audited ev b]" "list_all (\<lambda>e. \<not> is_audit e) (t @ pre)" using t by simp_all
    then show ?thesis using 2 unfolding answered_def by blast
  qed
qed

lemma runs_after:
  assumes "quiet d hc f f1" "runs d hc f1 res"
  shows "runs d hc f res"
proof -
  obtain t where t: "does d t f f1" "list_all (effect_ok hc) t" "list_all (\<lambda>e. \<not> is_audit e) t"
    using assms(1) by (auto simp: quiet_def)
  obtain u where u: "does d u f1 (snd res)" "list_all (effect_ok hc) u" "answered (fst res) u"
    using assms(2) by (auto simp: runs_def)
  have "does d (t @ u) f (snd res)" "list_all (effect_ok hc) (t @ u)" using does_trans [OF t(1) u(1)] t u by simp_all
  then show ?thesis unfolding runs_def using answered_after [OF t(3) u(3)] by blast
qed

lemma runs_quiet_ok: "quiet d hc f f' \<Longrightarrow> rs_status r = 200 \<Longrightarrow> runs d hc f (r, f')"
  by (auto simp: quiet_def runs_def answered_def)

lemma runs_ok:
  "rs_status r = 200 \<Longrightarrow> fc_trace f' = fc_trace f \<Longrightarrow> fc_eng f' = fc_eng f \<Longrightarrow> fc_guard f' = fc_guard f \<Longrightarrow> runs d hc f (r, f')"
  by (simp add: runs_quiet_ok quiet_same)

lemma status_json [simp]: "rs_status (writeJSON v) = 200" "rs_status writeAck = 200"
  by (simp_all add: writeJSON_def writeAck_def)

lemma status_deny: "rs_status (WriteRESTDeny v m) = WireStatus v"
  by (simp add: WriteRESTDeny_def)

lemma MapDeny_status_ge: "400 \<le> WireStatus (MapDeny c)"
  by (auto simp: MapDeny_def StatusForWireCode_def split: option.splits)

lemma status_audit_down: "WireStatus (MapDeny dc_AuditDown) = 503"
  by (simp add: MapDeny_def denyTable_def StatusForWireCode_def class_names code_names)

lemma runs_mandateDeny:
  assumes ne: "reason \<noteq> []"
  shows "runs d hc f (mandateDeny d hc reason cls msg f)"
proof -
  define ev where "ev = mapAuditEvent ((denyAuditEvent (hc_op hc) (hc_ps hc) (hc_req hc) (hc_grant hc) (hc_canonDest hc) reason)
                 \<lparr>ae_RequestID := hc_reqID hc\<rparr>)"
  obtain r g where g: "dp_mandate d ev (fc_guard f) = (r, g)" by fastforce
  have ev: "effect_ok hc (Audited ev b)" for b
    using ne by (simp add: ev_def mapAuditEvent_def denyAuditEvent_def auditEvent_of_def is_deny_def)
  have "does d [Audited ev (ok r)] f (snd (mandateDeny d hc reason cls msg f)) \<and>
      answered (fst (mandateDeny d hc reason cls msg f)) [Audited ev (ok r)]"
  proof (cases r)
    case (Inl a)
    then show ?thesis using g status_audit_down
      by (auto simp: mandateDeny_def mandate_def emit_effect_def Let_def ev_def [symmetric] answered_def status_deny does_def)
  next
    case (Inr a)
    then show ?thesis using g MapDeny_status_ge [of cls]
      by (auto simp: mandateDeny_def mandate_def emit_effect_def Let_def ev_def [symmetric] answered_def status_deny does_def
          MapDenyDegraded_def)
  qed
  then show ?thesis using ev unfolding runs_def by (intro exI [of _ "[Audited ev (ok r)]"]) simp
qed

lemma truth_nonempty: "auditTruthForEngineErr e \<noteq> []"
  by (simp add: auditTruthForEngineErr_def class_names)

lemma runs_deny_engine: "runs d hc f (deny_engine d hc e f)"
  unfolding deny_engine_def by (rule runs_mandateDeny [OF truth_nonempty])

lemma class_nonempty [simp]:
  "dc_Malformed \<noteq> []" "dc_IntentDenied \<noteq> []" "dc_DirNotEmpty \<noteq> []" "dc_NotFound \<noteq> []" "dc_BackendUnavailable \<noteq> []"
  by (simp_all add: class_names)

lemma runs_decodeOp:
  "(\<And>ms. decodeStrictBytes (op_schema (hc_op hc)) (hc_body hc) = Inr ms \<Longrightarrow> runs d hc f (k ms f)) \<Longrightarrow> runs d hc f (decodeOp d hc k f)"
  by (auto simp: decodeOp_def runs_mandateDeny split: sum.splits)

lemma runs_assertWriteGrant:
  "(IntentWrite \<in> set (ps_GrantedIntents (hc_ps hc)) \<Longrightarrow> runs d hc f (k f)) \<Longrightarrow> runs d hc f (assertWriteGrant d hc k f)"
  by (auto simp: assertWriteGrant_def runs_mandateDeny)

lemma runs_requireHandles:
  "(\<And>st. fc_handles f = Some st \<Longrightarrow> runs d hc f (k st f)) \<Longrightarrow> runs d hc f (requireHandles d hc k f)"
  by (auto simp: requireHandles_def runs_mandateDeny split: option.splits)

lemma runs_denyHandleStoreErr: "runs d hc f (denyHandleStoreErr d hc e f)"
  by (cases e) (simp_all add: denyHandleStoreErr_def runs_mandateDeny)

lemma engine_does: "engine d scope c f = (r, f1) \<Longrightarrow> does d [EngineCalled scope c] f f1"
  by (auto simp: engine_def emit_effect_def Let_def does_def split: prod.splits)

lemma quiet_engine:
  "engine d (hc_scope hc) c f = (r, f1) \<Longrightarrow> effect_ok hc (EngineCalled (hc_scope hc) c) \<Longrightarrow> quiet d hc f f1"
  unfolding quiet_def by (intro exI [of _ "[EngineCalled (hc_scope hc) c]"]) (simp add: engine_does)

lemma quiet_handle_op: "handle_op d (hc_scope hc) h st f = (r, f1) \<Longrightarrow> quiet d hc f f1"
  unfolding quiet_def
  by (intro exI [of _ "[HandleCalled (hc_scope hc)]"]) (auto simp: handle_op_def emit_effect_def does_def Let_def split: prod.splits)

lemma quiet_ctx_err: "ctx_err f = (b, f1) \<Longrightarrow> quiet d hc f f1"
  by (rule quiet_same) (auto simp: ctx_err_def split: option.splits nat.splits)

lemma quiet_mint_id: "mint_id d scope p f = (u, f1) \<Longrightarrow> quiet d hc f f1"
  by (rule quiet_same) (auto simp: mint_id_def Let_def split: prod.splits)

text \<open>A call of the engine followed by the answer to its outcome.\<close>

lemma runs_engine:
  assumes "effect_ok hc (EngineCalled (hc_scope hc) c)"
    and "\<And>r f1. engine d (hc_scope hc) c f = (Inr r, f1) \<Longrightarrow> runs d hc f1 (k r f1)"
  shows "runs d hc f (case engine d (hc_scope hc) c f of (Inl e, f1) \<Rightarrow> deny_engine d hc e f1 | (Inr r, f1) \<Rightarrow> k r f1)"
proof -
  obtain x f1 where x: "engine d (hc_scope hc) c f = (x, f1)" by fastforce
  note q = quiet_engine [OF x assms(1)]
  show ?thesis
  proof (cases x)
    case (Inl e)
    then show ?thesis using x runs_after [OF q runs_deny_engine] by simp
  next
    case (Inr r)
    then show ?thesis using x runs_after [OF q assms(2)] by simp
  qed
qed

lemma runs_handle_op:
  assumes "\<And>r f1. handle_op d (hc_scope hc) h st f = (Inr r, f1) \<Longrightarrow> runs d hc f1 (k r f1)"
  shows "runs d hc f (case handle_op d (hc_scope hc) h st f of (Inl e, f1) \<Rightarrow> denyHandleStoreErr d hc e f1 | (Inr r, f1) \<Rightarrow> k r f1)"
proof -
  obtain x f1 where x: "handle_op d (hc_scope hc) h st f = (x, f1)" by fastforce
  note q = quiet_handle_op [OF x]
  show ?thesis
  proof (cases x)
    case (Inl e)
    then show ?thesis using x runs_after [OF q runs_denyHandleStoreErr] by simp
  next
    case (Inr r)
    then show ?thesis using x runs_after [OF q assms] by simp
  qed
qed

section \<open>Handlers\<close>

lemma legs_two: "is_two_path (hc_op hc) \<Longrightarrow> legs_inside hc \<longleftrightarrow> hc_subtree hc \<noteq> dot \<and>
    pathUnderPrefix (enginePath (hc_canonSource hc)) (hc_subtree hc) \<and> pathUnderPrefix (enginePath (hc_canonDest hc)) (hc_subtree hc)"
  by (simp add: legs_inside_def)

lemma two_path_writes: "is_two_path x \<Longrightarrow> requiredIntentForOp x = Some IntentWrite"
  by (auto simp: is_two_path_def)

lemma decoded_one [simp]: "\<not> is_two_path (hc_op hc) \<Longrightarrow> decoded hc"
  by (simp add: decoded_def)

lemma legs_one: "\<not> is_two_path (hc_op hc) \<Longrightarrow> legs_inside hc \<longleftrightarrow> hc_subtree hc \<noteq> dot \<and>
    pathUnderPrefix (enginePath (hc_canonPath hc)) (hc_subtree hc)"
  by (simp add: legs_inside_def)

lemma runs_copy: "is_two_path (hc_op hc) \<Longrightarrow> runs d hc f (handleCopyFile d hc f)"
  unfolding handleCopyFile_def Let_def
  by (intro runs_decodeOp runs_assertWriteGrant runs_engine runs_ok) (auto simp: legs_two decoded_def two_path_writes)

lemma runs_move: "is_two_path (hc_op hc) \<Longrightarrow> runs d hc f (handleMoveFile d hc f)"
  unfolding handleMoveFile_def Let_def
  by (intro runs_decodeOp runs_assertWriteGrant runs_engine runs_ok) (auto simp: legs_two decoded_def two_path_writes)

lemma runs_move_dir: "is_two_path (hc_op hc) \<Longrightarrow> runs d hc f (handleMoveDirectory d hc f)"
  unfolding handleMoveDirectory_def Let_def
  by (intro runs_decodeOp runs_assertWriteGrant runs_engine runs_ok) (auto simp: legs_two decoded_def two_path_writes)

lemma runs_remove: "\<not> is_two_path (hc_op hc) \<Longrightarrow> requiredIntentForOp (hc_op hc) = Some IntentWrite \<Longrightarrow> runs d hc f (handleRemoveFile d hc f)"
  unfolding handleRemoveFile_def Let_def
  by (intro runs_decodeOp runs_assertWriteGrant runs_engine runs_ok) (auto simp: legs_one)

lemma runs_remove_dir:
  assumes two: "\<not> is_two_path (hc_op hc)" and wr: "requiredIntentForOp (hc_op hc) = Some IntentWrite"
  shows "runs d hc f (handleRemoveDirectory d hc f)"
proof -
  have now: "IntentWrite \<in> set (ps_GrantedIntents (hc_ps hc)) \<Longrightarrow>
      runs d hc f (remove_dir_now d hc (enginePath (hc_canonPath hc)) f)" for f
    unfolding remove_dir_now_def by (intro runs_engine runs_ok) (auto simp: two wr legs_one)
  show ?thesis
    unfolding handleRemoveDirectory_def Let_def
    by (intro runs_decodeOp runs_assertWriteGrant) (auto simp: two wr legs_one now runs_mandateDeny intro!: runs_engine)
qed

lemma runs_mint: "runs d hc f (case mint_id d scope p f of (uid, f1) \<Rightarrow> (writeJSON (v uid), f1))"
proof -
  obtain uid f1 where m: "mint_id d scope p f = (uid, f1)" by fastforce
  have "runs d hc f (writeJSON (v uid), f1)" by (rule runs_after [OF quiet_mint_id [OF m]], rule runs_ok) simp_all
  then show ?thesis by (simp add: m)
qed

lemma runs_read:
  assumes two: "\<not> is_two_path (hc_op hc)"
  shows "runs d hc f (handleReadFile d hc f)"
  unfolding handleReadFile_def Let_def
  by (intro runs_decodeOp runs_engine) (auto simp: two legs_one runs_mandateDeny runs_mint)

lemma runs_metadata:
  assumes two: "\<not> is_two_path (hc_op hc)"
  shows "runs d hc f (handleReadMetadata d hc f)"
  unfolding handleReadMetadata_def Let_def
  by (intro runs_decodeOp runs_engine) (auto simp: two legs_one runs_mint intro: runs_ok)

lemma runs_get_metadata: "runs d hc f (handleGetFileMetadata d hc f)"
  unfolding handleGetFileMetadata_def
  by (intro runs_decodeOp runs_requireHandles) (auto simp: runs_mandateDeny intro!: runs_handle_op runs_ok)

lemma runs_file_delete: "runs d hc f (handleFileDelete d hc f)"
  unfolding handleFileDelete_def
  by (intro runs_decodeOp runs_assertWriteGrant runs_requireHandles) (auto simp: runs_mandateDeny intro!: runs_handle_op runs_ok)

lemma runs_list_files: "runs d hc f (handleListFiles d hc f)"
  unfolding handleListFiles_def Let_def
  by (intro runs_decodeOp runs_requireHandles runs_handle_op runs_ok) simp_all

text \<open>Making directories: every level lies on the path to the target.\<close>

lemma quiet_ensure_levels:
  assumes "IntentWrite \<in> set (ps_GrantedIntents (hc_ps hc))" "decoded hc" "requiredIntentForOp (hc_op hc) = Some IntentWrite"
    and "\<forall>p\<in>set ps. hc_subtree hc = [] \<or> \<not> legs_inside hc \<or> call_inside (hc_subtree hc) (CallMakeDir p)"
    and "ensure_levels d (hc_scope hc) ps f = (r, f')"
  shows "quiet d hc f f'"
  using assms(4,5)
proof (induction ps arbitrary: f)
  case (Cons p ps)
  obtain b f1 where c: "ctx_err f = (b, f1)" by fastforce
  note q1 = quiet_ctx_err [OF c, of d hc]
  show ?case
  proof (cases b)
    case True
    then show ?thesis using Cons.prems(2) c q1 by simp
  next
    case False
    obtain x f2 where x: "engine d (hc_scope hc) (CallMakeDir p) f1 = (x, f2)" by fastforce
    have "effect_ok hc (EngineCalled (hc_scope hc) (CallMakeDir p))" using assms(1,2,3) Cons.prems(1) by auto
    note q2 = quiet_trans [OF q1 quiet_engine [OF x this]]
    have "f' = f2 \<or> ensure_levels d (hc_scope hc) ps f2 = (r, f')"
      using Cons.prems(2) c False x by (auto split: sum.splits if_splits)
    then show ?thesis using q2 Cons.IH [of f2] Cons.prems(1) quiet_trans by auto
  qed
qed simp

lemma under_prefixes:
  assumes "pathUnderPrefix (join_with CHR ''/'' parts) sub" "\<forall>w\<in>set parts. CHR ''/'' \<notin> set w" "0 < n"
  shows "pathUnderPrefix (join_with CHR ''/'' (take n parts)) sub \<or> pathUnderPrefix sub (join_with CHR ''/'' (take n parts))"
proof (cases "parts = []")
  case False
  have "\<forall>w\<in>set (take n parts). CHR ''/'' \<notin> set w" using assms(2) by (meson in_set_takeD)
  then have s: "split_on CHR ''/'' (join_with CHR ''/'' (take n parts)) = take n parts"
    "split_on CHR ''/'' (join_with CHR ''/'' parts) = parts"
    using assms(2,3) False by (simp_all add: split_join)
  have "prefix (take n parts) parts" by (rule take_is_prefix)
  then show ?thesis using assms(1) prefix_meet unfolding pathUnderPrefix_comps s by blast
qed (use assms in simp)

lemma runs_make_dir:
  assumes two: "\<not> is_two_path (hc_op hc)" and wr: "requiredIntentForOp (hc_op hc) = Some IntentWrite"
  shows "runs d hc f (handleMakeDirectory d hc f)"
proof -
  let ?rel = "enginePath (hc_canonPath hc)"
  have q: "quiet d hc f f'" if w: "IntentWrite \<in> set (ps_GrantedIntents (hc_ps hc))"
    and m: "makeDirs d (hc_scope hc) ?rel b f = (r, f')" for b f r f'
  proof -
    have last: "quiet d hc f1 f2" if "unit_reply (engine d (hc_scope hc) (CallMakeDir ?rel) f1) = (r', f2)" for f1 r' f2
    proof -
      obtain x f3 where x: "engine d (hc_scope hc) (CallMakeDir ?rel) f1 = (x, f3)" by fastforce
      have "effect_ok hc (EngineCalled (hc_scope hc) (CallMakeDir ?rel))" using w by (auto simp: two wr legs_one)
      from quiet_engine [OF x this] that x show ?thesis by (auto simp: unit_reply_def split: sum.splits)
    qed
    define parts where "parts = split_on CHR ''/'' ?rel"
    have levels: "quiet d hc f f1" if "EnsureDir d (hc_scope hc) (join_with CHR ''/'' (butlast parts)) f = (x, f1)" for x f1
    proof -
      have np: "\<forall>w\<in>set parts. CHR ''/'' \<notin> set w" using split_on_no_sep unfolding parts_def by blast
      show ?thesis
      proof (cases "butlast parts = []")
        case True
        then show ?thesis using that by (simp add: EnsureDir_def)
      next
        case False
        have sp: "split_on CHR ''/'' (join_with CHR ''/'' (butlast parts)) = butlast parts"
          using np False by (intro split_join) (auto dest: in_set_butlastD)
        have "hc_subtree hc = [] \<or> \<not> legs_inside hc \<or> call_inside (hc_subtree hc) (CallMakeDir p)"
          if p: "p \<in> set (dir_prefixes (butlast parts))" for p
        proof -
          obtain i where i: "p = join_with CHR ''/'' (take (Suc i) (butlast parts))" "i < length (butlast parts)"
            using p by (auto simp: dir_prefixes_def)
          then have "take (Suc i) (butlast parts) = take (Suc i) parts" by (simp add: take_butlast)
          then show ?thesis using under_prefixes [of parts "hc_subtree hc" "Suc i"] np i two
            by (auto simp: legs_one parts_def)
        qed
        then have "quiet d hc f f1" if "ensure_levels d (hc_scope hc) (dir_prefixes (butlast parts)) f = (x, f1)"
          using quiet_ensure_levels [OF w decoded_one [OF two] wr _ that] by blast
        then show ?thesis using that unfolding EnsureDir_def Let_def sp by (auto split: if_splits)
      qed
    qed
    show ?thesis using m last levels
      by (auto simp: makeDirs_def Let_def parts_def [symmetric] split: if_splits sum.splits prod.splits intro: quiet_trans)
  qed
  show ?thesis unfolding handleMakeDirectory_def
  proof (intro runs_decodeOp runs_assertWriteGrant)
    fix ms assume w: "IntentWrite \<in> set (ps_GrantedIntents (hc_ps hc))"
    obtain x f1 where x: "makeDirs d (hc_scope hc) ?rel (get_bool ''make_parents'' ms) f = (x, f1)" by fastforce
    then show "runs d hc f (case makeDirs d (hc_scope hc) ?rel (get_bool ''make_parents'' ms) f of
        (Inl e, f1) \<Rightarrow> deny_engine d hc e f1 | (Inr _, f1) \<Rightarrow> (writeAck, f1))"
      using q [OF w x] by (cases x) (auto intro: runs_after runs_deny_engine runs_quiet_ok)
  qed
qed

text \<open>Listing: every directory the walk opens lies below the one it started from.\<close>

definition may_list :: "handlerCtx \<Rightarrow> string \<Rightarrow> bool" where
  "may_list hc rel \<longleftrightarrow> decoded hc \<and> (hc_subtree hc = [] \<or> \<not> legs_inside hc \<or> pathUnderPrefix rel (hc_subtree hc))"

lemma may_list_child: "may_list hc rel \<Longrightarrow> may_list hc (child_rel rel name)"
proof -
  assume m: "may_list hc rel"
  show ?thesis
  proof (cases "hc_subtree hc = [] \<or> \<not> legs_inside hc")
    case False
    then have u: "pathUnderPrefix rel (hc_subtree hc)" "hc_subtree hc \<noteq> []" "hc_subtree hc \<noteq> dot"
      using m by (auto simp: may_list_def legs_inside_def)
    then obtain t where t: "rel = hc_subtree hc \<or> rel = hc_subtree hc @ ''/'' @ t" by (auto simp: pathUnderPrefix_def has_prefix_conv)
    moreover have "hc_subtree hc @ ''/'' @ t \<noteq> dot" using u(2) by (cases "hc_subtree hc") (auto simp: dot_def)
    ultimately have "rel \<noteq> dot \<and> rel \<noteq> []" using u by auto
    then have "child_rel rel name = rel @ ''/'' @ name" by (simp add: child_rel_def)
    moreover have "has_prefix (rel @ ''/'' @ name) (hc_subtree hc @ ''/'')"
      unfolding has_prefix_conv using t by auto
    ultimately show ?thesis using m by (simp add: may_list_def pathUnderPrefix_def)
  qed (use m in \<open>auto simp: may_list_def\<close>)
qed

lemma quiet_listOneLevel:
  "may_list hc rel \<Longrightarrow> listOneLevel d (hc_scope hc) rel f = (r, f') \<Longrightarrow> quiet d hc f f'"
proof -
  assume m: "may_list hc rel" and l: "listOneLevel d (hc_scope hc) rel f = (r, f')"
  obtain x f1 where x: "engine d (hc_scope hc) (CallList rel) f = (x, f1)" by fastforce
  have "effect_ok hc (EngineCalled (hc_scope hc) (CallList rel))" using m by (auto simp: may_list_def)
  from quiet_engine [OF x this] l x show ?thesis by (auto simp: listOneLevel_def split: sum.splits)
qed

lemma quiet_walk_loop:
  "\<forall>rel e a f b a' f'. emit rel e a f = (b, a', f') \<longrightarrow> quiet d hc f f' \<Longrightarrow>
   list_all (\<lambda>(rel, es). may_list hc rel) st \<Longrightarrow>
   walk_loop d (hc_scope hc) recursive emit st a f = (r, a', f') \<Longrightarrow> quiet d hc f f'"
proof (induction d "hc_scope hc" recursive emit st a f arbitrary: r a' f' rule: walk_loop.induct)
  case (2 d recursive emit rel es st a f)
  note w = trans [OF walk_loop.simps(2) [symmetric] 2(6)]
  obtain b f1 where c: "ctx_err f = (b, f1)" by fastforce
  note q1 = quiet_ctx_err [OF c, of d hc]
  show ?case
  proof (cases "b \<or> es = []")
    case True
    show ?thesis
    proof (cases b)
      case True
      then show ?thesis using w c q1 by simp
    next
      case nb: False
      then have es: "es = []" using True by simp
      then have "walk_loop d (hc_scope hc) recursive emit st a f1 = (r, a', f')" using w c nb by simp
      then have "quiet d hc f1 f'" using 2(1) [OF c [symmetric] _ es] nb 2(4,5) by simp
      then show ?thesis using q1 quiet_trans by blast
    qed
  next
    case False
    then obtain e rest where es: "es = e # rest" by (cases es) auto
    let ?rel = "child_rel rel (fi_name e)"
    obtain go a1 f2 where em: "emit ?rel e a f1 = (go, a1, f2)" by (metis prod_cases3)
    have q2: "quiet d hc f f2" using q1 2(4) em quiet_trans by blast
    have ml: "may_list hc rel" "list_all (\<lambda>(rel, es). may_list hc rel) st" using 2(5) by simp_all
    note child = may_list_child [OF ml(1), of "fi_name e"]
    consider (stop) "\<not> go \<or> recursive \<and> fi_is_dir e \<and> maxWalkDepth \<le> Suc (length st)" | (next_entry) "go" "\<not> (recursive \<and> fi_is_dir e)"
      | (down) "go" "recursive" "fi_is_dir e" "\<not> maxWalkDepth \<le> Suc (length st)" by blast
    then show ?thesis
    proof cases
      case stop
      then have "f' = f2" using w c False es em by (auto split: bool.splits if_splits)
      then show ?thesis using q2 by simp
    next
      case next_entry
      then have "walk_loop d (hc_scope hc) recursive emit ((rel, rest) # st) a1 f2 = (r, a', f')"
        using w c False es em by auto
      then have "quiet d hc f2 f'"
        using 2(3) [OF c [symmetric] _ es em [symmetric] _ refl] False next_entry 2(4) ml by auto
      then show ?thesis using q2 quiet_trans by blast
    next
      case down
      obtain x f3 where l: "listOneLevel d (hc_scope hc) ?rel f2 = (x, f3)" by fastforce
      have q3: "quiet d hc f f3" using quiet_trans [OF q2 quiet_listOneLevel [OF child l]] .
      show ?thesis
      proof (cases x)
        case (Inl err)
        then have "f' = f3" using w c False es em down l by auto
        then show ?thesis using q3 by simp
      next
        case (Inr ch)
        then have "walk_loop d (hc_scope hc) recursive emit ((?rel, ch) # (rel, rest) # st) a1 f3 = (r, a', f')"
          using w c False es em down l by auto
        then have "quiet d hc f3 f'"
          using 2(2) [OF c [symmetric] _ es em [symmetric] _ refl] False down l Inr 2(4) ml child by auto
        then show ?thesis using q3 quiet_trans by blast
      qed
    qed
  qed
qed simp

lemma quiet_list_emit: "list_emit d hc after limit rel i p f = (b, p', f') \<Longrightarrow> quiet d hc f f'"
  by (auto simp: list_emit_def Let_def split: if_splits prod.splits intro: quiet_mint_id)

lemma runs_list:
  assumes two: "\<not> is_two_path (hc_op hc)"
  shows "runs d hc f (handleListDirectory d hc f)"
proof -
  let ?rel = "enginePath (hc_canonPath hc)"
  have m: "may_list hc ?rel" by (auto simp: may_list_def two legs_one)
  have q: "quiet d hc f f'" if w: "walk d (hc_scope hc) ?rel rc (list_emit d hc after limit) p f = (r, p', f')" for rc after limit p f r p' f'
  proof -
    obtain x f1 where l: "listOneLevel d (hc_scope hc) ?rel f = (x, f1)" by fastforce
    note q1 = quiet_listOneLevel [OF m l]
    show ?thesis
    proof (cases x)
      case (Inl e)
      then show ?thesis using w l q1 by (simp add: walk_def)
    next
      case (Inr es)
      then have "walk_loop d (hc_scope hc) rc (list_emit d hc after limit) [(?rel, es)] p f1 = (r, p', f')"
        using w l by (simp add: walk_def)
      then have "quiet d hc f1 f'" using m quiet_list_emit by (intro quiet_walk_loop) auto
      then show ?thesis using q1 quiet_trans by blast
    qed
  qed
  show ?thesis unfolding handleListDirectory_def
  proof (intro runs_decodeOp)
    fix ms
    show "runs d hc f (case decodeCursor (get_str ''cursor'' ms) of
         None \<Rightarrow> mandateDeny d hc dc_Malformed dc_Malformed ''malformed cursor'' f
       | Some after \<Rightarrow>
           (case walk d (hc_scope hc) ?rel (get_bool ''recursive'' ms)
                   (list_emit d hc after (list_limit (get_int ''limit'' ms))) empty_list_page f of
              (Inl e, p, f1) \<Rightarrow> deny_engine d hc e f1
            | (Inr _, p, f1) \<Rightarrow>
                (writeJSON (JObj [(''entries'', JArr (pg_entries p)), (''cursor'', JStr (pg_cursor p))]), f1)))"
    proof (cases "decodeCursor (get_str ''cursor'' ms)")
      case None
      then show ?thesis by (simp add: runs_mandateDeny)
    next
      case (Some after)
      obtain x p f1 where w: "walk d (hc_scope hc) ?rel (get_bool ''recursive'' ms)
          (list_emit d hc after (list_limit (get_int ''limit'' ms))) empty_list_page f = (x, p, f1)" by (metis prod_cases3)
      have o: "runs d hc f (deny_engine d hc e f1)" "runs d hc f (writeJSON j, f1)" for e j
        using runs_after [OF q [OF w] runs_deny_engine] runs_quiet_ok [OF q [OF w]] by auto
      show ?thesis using o w Some by (cases x) simp_all
    qed
  qed
qed

text \<open>All handlers together; the operations without one answer that they are not implemented.\<close>

lemma unimplemented_answer: "rs_status (fst (unimplemented f)) = 501 \<and> snd (unimplemented f) = f"
proof -
  have "WireStatus (MapDeny dc_Unimplemented) = 501"
    by (simp add: MapDeny_def denyTable_def StatusForWireCode_def class_names code_names)
  then show ?thesis by (simp add: unimplemented_def status_deny)
qed

lemma handler_runs:
  assumes "hc_op hc = x"
  shows "runs d hc f (handler x d hc f) \<or> rs_status (fst (handler x d hc f)) = 501 \<and> snd (handler x d hc f) = f"
proof -
  have two: "is_two_path (hc_op hc) \<longleftrightarrow> x = OpMoveDirectory \<or> x = OpCopyFile \<or> x = OpMoveFile"
    using assms by (simp add: is_two_path_def)
  show ?thesis using two assms
    by (cases x) (simp_all add: runs_list runs_make_dir runs_move_dir runs_remove_dir runs_copy runs_move runs_remove
        runs_read runs_metadata runs_get_metadata runs_list_files runs_file_delete unimplemented_answer)
qed

end
