(* ===== verification/SouthDispatch.thy ===== *)
theory SouthDispatch
  imports SouthEffects
begin

text \<open>
  The dispatch spine of the south face (\<open>src/internal/southface/dispatch.go\<close>, \<open>ServeHTTP\<close>), one
  definition per stage in the order of the code: route and credential, rate ceiling, body and
  scope cross-check, path canonicalisation, authorisation, the allow record, the handler. The
  lemmas say what a request can do to the engine and the audit gate.
\<close>

section \<open>Requests\<close>

text \<open>
  A request as the HTTP server delivers it. \<open>hr_body\<close> and \<open>hr_bodyEnd\<close> are the bytes a read of the
  whole body yields and how it ends; \<open>hr_parts\<close> are the parts \<open>mime/multipart\<close> yields, \<open>None\<close> when
  the request is not multipart; \<open>hr_rand\<close> are the sixteen random bytes of the correlation id.
  \<open>hr_early\<close> says whether an engine that refuses an upload did so before the upload itself
  went wrong.
\<close>

datatype body_end = BodyEOF | BodyCancelled | BodyBroken

record part =
  pt_name :: string
  pt_reads :: "string list"
  pt_eof :: bool

record http_request =
  hr_method :: string
  hr_path :: string
  hr_contentType :: string
  hr_authorization :: string
  hr_ctxScope :: "PeerScope option"
  hr_contentLength :: int
  hr_body :: string
  hr_bodyEnd :: body_end
  hr_parts :: "part list option"
  hr_now :: int
  hr_rand :: string
  hr_early :: bool

definition newCorrelationID :: "string \<Rightarrow> string" where
  "newCorrelationID rnd = hex_encode rnd"

definition requestIDHeader :: string where "requestIDHeader = ''x-request-id''"

definition with_request_id :: "string \<Rightarrow> response \<Rightarrow> response" where
  "with_request_id rid r = r\<lparr>rs_header := (requestIDHeader, rid) # rs_header r\<rparr>"

definition refuse :: "deny_class \<Rightarrow> string \<Rightarrow> response" where
  "refuse cls message = WriteRESTDeny (MapDeny cls) message"

definition withStatus :: "nat \<Rightarrow> DenyVerdict \<Rightarrow> DenyVerdict" where
  "withStatus status v = v\<lparr>WireStatus := status\<rparr>"

definition method_not_allowed :: response where
  "method_not_allowed =
     (let r = WriteRESTDeny (withStatus 405 (MapDeny dc_Malformed)) ''method not allowed''
      in r\<lparr>rs_header := (''Allow'', ''POST'') # rs_header r\<rparr>)"

section \<open>Stages\<close>

text \<open>The scope of the caller: from the credential, bounded by the operator's ceiling, or from the connection.\<close>

definition request_scope :: "('s, 'g) dispatcher \<Rightarrow> http_request \<Rightarrow> (response, PeerScope) res" where
  "request_scope d h =
     (case dp_extractor d of
        Some bind \<Rightarrow>
          (case peerScopeFromCredential (hr_authorization h) bind of
             Inl v \<Rightarrow> Inl (WriteRESTDeny v ''credential rejected'')
           | Inr ps \<Rightarrow>
               Inr (case dp_grantedIntentsCeiling d of
                      None \<Rightarrow> ps
                    | Some bound \<Rightarrow> ps\<lparr>ps_GrantedIntents := intersectIntents (ps_GrantedIntents ps) bound\<rparr>))
      | None \<Rightarrow>
          (case hr_ctxScope h of
             None \<Rightarrow> Inl (refuse dc_Internal ''no channel scope on connection'')
           | Some ps \<Rightarrow> Inr ps))"

text \<open>The session of the scope pays for the operation; the session is an index into the registry.\<close>

definition consume_op :: "http_request \<Rightarrow> string \<Rightarrow> ('s, 'g) face \<Rightarrow> (response, nat) res \<times> ('s, 'g) face" where
  "consume_op h scope f =
     (let (i, reg) = reg_Session scope (fc_reg f);
          (e, reg1) = on_session i (TryConsumeOp (hr_now h)) reg;
          f1 = f\<lparr>fc_reg := reg1\<rparr>
      in case e of
           Some err \<Rightarrow> (Inl (refuse (denyClassForErr (mapCeilingsErr err)) ''operation rate ceiling exceeded''), f1)
         | None \<Rightarrow> (Inr i, f1))"

definition stage_admit :: "('s, 'g) dispatcher \<Rightarrow> http_request \<Rightarrow> ('s, 'g) face \<Rightarrow>
    (response, Op \<times> PeerScope) res \<times> ('s, 'g) face" where
  "stage_admit d h f =
     (case parseRoute (hr_method h) (hr_path h) of
        Inl e \<Rightarrow>
          (Inl (if e = errBadMethod then method_not_allowed else refuse (denyClassForDecodeErr e) ''unknown route''), f)
      | Inr x \<Rightarrow>
          if \<not> checkContentType (hr_contentType h) then
            (Inl (refuse (denyClassForDecodeErr errBadContentType) ''Content-Type must be application/json''), f)
          else
            (case request_scope d h of
               Inl r \<Rightarrow> (Inl r, f)
             | Inr ps \<Rightarrow>
                 if hr_contentLength h < 0 then (Inl (refuse dc_Malformed ''unary request requires Content-Length''), f)
                 else if dp_sizeCeiling d < hr_contentLength h then
                   (Inl (refuse dc_SizeExceeded ''declared body size exceeds ceiling''), f)
                 else
                   (case consume_op h (ps_FilesystemID ps) f of
                      (Inl r, f1) \<Rightarrow> (Inl r, f1)
                    | (Inr _, f1) \<Rightarrow> (Inr (x, ps), f1))))"

text \<open>\<open>io.ReadAll\<close> behind \<open>http.MaxBytesReader\<close>.\<close>

definition read_unary_body :: "('s, 'g) dispatcher \<Rightarrow> http_request \<Rightarrow> ('s, 'g) face \<Rightarrow>
    (response, string) res \<times> ('s, 'g) face" where
  "read_unary_body d h f =
     (if dp_sizeCeiling d < int (length (hr_body h)) then
        (Inl (refuse dc_SizeExceeded ''declared body size exceeds ceiling''), f)
      else
        (case hr_bodyEnd h of
           BodyEOF \<Rightarrow> (Inr (hr_body h), f)
         | BodyCancelled \<Rightarrow> (Inl (refuse dc_Aborted ''client disconnected during request body read''), f)
         | BodyBroken \<Rightarrow>
             (case ctx_err f of
                (True, f1) \<Rightarrow> (Inl (refuse dc_Aborted ''client disconnected during request body read''), f1)
              | (False, f1) \<Rightarrow> (Inl (refuse dc_Malformed ''malformed request envelope''), f1))))"

definition decode_envelope :: "PeerScope \<Rightarrow> string \<Rightarrow> (response, unaryEnvelope) res" where
  "decode_envelope ps body =
     (case decodeUnaryEnvelopeBytes body of
        Inl e \<Rightarrow> Inl (refuse (denyClassForDecodeErr e) ''malformed request envelope'')
      | Inr env \<Rightarrow>
          if env_FilesystemID env \<noteq> ps_FilesystemID ps then
            Inl (refuse dc_ScopeMismatch ''request scope does not match the session channel'')
          else Inr env)"

text \<open>The canonical primary path, the legs of a move or copy, and the subtree they are joined to.\<close>

record boundary =
  bd_intent :: Intent
  bd_subtree :: string
  bd_path :: string
  bd_source :: string
  bd_dest :: string

definition stage_boundary :: "('s, 'g) dispatcher \<Rightarrow> Op \<Rightarrow> PeerScope \<Rightarrow> string \<Rightarrow> unaryEnvelope \<Rightarrow> (response, boundary) res" where
  "stage_boundary d x ps body env =
     (case requiredIntentForOp x of
        None \<Rightarrow> Inl (refuse dc_Internal ''no required intent bound to operation'')
      | Some required \<Rightarrow>
          (let subtree = subtree_For (dp_subtrees d) (joinIntentFor (ps_GrantedIntents ps) required) in
           if enabled (dp_subtrees d) \<and> subtree = [] then
             Inl (refuse dc_Internal ''no subtree bound to the join intent'')
           else
             (case canonicalizePath (env_Path env) subtree of
                Inl _ \<Rightarrow> Inl (refuse dc_Malformed ''invalid or unsafe path'')
              | Inr canonPath \<Rightarrow>
                  (case canonicalizeMoveCopyLegs x body subtree of
                     Inl _ \<Rightarrow> Inl (refuse dc_Malformed ''invalid or unsafe path'')
                   | Inr (src, dst) \<Rightarrow>
                       Inr \<lparr>bd_intent = required, bd_subtree = subtree, bd_path = canonPath,
                            bd_source = src, bd_dest = dst\<rparr>))))"

definition resolverRequest :: "Request \<Rightarrow> Request" where
  "resolverRequest req = req\<lparr>rq_Path := enginePath (rq_Path req)\<rparr>"

definition resolve :: "('s, 'g) dispatcher \<Rightarrow> PeerScope \<Rightarrow> Request \<Rightarrow> (south_err, Grant) res" where
  "resolve d ps req =
     (case Resolve (dp_tag d) (Evidence \<lparr>ev_Scope = ps_FilesystemID ps, ev_GrantedIntents = ps_GrantedIntents ps\<rparr>)
             (resolverRequest req) of
        Inl e \<Rightarrow> Inl (mapResolverErr e)
      | Inr g \<Rightarrow> Inr g)"

definition stage_authorise :: "('s, 'g) dispatcher \<Rightarrow> PeerScope \<Rightarrow> unaryEnvelope \<Rightarrow> boundary \<Rightarrow> (response, Request \<times> Grant) res" where
  "stage_authorise d ps env b =
     (if am_Intent (env_Auth env) \<noteq> bd_intent b then
        Inl (refuse (denyClassForDecodeErr errRouteOpMismatch) ''authorization intent does not match the operation'')
      else
        (let req = \<lparr>rq_Filesystem = env_FilesystemID env, rq_Path = bd_path b, rq_Intent = bd_intent b\<rparr>
         in case resolve d ps req of
              Inl e \<Rightarrow> Inl (refuse (denyClassForErr e) ''authorization denied'')
            | Inr grant \<Rightarrow> Inr (req, grant)))"

definition handler_ctx :: "string \<Rightarrow> Op \<Rightarrow> PeerScope \<Rightarrow> string \<Rightarrow> boundary \<Rightarrow> Request \<Rightarrow> Grant \<Rightarrow> handlerCtx" where
  "handler_ctx rid x ps body b req grant =
     \<lparr>hc_op = x, hc_body = body, hc_canonPath = bd_path b, hc_subtree = bd_subtree b, hc_canonSource = bd_source b,
      hc_canonDest = bd_dest b, hc_ps = ps, hc_grant = grant, hc_req = req, hc_reqID = rid\<rparr>"

definition allow_event :: "handlerCtx \<Rightarrow> FileActivityEvent" where
  "allow_event hc =
     mapAuditEvent ((auditEvent_of (hc_op hc) (hc_ps hc) (hc_req hc) (hc_grant hc) (hc_canonDest hc))\<lparr>ae_RequestID := hc_reqID hc\<rparr>)"

definition stage_run :: "('s, 'g) dispatcher \<Rightarrow> handlerCtx \<Rightarrow> ('s, 'g) face \<Rightarrow> response \<times> ('s, 'g) face" where
  "stage_run d hc f =
     (case mandate d (allow_event hc) f of
        (Inl e, f1) \<Rightarrow> (refuse (denyClassForErr e) ''audit gate unavailable'', f1)
      | (Inr _, f1) \<Rightarrow> handler (hc_op hc) d hc f1)"

definition serve_unary :: "('s, 'g) dispatcher \<Rightarrow> string \<Rightarrow> http_request \<Rightarrow> ('s, 'g) face \<Rightarrow> response \<times> ('s, 'g) face" where
  "serve_unary d rid h f =
     (case stage_admit d h f of
        (Inl r, f1) \<Rightarrow> (r, f1)
      | (Inr (x, ps), f1) \<Rightarrow>
          (case read_unary_body d h f1 of
             (Inl r, f2) \<Rightarrow> (r, f2)
           | (Inr body, f2) \<Rightarrow>
               (case decode_envelope ps body of
                  Inl r \<Rightarrow> (r, f2)
                | Inr env \<Rightarrow>
                    (case stage_boundary d x ps body env of
                       Inl r \<Rightarrow> (r, f2)
                     | Inr b \<Rightarrow>
                         (case stage_authorise d ps env b of
                            Inl r \<Rightarrow> (r, f2)
                          | Inr (req, grant) \<Rightarrow> stage_run d (handler_ctx rid x ps body b req grant) f2)))))"

definition ServeHTTP :: "('s, 'g) dispatcher \<Rightarrow> http_request \<Rightarrow> ('s, 'g) face \<Rightarrow> response \<times> ('s, 'g) face" where
  "ServeHTTP d h f =
     (let rid = newCorrelationID (hr_rand h); (r, f1) = serve_unary d rid h f
      in (with_request_id rid r, f1))"

section \<open>Lemmas\<close>

lemma status_refuse [simp]: "400 \<le> rs_status (refuse c m)"
  by (simp add: refuse_def status_deny MapDeny_status_ge)

lemma status_method [simp]: "400 \<le> rs_status method_not_allowed"
  by (simp add: method_not_allowed_def Let_def status_deny withStatus_def)

lemma status_with_request_id [simp]: "rs_status (with_request_id rid r) = rs_status r"
  by (simp add: with_request_id_def)

lemma request_scope_Inl: "request_scope d h = Inl r \<Longrightarrow> 400 \<le> rs_status r"
  by (auto simp: request_scope_def peerScopeFromCredential_def status_deny MapDeny_status_ge
      split: option.splits sum.splits)

lemma consume_op_spec:
  "consume_op h scope f = (x, f1) \<Longrightarrow> does d [] f f1 \<and> (\<forall>r. x = Inl r \<longrightarrow> 400 \<le> rs_status r)"
  by (auto simp: consume_op_def does_nothing Let_def split: prod.splits option.splits)

lemma stage_admit_spec:
  assumes "stage_admit d h f = (x, f1)"
  shows "does d [] f f1 \<and> (\<forall>r. x = Inl r \<longrightarrow> 400 \<le> rs_status r) \<and>
    (\<forall>y ps. x = Inr (y, ps) \<longrightarrow> parseRoute (hr_method h) (hr_path h) = Inr y \<and> request_scope d h = Inr ps)"
  using assms consume_op_spec [where d = d]
  by (auto simp: stage_admit_def does_nothing request_scope_Inl split: sum.splits if_splits prod.splits)

lemma read_unary_body_spec:
  assumes "read_unary_body d h f = (x, f1)"
  shows "does d [] f f1 \<and> (\<forall>r. x = Inl r \<longrightarrow> 400 \<le> rs_status r) \<and> (\<forall>b. x = Inr b \<longrightarrow> b = hr_body h)"
  using assms
  by (auto simp: read_unary_body_def does_nothing ctx_err_def split: body_end.splits if_splits option.splits nat.splits)

text \<open>What the spine established about the context it hands to a handler.\<close>

definition spine_ctx :: "('s, 'g) dispatcher \<Rightarrow> http_request \<Rightarrow> handlerCtx \<Rightarrow> bool" where
  "spine_ctx d h hc \<longleftrightarrow>
     parseRoute (hr_method h) (hr_path h) = Inr (hc_op hc) \<and> request_scope d h = Inr (hc_ps hc) \<and>
     hc_body hc = hr_body h \<and> hc_reqID hc = newCorrelationID (hr_rand h) \<and>
     (\<exists>env required.
        decodeUnaryEnvelopeBytes (hr_body h) = Inr env \<and> env_FilesystemID env = hc_scope hc \<and>
        requiredIntentForOp (hc_op hc) = Some required \<and> am_Intent (env_Auth env) = required \<and>
        intentGranted (ps_GrantedIntents (hc_ps hc)) required \<and>
        hc_subtree hc = subtree_For (dp_subtrees d) (joinIntentFor (ps_GrantedIntents (hc_ps hc)) required) \<and>
        canonicalizePath (env_Path env) (hc_subtree hc) = Inr (hc_canonPath hc) \<and>
        canonicalizeMoveCopyLegs (hc_op hc) (hr_body h) (hc_subtree hc) = Inr (hc_canonSource hc, hc_canonDest hc)) \<and>
     (enabled (dp_subtrees d) \<longrightarrow> hc_subtree hc \<noteq> [])"

lemma decode_envelope_spec:
  "decode_envelope ps body = Inl r \<Longrightarrow> 400 \<le> rs_status r"
  "decode_envelope ps body = Inr env \<Longrightarrow> decodeUnaryEnvelopeBytes body = Inr env \<and> env_FilesystemID env = ps_FilesystemID ps"
  by (auto simp: decode_envelope_def split: sum.splits if_splits)

lemma stage_boundary_spec:
  "stage_boundary d x ps body env = Inl r \<Longrightarrow> 400 \<le> rs_status r"
  "stage_boundary d x ps body env = Inr b \<Longrightarrow> requiredIntentForOp x = Some (bd_intent b) \<and>
     bd_subtree b = subtree_For (dp_subtrees d) (joinIntentFor (ps_GrantedIntents ps) (bd_intent b)) \<and>
     (enabled (dp_subtrees d) \<longrightarrow> bd_subtree b \<noteq> []) \<and>
     canonicalizePath (env_Path env) (bd_subtree b) = Inr (bd_path b) \<and>
     canonicalizeMoveCopyLegs x body (bd_subtree b) = Inr (bd_source b, bd_dest b)"
  by (auto simp: stage_boundary_def Let_def split: option.splits sum.splits if_splits prod.splits)

lemma resolve_granted: "resolve d ps req = Inr g \<Longrightarrow> intentGranted (ps_GrantedIntents ps) (rq_Intent req)"
  by (auto simp: resolve_def Resolve_def resolverRequest_def split: sum.splits if_splits)

lemma stage_authorise_spec:
  "stage_authorise d ps env b = Inl r \<Longrightarrow> 400 \<le> rs_status r"
  "stage_authorise d ps env b = Inr (req, g) \<Longrightarrow> am_Intent (env_Auth env) = bd_intent b \<and>
     intentGranted (ps_GrantedIntents ps) (bd_intent b) \<and>
     req = \<lparr>rq_Filesystem = env_FilesystemID env, rq_Path = bd_path b, rq_Intent = bd_intent b\<rparr>"
  by (auto simp: stage_authorise_def Let_def dest: resolve_granted split: sum.splits if_splits)

lemma mandate_does: "mandate d ev f = (x, f1) \<Longrightarrow> does d [Audited ev (ok x)] f f1"
  by (auto simp: mandate_def emit_effect_def does_def Let_def split: prod.splits)

text \<open>A request is refused untouched, refused by the audit gate, or runs its handler after its allow record.\<close>

definition ran :: "('s, 'g) dispatcher \<Rightarrow> handlerCtx \<Rightarrow> ('s, 'g) face \<Rightarrow> response \<times> ('s, 'g) face \<Rightarrow> bool" where
  "ran d hc f res \<longleftrightarrow>
     does d [Audited (allow_event hc) False] f (snd res) \<and> 400 \<le> rs_status (fst res) \<or>
     (\<exists>tr. does d (Audited (allow_event hc) True # tr) f (snd res) \<and> list_all (effect_ok hc) tr \<and>
        (answered (fst res) tr \<or> rs_status (fst res) = 501 \<and> tr = []))"

lemma stage_run_ran: "ran d hc f (stage_run d hc f)"
proof -
  obtain x f1 where m: "mandate d (allow_event hc) f = (x, f1)" by fastforce
  note dm = mandate_does [OF m]
  show ?thesis
  proof (cases x)
    case (Inl e)
    then show ?thesis using m dm by (simp add: stage_run_def ran_def)
  next
    case (Inr u)
    then have run: "stage_run d hc f = handler (hc_op hc) d hc f1" using m by (simp add: stage_run_def)
    have dm: "does d [Audited (allow_event hc) True] f f1" using dm Inr by simp
    from handler_runs [OF refl, of d hc f1] show ?thesis
    proof
      assume "runs d hc f1 (handler (hc_op hc) d hc f1)"
      then obtain tr where "does d tr f1 (snd (handler (hc_op hc) d hc f1))" "list_all (effect_ok hc) tr"
        "answered (fst (handler (hc_op hc) d hc f1)) tr" by (auto simp: runs_def)
      then show ?thesis using does_trans [OF dm] run unfolding ran_def by auto
    next
      assume "rs_status (fst (handler (hc_op hc) d hc f1)) = 501 \<and> snd (handler (hc_op hc) d hc f1) = f1"
      then show ?thesis using dm run unfolding ran_def by (intro disjI2 exI [of _ "[]"]) simp
    qed
  qed
qed

lemma ran_before:
  assumes "does d [] f f1" "ran d hc f1 res"
  shows "ran d hc f res"
  using assms(2) does_trans [OF assms(1)] unfolding ran_def by (metis append_Nil)

lemma serve_unary_spec:
  assumes "serve_unary d (newCorrelationID (hr_rand h)) h f = (r, f')"
  shows "does d [] f f' \<and> 400 \<le> rs_status r \<or> (\<exists>hc. spine_ctx d h hc \<and> ran d hc f (r, f'))"
proof -
  obtain x f1 where a: "stage_admit d h f = (x, f1)" by fastforce
  note A = stage_admit_spec [OF a]
  show ?thesis
  proof (cases x)
    case (Inl r1)
    then show ?thesis using assms a A by (simp add: serve_unary_def)
  next
    case (Inr p)
    obtain y ps where p: "p = (y, ps)" by fastforce
    obtain bx f2 where b: "read_unary_body d h f1 = (bx, f2)" by fastforce
    note B = read_unary_body_spec [OF b]
    have d2: "does d [] f f2" using does_trans [of d "[]" f f1 "[]" f2] A B by simp
    show ?thesis
    proof (cases bx)
      case (Inl r2)
      then show ?thesis using assms a b B d2 Inr p by (simp add: serve_unary_def)
    next
      case body: (Inr body)
      have eq: "serve_unary d (newCorrelationID (hr_rand h)) h f =
          (case decode_envelope ps (hr_body h) of Inl r \<Rightarrow> (r, f2) | Inr env \<Rightarrow>
            (case stage_boundary d y ps (hr_body h) env of Inl r \<Rightarrow> (r, f2) | Inr b \<Rightarrow>
              (case stage_authorise d ps env b of Inl r \<Rightarrow> (r, f2) | Inr (req, grant) \<Rightarrow>
                stage_run d (handler_ctx (newCorrelationID (hr_rand h)) y ps (hr_body h) b req grant) f2)))"
        using a b Inr body p B by (simp add: serve_unary_def)
      consider (refused) "f' = f2" "400 \<le> rs_status r"
        | (run) env bd req g where "decode_envelope ps (hr_body h) = Inr env" "stage_boundary d y ps (hr_body h) env = Inr bd"
          "stage_authorise d ps env bd = Inr (req, g)"
          "stage_run d (handler_ctx (newCorrelationID (hr_rand h)) y ps (hr_body h) bd req g) f2 = (r, f')"
        using assms unfolding eq
        by (auto dest: decode_envelope_spec(1) stage_boundary_spec(1) stage_authorise_spec(1) split: sum.splits prod.splits)
      then show ?thesis
      proof cases
        case refused
        then show ?thesis using d2 by simp
      next
        case run
        let ?hc = "handler_ctx (newCorrelationID (hr_rand h)) y ps (hr_body h) bd req g"
        have facts: "parseRoute (hr_method h) (hr_path h) = Inr y" "request_scope d h = Inr ps" using A Inr p by simp_all
        note bnd = stage_boundary_spec(2) [OF run(2)]
        have "spine_ctx d h ?hc"
          unfolding spine_ctx_def handler_ctx_def handlerCtx.simps
          using facts decode_envelope_spec(2) [OF run(1)] stage_authorise_spec(2) [OF run(3)] bnd
          by (intro conjI exI [of _ env] exI [of _ "bd_intent bd"]) ((elim conjE, assumption | rule refl)+)
        moreover have "ran d ?hc f (r, f')" using ran_before [OF d2 stage_run_ran] run(4) by metis
        ultimately show ?thesis by blast
      qed
    qed
  qed
qed

section \<open>Subtrees\<close>

lemma canon_engine_under:
  assumes "canonicalizePath g sub = Inr p" "sub \<noteq> []"
  shows "pathUnderPrefix (enginePath p) sub"
proof -
  have "pathUnderPrefix p (CHR ''/'' # sub)" using canon_def_Inr [OF assms(1)] assms(2) by blast
  then consider "p = CHR ''/'' # sub" | t where "p = CHR ''/'' # sub @ ''/'' @ t"
    by (auto simp: pathUnderPrefix_def has_prefix_conv)
  then show ?thesis using assms(2) by cases (simp_all add: enginePath_def Let_def pathUnderPrefix_def has_prefix_conv)
qed

lemma canon_not_dot: "canonicalizePath g sub = Inr p \<Longrightarrow> sub \<noteq> dot"
proof
  assume c: "canonicalizePath g sub = Inr p" and d: "sub = dot"
  obtain r where r: "p = path_clean (CHR ''/'' # r)" using canon_def_Inr [OF c] by blast
  obtain cs where cs: "p = CHR ''/'' # join_with CHR ''/'' cs" "list_all plain_comp cs"
    using abs_clean_shape [OF r] by blast
  have "prefix [[], dot] (split_on CHR ''/'' p)" using canon_under [OF c] d by (simp add: splitSlash_def dot_def)
  then have "dot \<in> set (split_on CHR ''/'' p)" by (auto simp: prefix_def)
  then have "dot \<in> set (split_on CHR ''/'' (join_with CHR ''/'' cs))" using cs(1) by (auto simp: dot_def)
  then show False using plain_comps_split [OF cs(2)] by (auto simp: plain_comp_def dot_def)
qed

lemma join_write: "IntentWrite \<in> set gs \<Longrightarrow> joinIntentFor gs IntentWrite = IntentWrite"
  by (auto simp: joinIntentFor_def split: list.splits)

text \<open>Where the lax reading of a move or copy accepts the body, it reads what the handler reads.\<close>

lemma strict_lax:
  assumes "decodeStrictBytes (op_schema x) body = Inr ms" "json_members body = Some ms'" "is_two_path x"
  shows "ms' = ms \<and> lax_ok x ms"
proof -
  obtain v r where v: "parse_value (Suc (length body)) 0 body = Some (v, r)" "obj_field [] [v] = Some ms"
    "list_all (\<lambda>(n, t). field_ok t (field_vals n ms)) (op_schema x)"
    using assms(1)
    by (auto simp: decodeStrictBytes_def decode_single_def json_prefix_def split: option.splits if_splits)
  have "obj_field [] [v] = Some ms'" using assms(2) v(1) by (auto simp: json_members_def json_parse_def split: if_splits)
  then have "ms' = ms" using v(2) by simp
  moreover have "field_ok FAuth (field_vals ''authorization_metadata'' ms)"
    using v(3) assms(3) by (auto simp: is_two_path_def common_fields_def)
  then have "decode_auth ms \<noteq> None" by (auto simp: decode_auth_def split: option.splits)
  then have "lax_ok x ms" using v(3) by (auto simp: lax_ok_def list_all_iff split: field_type.splits)
  ultimately show ?thesis by blast
qed

lemma spine_ctxD:
  assumes "spine_ctx d h hc"
  shows "hc_body hc = hr_body h" "parseRoute (hr_method h) (hr_path h) = Inr (hc_op hc)"
    "\<exists>g. canonicalizePath g (hc_subtree hc) = Inr (hc_canonPath hc)"
    "canonicalizeMoveCopyLegs (hc_op hc) (hr_body h) (hc_subtree hc) = Inr (hc_canonSource hc, hc_canonDest hc)"
    "requiredIntentForOp (hc_op hc) = Some i \<Longrightarrow> hc_subtree hc = subtree_For (dp_subtrees d) (joinIntentFor (ps_GrantedIntents (hc_ps hc)) i)"
    "enabled (dp_subtrees d) \<Longrightarrow> hc_subtree hc \<noteq> []"
proof -
  note u = assms [unfolded spine_ctx_def]
  show "hc_body hc = hr_body h" using u by (elim conjE)
  show "parseRoute (hr_method h) (hr_path h) = Inr (hc_op hc)" using u by (elim conjE)
  show "\<exists>g. canonicalizePath g (hc_subtree hc) = Inr (hc_canonPath hc)" using u by (elim conjE exE) (rule exI)
  show "canonicalizeMoveCopyLegs (hc_op hc) (hr_body h) (hc_subtree hc) = Inr (hc_canonSource hc, hc_canonDest hc)"
    using u by (elim conjE exE)
  show "hc_subtree hc = subtree_For (dp_subtrees d) (joinIntentFor (ps_GrantedIntents (hc_ps hc)) i)"
    if "requiredIntentForOp (hc_op hc) = Some i" using u that by (elim conjE exE) simp
  show "hc_subtree hc \<noteq> []" if "enabled (dp_subtrees d)" using u that by (elim conjE) simp
qed

lemma spine_legs_inside:
  assumes "spine_ctx d h hc" "hc_subtree hc \<noteq> []" "decoded hc" "is_two_path (hc_op hc) \<Longrightarrow> json_members (hr_body h) \<noteq> None"
  shows "legs_inside hc"
proof -
  obtain g where c: "canonicalizePath g (hc_subtree hc) = Inr (hc_canonPath hc)" using spine_ctxD(3) [OF assms(1)] by blast
  note nd = canon_not_dot [OF c] and b = spine_ctxD(1) [OF assms(1)] and l = spine_ctxD(4) [OF assms(1)]
  show ?thesis
  proof (cases "is_two_path (hc_op hc)")
    case False
    then show ?thesis using nd canon_engine_under [OF c assms(2)] by (simp add: legs_inside_def)
  next
    case True
    obtain ms ms' where ms: "decodeStrictBytes (op_schema (hc_op hc)) (hr_body h) = Inr ms" "json_members (hr_body h) = Some ms'"
      using assms(3,4) True b by (auto simp: decoded_def)
    then have "json_members (hr_body h) = Some ms" "lax_ok (hc_op hc) ms" using strict_lax [OF ms True] by simp_all
    then have "canonicalizePath (get_str ''source'' ms) (hc_subtree hc) = Inr (hc_canonSource hc)"
      "canonicalizePath (get_str ''destination'' ms) (hc_subtree hc) = Inr (hc_canonDest hc)"
      using l True by (auto simp: canonicalizeMoveCopyLegs_def rbind_eq_Inr_conv)
    then show ?thesis using nd True canon_engine_under assms(2) by (simp add: legs_inside_def)
  qed
qed

end
