(* ===== verification/SouthStream.thy ===== *)
theory SouthStream
  imports SouthDispatch
begin

text \<open>
  The streaming routes of the south face (\<open>src/internal/southface\<close>): the multipart upload of
  \<open>fileUpload\<close> and \<open>createFile\<close> (\<open>upload_multipart.go\<close>), the octet-stream download
  (\<open>download_octetstream.go\<close>) and the router in front of the three request classes (\<open>router.go\<close>).
\<close>

section \<open>Shared parts\<close>

text \<open>The scope of the caller of a stream; unlike the unary route it is not bounded by the operator's ceiling.\<close>

definition stream_scope :: "('s, 'g) dispatcher \<Rightarrow> http_request \<Rightarrow> (response, PeerScope) res" where
  "stream_scope d h =
     (case dp_extractor d of
        Some bind \<Rightarrow>
          (case peerScopeFromCredential (hr_authorization h) bind of
             Inl v \<Rightarrow> Inl (WriteRESTDeny v ''credential rejected'')
           | Inr ps \<Rightarrow> Inr ps)
      | None \<Rightarrow>
          (case hr_ctxScope h of
             None \<Rightarrow> Inl (refuse dc_Internal ''no channel scope on connection'')
           | Some ps \<Rightarrow> Inr ps))"

definition zero_request :: Request where
  "zero_request = \<lparr>rq_Filesystem = [], rq_Path = [], rq_Intent = []\<rparr>"

definition zero_grant :: Grant where "zero_grant = \<lparr>gr_Downloadable = False\<rparr>"

text \<open>The refusal of a stream: its deny record first, then the response of the audited class.\<close>

definition deny_stream :: "('s, 'g) dispatcher \<Rightarrow> Op \<Rightarrow> PeerScope \<Rightarrow> string \<Rightarrow> Request \<Rightarrow> Grant \<Rightarrow>
    deny_class \<Rightarrow> string \<Rightarrow> ('s, 'g) face \<Rightarrow> response \<times> ('s, 'g) face" where
  "deny_stream d x ps rid req grant auditReason message f =
     (case mandate d (mapAuditEvent ((denyAuditEvent x ps req grant [] auditReason)\<lparr>ae_RequestID := rid\<rparr>)) f of
        (Inl _, f1) \<Rightarrow> (refuse dc_AuditDown ''audit gate unavailable'', f1)
      | (Inr _, f1) \<Rightarrow> (refuse auditReason message, f1))"

definition on_face_session :: "nat \<Rightarrow> (Session \<Rightarrow> ceil_err option \<times> Session) \<Rightarrow> ('s, 'g) face \<Rightarrow> ceil_err option \<times> ('s, 'g) face" where
  "on_face_session i g f = (let (e, reg) = on_session i g (fc_reg f) in (e, f\<lparr>fc_reg := reg\<rparr>))"

definition checkDeclaredSize :: "int \<Rightarrow> int \<Rightarrow> bool" where
  "checkDeclaredSize declared bound = (declared \<le> bound)"

section \<open>Upload\<close>

record uploadParamsFrame =
  up_FilesystemID :: string
  up_Path :: string
  up_DeclaredSizeBytes :: int
  up_OverwriteExisting :: bool
  up_MediaType :: string

definition upload_schema :: "(string \<times> field_type) list" where
  "upload_schema = common_fields @
     [(''path'', FStr), (''declared_size_bytes'', FInt), (''overwrite_existing'', FBool),
      (''media_type'', FStr), (''ttl_seconds'', FInt)]"

definition str_or_null :: "json \<Rightarrow> bool" where
  "str_or_null v = (case v of JNull \<Rightarrow> True | JStr _ \<Rightarrow> True | _ \<Rightarrow> False)"

definition str_map_ok :: "json list \<Rightarrow> bool" where
  "str_map_ok vs = list_all (\<lambda>v. case v of JNull \<Rightarrow> True | JObj ms \<Rightarrow> list_all (\<lambda>(k, x). str_or_null x) ms | _ \<Rightarrow> False) vs"

definition str_list_ok :: "json list \<Rightarrow> bool" where
  "str_list_ok vs = list_all (\<lambda>v. case v of JNull \<Rightarrow> True | JArr xs \<Rightarrow> list_all str_or_null xs | _ \<Rightarrow> False) vs"

definition decode_upload_params :: "string \<Rightarrow> uploadParamsFrame option" where
  "decode_upload_params raw =
     Option.bind (decode_single raw) (\<lambda>ms.
       if only_fields (map fst upload_schema @ [''metadata'', ''tags'']) ms \<and>
          list_all (\<lambda>(n, t). field_ok t (field_vals n ms)) upload_schema \<and>
          str_map_ok (field_vals ''metadata'' ms) \<and> str_list_ok (field_vals ''tags'' ms)
       then Some \<lparr>up_FilesystemID = get_str ''filesystem_id'' ms, up_Path = get_str ''path'' ms,
                  up_DeclaredSizeBytes = get_int ''declared_size_bytes'' ms,
                  up_OverwriteExisting = get_bool ''overwrite_existing'' ms, up_MediaType = get_str ''media_type'' ms\<rparr>
       else None)"

definition multipartParamsField :: string where "multipartParamsField = ''params''"
definition multipartFileField :: string where "multipartFileField = ''file''"

definition readUploadParams :: "('s, 'g) dispatcher \<Rightarrow> part list \<Rightarrow> (deny_class \<times> string, uploadParamsFrame \<times> part list) res" where
  "readUploadParams d parts =
     (case parts of
        [] \<Rightarrow> Inl (dc_Malformed, ''missing multipart params part'')
      | p # rest \<Rightarrow>
          if pt_name p \<noteq> multipartParamsField then Inl (dc_Malformed, ''first multipart part must be the params field'')
          else
            (let raw = concat (pt_reads p) in
             if dp_sizeCeiling d < int (length raw) then Inl (dc_Throttle, ''params field exceeds message ceiling'')
             else if \<not> pt_eof p then Inl (dc_Malformed, ''malformed multipart params part'')
             else (case decode_upload_params raw of
                     None \<Rightarrow> Inl (dc_Malformed, ''malformed params JSON'')
                   | Some u \<Rightarrow> Inr (u, rest))))"

definition openUploadFilePart :: "part list \<Rightarrow> (deny_class \<times> string, part) res" where
  "openUploadFilePart parts =
     (case parts of
        [] \<Rightarrow> Inl (dc_Malformed, ''missing multipart file part'')
      | p # _ \<Rightarrow>
          if pt_name p \<noteq> multipartFileField then Inl (dc_Malformed, ''second multipart part must be the file field'')
          else Inr p)"

text \<open>
  The loop that feeds the file part to the engine's pipe. \<open>offered\<close> are the chunks written so far
  and \<open>acquired\<close> the bytes charged to the session; the result is how the feed ended.
\<close>

datatype feed_end = FeedDone | FeedAbort deny_class string

fun feed_part :: "int \<Rightarrow> nat \<Rightarrow> bool \<Rightarrow> string list \<Rightarrow> string list \<Rightarrow> int \<Rightarrow> ('s, 'g) face \<Rightarrow>
    feed_end \<times> string list \<times> int \<times> ('s, 'g) face" where
  "feed_part declared i eof [] offered acquired f =
     (if \<not> eof then (FeedAbort dc_Aborted ''malformed or truncated upload body'', offered, acquired, f)
      else if acquired \<noteq> declared then
        (FeedAbort dc_SizeExceeded ''uploaded bytes do not match declared size'', offered, acquired, f)
      else (FeedDone, offered, acquired, f))"
| "feed_part declared i eof (c # cs) offered acquired f =
     (if c = [] then feed_part declared i eof cs offered acquired f
      else if declared < acquired + int (length c) then
        (FeedAbort dc_SizeExceeded ''uploaded bytes exceed declared size'', offered, acquired, f)
      else
        (case on_face_session i (AcquireBytes (of_nat (length c))) f of
           (Some _, f1) \<Rightarrow> (FeedAbort dc_Throttle ''in-flight byte ceiling exceeded'', offered, acquired, f1)
         | (None, f1) \<Rightarrow> feed_part declared i eof cs (offered @ [c]) (acquired + int (length c)) f1))"

text \<open>
  The engine reads the pipe while it is fed. When the feed is aborted the pipe ends with an error;
  the engine's own refusal is what the caller sees if the engine refused before the abort.
\<close>

definition abort_stream :: store_err where "abort_stream = ReaderErr ''southface: inbound stream aborted''"

definition createObjectRef :: "string \<Rightarrow> string" where
  "createObjectRef canon = enginePath canon"

definition createFilenameFromParams :: "string \<Rightarrow> string" where
  "createFilenameFromParams canon =
     (let leaf = path_base (enginePath canon)
      in if leaf = [] \<or> leaf = dot \<or> leaf = ''/'' then enginePath canon else leaf)"

definition upload_answer :: "('s, 'g) dispatcher \<Rightarrow> Op \<Rightarrow> PeerScope \<Rightarrow> uploadParamsFrame \<Rightarrow> string \<Rightarrow> ('s, 'g) face \<Rightarrow>
    response \<times> ('s, 'g) face" where
  "upload_answer d x ps u canon f =
     (if x = OpCreateFile then
        (case fc_handles f of
           None \<Rightarrow> (refuse dc_BackendUnavailable ''handle store unavailable'', f)
         | Some st \<Rightarrow>
             (case handle_op d (ps_FilesystemID ps)
                     (\<lambda>q. put q \<lparr>pi_scope = ps_FilesystemID ps, pi_object_ref = createObjectRef canon,
                                 pi_filename = createFilenameFromParams canon, pi_mime = up_MediaType u,
                                 pi_size = of_int (up_DeclaredSizeBytes u), pi_policy_ref = [], pi_sha256 = []\<rparr>) st f of
                (Inl _, f1) \<Rightarrow> (refuse dc_BackendUnavailable ''handle store unavailable'', f1)
              | (Inr r, f1) \<Rightarrow> (writeJSON (recordToFileObject r), f1)))
      else (\<lparr>rs_status = 200, rs_header = [], rs_body = []\<rparr>, f))"

definition upload_body :: "('s, 'g) dispatcher \<Rightarrow> Op \<Rightarrow> PeerScope \<Rightarrow> nat \<Rightarrow> string \<Rightarrow> bool \<Rightarrow> uploadParamsFrame \<Rightarrow> Request \<Rightarrow> Grant \<Rightarrow>
    part \<Rightarrow> ('s, 'g) face \<Rightarrow> response \<times> int \<times> ('s, 'g) face" where
  "upload_body d x ps i rid early u req grant p f =
     (let (fin, offered, acquired, f1) = feed_part (up_DeclaredSizeBytes u) i (pt_eof p) (pt_reads p) [] 0 f;
          (er, f2) = engine d (ps_FilesystemID ps)
            (CallWriteStream (enginePath (rq_Path req)) (offered, if fin = FeedDone then None else Some abort_stream)
               (up_OverwriteExisting u)) f1;
          (r, f3) =
            (case (fin, er) of
               (FeedDone, Inr _) \<Rightarrow> upload_answer d x ps u (rq_Path req) f2
             | (FeedDone, Inl e) \<Rightarrow> deny_stream d x ps rid req grant (auditTruthForEngineErr e) ''upload refused'' f2
             | (FeedAbort cls message, Inl e) \<Rightarrow>
                 if early then deny_stream d x ps rid req grant (auditTruthForEngineErr e) ''upload refused'' f2
                 else deny_stream d x ps rid req grant cls message f2
             | (FeedAbort cls message, Inr _) \<Rightarrow> deny_stream d x ps rid req grant cls message f2)
      in (r, acquired, f3))"

definition streamAuditEvent :: "PeerScope \<Rightarrow> Request \<Rightarrow> Grant \<Rightarrow> int \<Rightarrow> string \<Rightarrow> auditEvent" where
  "streamAuditEvent ps req grant declared rid =
     \<lparr>ae_Op = Some OpFileUpload, ae_Scope = ps_FilesystemID ps, ae_Path = rq_Path req, ae_Intent = rq_Intent req,
      ae_PeerUID = ps_UID ps, ae_PeerPID = ps_PID ps, ae_ActivityID = 1,
      ae_ObjectHandle = ps_FilesystemID ps @ '':'' @ rq_Path req, ae_ByteCount = of_int declared,
      ae_Downloadable = gr_Downloadable grant, ae_DenyReason = [], ae_RequestID = rid\<rparr>"

definition upload_allowed :: "('s, 'g) dispatcher \<Rightarrow> Op \<Rightarrow> PeerScope \<Rightarrow> nat \<Rightarrow> string \<Rightarrow> bool \<Rightarrow> uploadParamsFrame \<Rightarrow> Request \<Rightarrow> Grant \<Rightarrow>
    part list \<Rightarrow> ('s, 'g) face \<Rightarrow> response \<times> ('s, 'g) face" where
  "upload_allowed d x ps i rid early u req grant rest f =
     (case openUploadFilePart rest of
        Inl (cls, message) \<Rightarrow> deny_stream d x ps rid req grant cls message f
      | Inr p \<Rightarrow>
          (case on_face_session i TryAcquireFD f of
             (Some _, f1) \<Rightarrow> deny_stream d x ps rid req grant dc_Throttle ''file-descriptor ceiling exceeded'' f1
           | (None, f1) \<Rightarrow>
               (let (r, acquired, f2) = upload_body d x ps i rid early u req grant p f1;
                    (_, f3) = on_face_session i ReleaseFD f2;
                    (_, f4) = on_face_session i (ReleaseBytes (of_int acquired)) f3
                in (r, f4))))"

definition handleFileUploadMultipart :: "('s, 'g) dispatcher \<Rightarrow> Op \<Rightarrow> PeerScope \<Rightarrow> nat \<Rightarrow> string \<Rightarrow> http_request \<Rightarrow> ('s, 'g) face \<Rightarrow>
    response \<times> ('s, 'g) face" where
  "handleFileUploadMultipart d x ps i rid h f =
     (let deny = deny_stream d x ps rid zero_request zero_grant in
      case hr_parts h of
        None \<Rightarrow> deny dc_Malformed ''request is not multipart/form-data'' f
      | Some parts \<Rightarrow>
          (case readUploadParams d parts of
             Inl (cls, message) \<Rightarrow> deny cls message f
           | Inr (u, rest) \<Rightarrow>
               if up_DeclaredSizeBytes u \<le> 0 then deny dc_Malformed ''declared_size_bytes required'' f
               else if x = OpCreateFile \<and> fc_handles f = None then deny dc_BackendUnavailable ''handle store not configured'' f
               else if up_FilesystemID u \<noteq> ps_FilesystemID ps then
                 deny dc_ScopeMismatch ''request scope does not match the session channel'' f
               else
                 (case canonicalizePath (up_Path u) (subtree_For (dp_subtrees d) IntentWrite) of
                    Inl _ \<Rightarrow> deny dc_Malformed ''invalid or unsafe path'' f
                  | Inr canon \<Rightarrow>
                      (let req = \<lparr>rq_Filesystem = ps_FilesystemID ps, rq_Path = canon, rq_Intent = IntentWrite\<rparr> in
                       case resolve d ps req of
                         Inl e \<Rightarrow> deny_stream d x ps rid req zero_grant (denyClassForErr e) ''authorization denied'' f
                       | Inr grant \<Rightarrow>
                           if \<not> checkDeclaredSize (up_DeclaredSizeBytes u) (dp_maxFileSize d) then
                             deny_stream d x ps rid req grant dc_SizeExceeded ''declared size exceeds whole-object ceiling'' f
                           else
                             (case mandate d (mapAuditEvent (streamAuditEvent ps req grant (up_DeclaredSizeBytes u) rid)) f of
                                (Inl _, f1) \<Rightarrow> (refuse dc_AuditDown ''audit gate unavailable'', f1)
                              | (Inr _, f1) \<Rightarrow> upload_allowed d x ps i rid (hr_early h) u req grant rest f1)))))"

definition serveUploadMultipart :: "('s, 'g) dispatcher \<Rightarrow> Op \<Rightarrow> http_request \<Rightarrow> ('s, 'g) face \<Rightarrow> response \<times> ('s, 'g) face" where
  "serveUploadMultipart d x h f =
     (let rid = newCorrelationID (hr_rand h);
          (r, f1) =
            (case stream_scope d h of
               Inl r \<Rightarrow> (r, f)
             | Inr ps \<Rightarrow>
                 (case consume_op h (ps_FilesystemID ps) f of
                    (Inl r, f1) \<Rightarrow> (r, f1)
                  | (Inr i, f1) \<Rightarrow> handleFileUploadMultipart d x ps i rid h f1))
      in (with_request_id rid r, f1))"

section \<open>Download\<close>

definition streamDownloadAuditEvent :: "PeerScope \<Rightarrow> Request \<Rightarrow> Grant \<Rightarrow> string \<Rightarrow> auditEvent" where
  "streamDownloadAuditEvent ps req grant rid =
     \<lparr>ae_Op = Some OpFileDownload, ae_Scope = ps_FilesystemID ps, ae_Path = rq_Path req, ae_Intent = rq_Intent req,
      ae_PeerUID = ps_UID ps, ae_PeerPID = ps_PID ps, ae_ActivityID = 2,
      ae_ObjectHandle = ps_FilesystemID ps @ '':'' @ rq_Path req, ae_ByteCount = 0,
      ae_Downloadable = gr_Downloadable grant, ae_DenyReason = [], ae_RequestID = rid\<rparr>"

text \<open>The pointer field \<open>range\<close>: \<open>null\<close> resets it, an object is merged into what it points to.\<close>

fun range_members :: "(string \<times> json) list option \<Rightarrow> json list \<Rightarrow> (string \<times> json) list option" where
  "range_members m [] = m"
| "range_members m (JObj ms # vs) = range_members (Some ((case m of None \<Rightarrow> [] | Some ms0 \<Rightarrow> ms0) @ ms)) vs"
| "range_members m (_ # vs) = range_members None vs"

definition statSizeContained :: "('s, 'g) dispatcher \<Rightarrow> string \<Rightarrow> string \<Rightarrow> ('s, 'g) face \<Rightarrow> (south_err, int) res \<times> ('s, 'g) face" where
  "statSizeContained d scope path f =
     (case engine d scope (CallStat path) f of
        (Inl e, f1) \<Rightarrow> (Inl e, f1)
      | (Inr r, f1) \<Rightarrow> (Inr (int (fi_size (info_of r))), f1))"

text \<open>The window of the download, resolved before the allow record.\<close>

definition download_window :: "('s, 'g) dispatcher \<Rightarrow> PeerScope \<Rightarrow> string \<Rightarrow> (string \<times> json) list \<Rightarrow> ('s, 'g) face \<Rightarrow>
    (deny_class \<times> string, int \<times> int) res \<times> ('s, 'g) face" where
  "download_window d ps path ms f =
     (case range_members None (field_vals ''range'' ms) of
        Some rs \<Rightarrow>
          if get_int ''offset'' rs < 0 \<or> get_int ''length'' rs < 0
          then (Inl (dc_Malformed, ''negative range offset or length''), f)
          else (Inr (get_int ''offset'' rs, get_int ''length'' rs), f)
      | None \<Rightarrow>
          (case statSizeContained d (ps_FilesystemID ps) (enginePath path) f of
             (Inl e, f1) \<Rightarrow> (Inl (denyClassForEngineErr e, ''object not found''), f1)
           | (Inr n, f1) \<Rightarrow> (Inr (0, n), f1)))"

definition contentTypeOctetStream :: string where "contentTypeOctetStream = ''application/octet-stream''"

text \<open>The bytes that reached the client; the status is committed before the first of them.\<close>

definition download_allowed :: "('s, 'g) dispatcher \<Rightarrow> PeerScope \<Rightarrow> nat \<Rightarrow> string \<Rightarrow> Request \<Rightarrow> Grant \<Rightarrow> int \<times> int \<Rightarrow> ('s, 'g) face \<Rightarrow>
    response \<times> ('s, 'g) face" where
  "download_allowed d ps i rid req grant w f =
     (case on_face_session i TryAcquireFD f of
        (Some _, f1) \<Rightarrow> deny_stream d OpFileDownload ps rid req grant dc_Throttle ''file-descriptor ceiling exceeded'' f1
      | (None, f1) \<Rightarrow>
          (let (er, f2) = engine d (ps_FilesystemID ps)
                 (CallReadRange (enginePath (rq_Path req)) (of_int (fst w)) (of_int (snd w))) f1;
               (_, f3) = on_face_session i ReleaseFD f2
           in (\<lparr>rs_status = 200, rs_header = [(''Content-Type'', contentTypeOctetStream)],
                rs_body = (case er of Inr (ReplyRead bytes _) \<Rightarrow> bytes | _ \<Rightarrow> [])\<rparr>, f3)))"

definition download_object :: "('s, 'g) dispatcher \<Rightarrow> PeerScope \<Rightarrow> nat \<Rightarrow> string \<Rightarrow> (string \<times> json) list \<Rightarrow> string \<Rightarrow> ('s, 'g) face \<Rightarrow>
    response \<times> ('s, 'g) face" where
  "download_object d ps i rid ms path f =
     (case canonicalizePath path [] of
        Inl _ \<Rightarrow> deny_stream d OpFileDownload ps rid zero_request zero_grant dc_NotFound ''object not found'' f
      | Inr canon \<Rightarrow>
          (let req = \<lparr>rq_Filesystem = ps_FilesystemID ps, rq_Path = canon, rq_Intent = IntentRead\<rparr> in
           case resolve d ps req of
             Inl e \<Rightarrow> deny_stream d OpFileDownload ps rid req zero_grant (denyClassForErr e) ''authorization denied'' f
           | Inr grant \<Rightarrow>
               (case download_window d ps canon ms f of
                  (Inl (cls, message), f1) \<Rightarrow> deny_stream d OpFileDownload ps rid req grant cls message f1
                | (Inr w, f1) \<Rightarrow>
                    if \<not> checkDeclaredSize (snd w) (dp_maxFileSize d) then
                      deny_stream d OpFileDownload ps rid req grant dc_SizeExceeded ''requested window exceeds whole-object ceiling'' f1
                    else
                      (case mandate d (mapAuditEvent (streamDownloadAuditEvent ps req grant rid)) f1 of
                         (Inl _, f2) \<Rightarrow> (refuse dc_AuditDown ''audit gate unavailable'', f2)
                       | (Inr _, f2) \<Rightarrow> download_allowed d ps i rid req grant w f2))))"

text \<open>A uuid of another scope: the record names the probed object, the answer is that there is none.\<close>

definition foreign_uuid :: "('s, 'g) dispatcher \<Rightarrow> PeerScope \<Rightarrow> string \<Rightarrow> string \<Rightarrow> string \<Rightarrow> ('s, 'g) face \<Rightarrow> response \<times> ('s, 'g) face" where
  "foreign_uuid d ps rid scope path f =
     (let probed = \<lparr>rq_Filesystem = scope, rq_Path = path, rq_Intent = IntentRead\<rparr> in
      case mandate d (mapAuditEvent ((denyAuditEvent OpFileDownload ps probed zero_grant [] dc_ScopeMismatch)\<lparr>ae_RequestID := rid\<rparr>)) f of
        (Inl _, f1) \<Rightarrow> (refuse dc_AuditDown ''audit gate unavailable'', f1)
      | (Inr _, f1) \<Rightarrow>
          (WriteRESTDeny ((MapDenyDegraded dc_ScopeMismatch dc_NotFound)\<lparr>CorrelationID := rid\<rparr>) ''object not found'', f1))"

definition handleDownloadOctetStream :: "('s, 'g) dispatcher \<Rightarrow> PeerScope \<Rightarrow> nat \<Rightarrow> string \<Rightarrow> http_request \<Rightarrow> ('s, 'g) face \<Rightarrow>
    response \<times> ('s, 'g) face" where
  "handleDownloadOctetStream d ps i rid h f =
     (let deny = deny_stream d OpFileDownload ps rid zero_request zero_grant in
      if dp_sizeCeiling d < int (length (hr_body h)) then deny dc_Throttle ''request body exceeds message ceiling'' f
      else if hr_bodyEnd h \<noteq> BodyEOF then deny dc_Malformed ''malformed request body'' f
      else
        (case decodeStrictBytes (op_schema OpFileDownload) (hr_body h) of
           Inl _ \<Rightarrow> deny dc_Malformed ''malformed request body'' f
         | Inr ms \<Rightarrow>
             if get_str ''filesystem_id'' ms \<noteq> ps_FilesystemID ps then
               deny dc_ScopeMismatch ''request scope does not match the session channel'' f
             else
               (case id_lookup (get_str ''uuid'' ms) (fc_ids f) of
                  None \<Rightarrow> deny dc_NotFound ''object not found'' f
                | Some (scope, path) \<Rightarrow>
                    if scope \<noteq> ps_FilesystemID ps then foreign_uuid d ps rid scope path f
                    else download_object d ps i rid ms path f)))"

definition serveDownloadOctetStream :: "('s, 'g) dispatcher \<Rightarrow> http_request \<Rightarrow> ('s, 'g) face \<Rightarrow> response \<times> ('s, 'g) face" where
  "serveDownloadOctetStream d h f =
     (let rid = newCorrelationID (hr_rand h);
          (r, f1) =
            (case stream_scope d h of
               Inl r \<Rightarrow> (r, f)
             | Inr ps \<Rightarrow>
                 (case consume_op h (ps_FilesystemID ps) f of
                    (Inl r, f1) \<Rightarrow> (r, f1)
                  | (Inr i, f1) \<Rightarrow> handleDownloadOctetStream d ps i rid h f1))
      in (with_request_id rid r, f1))"

section \<open>Router\<close>

definition routeOp :: "string \<Rightarrow> Op option" where
  "routeOp path =
     (if \<not> has_prefix path restBase then None
      else find (\<lambda>x. op_name x = trim_prefix path restBase) knownOps)"

definition isMultipartRequest :: "string \<Rightarrow> bool" where
  "isMultipartRequest ct = (trim_space (takeWhile (\<lambda>c. c \<noteq> CHR '';'') ct) = ''multipart/form-data'')"

definition negotiated_multipart :: "Op \<Rightarrow> string \<Rightarrow> bool" where
  "negotiated_multipart x ct = ((x = OpFileUpload \<or> x = OpCreateFile) \<and> isMultipartRequest ct)"

definition restRouter :: "('s, 'g) dispatcher \<Rightarrow> http_request \<Rightarrow> ('s, 'g) face \<Rightarrow> response \<times> ('s, 'g) face" where
  "restRouter d h f =
     (case routeOp (hr_path h) of
        None \<Rightarrow> (refuse dc_NotFound ''unknown operation'', f)
      | Some x \<Rightarrow>
          if hr_method h \<noteq> ''POST'' then (method_not_allowed, f)
          else if negotiated_multipart x (hr_contentType h) then serveUploadMultipart d x h f
          else if x = OpFileDownload then serveDownloadOctetStream d h f
          else ServeHTTP d h f)"

section \<open>Lemmas\<close>

lemma does_fst_nothing: "does d [] f f1 \<Longrightarrow> does d tr f1 f2 \<Longrightarrow> does d tr f f2"
  using does_trans [of d "[]" f f1 tr f2] by simp

lemma does_then_nothing: "does d tr f f1 \<Longrightarrow> does d [] f1 f2 \<Longrightarrow> does d tr f f2"
  using does_trans [of d tr f f1 "[]" f2] by simp

lemma session_does: "on_face_session i g f = (e, f1) \<Longrightarrow> does d [] f f1"
  by (auto simp: on_face_session_def does_nothing Let_def split: prod.splits)

lemma feed_part_does: "feed_part declared i eof cs offered acquired f = (fin, offered', acquired', f1) \<Longrightarrow> does d [] f f1"
proof (induction declared i eof cs offered acquired f rule: feed_part.induct)
  case (2 declared i eof c cs offered acquired f)
  obtain e f2 where s: "on_face_session i (AcquireBytes (of_nat (length c))) f = (e, f2)" by fastforce
  note s0 = session_does [OF s, of d]
  show ?case
  proof (cases "c = [] \<or> declared < acquired + int (length c)")
    case True
    then show ?thesis using 2(1,3) by (auto simp: does_nothing split: if_splits)
  next
    case False
    then show ?thesis using 2(2) [OF _ _ s [symmetric]] 2(3) s s0
      by (cases e) (auto intro: does_fst_nothing)
  qed
qed (auto simp: does_nothing split: if_splits)

text \<open>
  The vocabulary of the routes: an effect is in order for a caller when it names the caller's
  scope, and changes something only if the caller may write and only where a write may go; a
  request answers in step with the audit log. With subtrees configured a change stays in the
  write subtree; a move or copy whose body has bytes after its JSON value is left out of that.
\<close>

definition subtrees_apply :: "('s, 'g) dispatcher \<Rightarrow> http_request \<Rightarrow> bool" where
  "subtrees_apply d h \<longleftrightarrow> (\<exists>wr rd pv. NewSubtreeMap wr rd pv = Inr (dp_subtrees d)) \<and>
     (\<forall>x. parseRoute (hr_method h) (hr_path h) = Inr x \<and> is_two_path x \<longrightarrow> json_members (hr_body h) \<noteq> None)"

definition permitted :: "('s, 'g) dispatcher \<Rightarrow> http_request \<Rightarrow> engine_call \<Rightarrow> bool" where
  "permitted d h c \<longleftrightarrow> (subtrees_apply d h \<longrightarrow> call_inside (subtree_For (dp_subtrees d) IntentWrite) c)"

fun act_ok :: "('s, 'g) dispatcher \<Rightarrow> http_request \<Rightarrow> PeerScope \<Rightarrow> string \<Rightarrow> effect \<Rightarrow> bool" where
  "act_ok d h ps rid (EngineCalled s c) \<longleftrightarrow>
     s = ps_FilesystemID ps \<and> (call_mutates c \<longrightarrow> IntentWrite \<in> set (ps_GrantedIntents ps) \<and> permitted d h c)"
| "act_ok d h ps rid (HandleCalled s) \<longleftrightarrow> s = ps_FilesystemID ps"
| "act_ok d h ps rid (Audited ev b) \<longleftrightarrow> is_deny ev \<and> ev_FilesystemID ev = ps_FilesystemID ps \<and> CorrelationUID ev = rid"

definition allows :: "PeerScope \<Rightarrow> string \<Rightarrow> FileActivityEvent \<Rightarrow> bool" where
  "allows ps rid ev \<longleftrightarrow> \<not> is_deny ev \<and> ev_FilesystemID ev = ps_FilesystemID ps \<and> CorrelationUID ev = rid"

definition closing :: "response \<Rightarrow> effect list \<Rightarrow> bool" where
  "closing r tr \<longleftrightarrow> answered r tr \<or> rs_status r = 503 \<and> list_all (\<lambda>e. \<not> is_audit e) tr"

definition closes :: "('s, 'g) dispatcher \<Rightarrow> http_request \<Rightarrow> PeerScope \<Rightarrow> string \<Rightarrow> ('s, 'g) face \<Rightarrow> response \<times> ('s, 'g) face \<Rightarrow> bool" where
  "closes d h ps rid f res \<longleftrightarrow>
     (\<exists>tr. does d tr f (snd res) \<and> list_all (act_ok d h ps rid) tr \<and> closing (fst res) tr)"

lemma permitted_write:
  assumes "canonicalizePath g (subtree_For (dp_subtrees d) IntentWrite) = Inr p"
  shows "permitted d h (CallWriteStream (enginePath p) rd ow)"
  using canon_engine_under [OF assms] NewSubtreeMap_Inr unfolding permitted_def subtrees_apply_def by fastforce

lemma spine_permitted:
  assumes "spine_ctx d h hc" "effect_ok hc (EngineCalled s c)" "call_mutates c"
  shows "permitted d h c"
  unfolding permitted_def
proof
  assume a: "subtrees_apply d h"
  then have en: "enabled (dp_subtrees d)"
    using NewSubtreeMap_Inr by (fastforce simp: subtrees_apply_def enabled_def subtree_For_def)
  have w: "IntentWrite \<in> set (ps_GrantedIntents (hc_ps hc))" "requiredIntentForOp (hc_op hc) = Some IntentWrite"
    and dec: "decoded hc" using assms(2,3) by simp_all
  have sub: "hc_subtree hc = subtree_For (dp_subtrees d) IntentWrite"
    using spine_ctxD(5) [OF assms(1) w(2)] join_write [OF w(1)] by simp
  have ne: "hc_subtree hc \<noteq> []" using spine_ctxD(6) [OF assms(1) en] .
  have "parseRoute (hr_method h) (hr_path h) = Inr (hc_op hc)" using spine_ctxD(2) [OF assms(1)] .
  then have "legs_inside hc" using a by (intro spine_legs_inside [OF assms(1) ne dec]) (auto simp: subtrees_apply_def)
  then show "call_inside (subtree_For (dp_subtrees d) IntentWrite) c" using assms(2) ne sub by simp
qed

lemma closing_after: "list_all (\<lambda>e. \<not> is_audit e) t \<Longrightarrow> closing r u \<Longrightarrow> closing r (t @ u)"
  by (auto simp: closing_def answered_after)

lemma closes_after:
  assumes "does d t f f1" "list_all (act_ok d h ps rid) t" "list_all (\<lambda>e. \<not> is_audit e) t" "closes d h ps rid f1 res"
  shows "closes d h ps rid f res"
proof -
  obtain u where u: "does d u f1 (snd res)" "list_all (act_ok d h ps rid) u" "closing (fst res) u"
    using assms(4) by (auto simp: closes_def)
  have "does d (t @ u) f (snd res)" "list_all (act_ok d h ps rid) (t @ u)" using does_trans [OF assms(1) u(1)] assms(2) u(2) by simp_all
  then show ?thesis using closing_after [OF assms(3) u(3)] unfolding closes_def by blast
qed

lemma closes_before: "does d [] f f1 \<Longrightarrow> closes d h ps rid f1 res \<Longrightarrow> closes d h ps rid f res"
  unfolding closes_def using does_fst_nothing by blast

lemma closes_then: "closes d h ps rid f (r, f1) \<Longrightarrow> does d [] f1 f2 \<Longrightarrow> closes d h ps rid f (r, f2)"
  unfolding closes_def using does_then_nothing by fastforce

text \<open>A refusal writes its deny record first.\<close>

definition refused :: "('s, 'g) dispatcher \<Rightarrow> http_request \<Rightarrow> PeerScope \<Rightarrow> string \<Rightarrow> ('s, 'g) face \<Rightarrow> response \<times> ('s, 'g) face \<Rightarrow> bool" where
  "refused d h ps rid f res \<longleftrightarrow>
     (\<exists>ev b. does d [Audited ev b] f (snd res) \<and> act_ok d h ps rid (Audited ev b) \<and> 400 \<le> rs_status (fst res) \<and>
        (b \<or> rs_status (fst res) = 503))"

lemma status_refuse_down: "rs_status (refuse dc_AuditDown m) = 503"
  by (simp add: refuse_def status_deny status_audit_down)

lemma refused_deny_stream:
  assumes "cls \<noteq> []"
  shows "refused d h ps rid f (deny_stream d x ps rid req g cls message f)"
proof -
  let ?ev = "mapAuditEvent ((denyAuditEvent x ps req g [] cls)\<lparr>ae_RequestID := rid\<rparr>)"
  obtain y f1 where m: "mandate d ?ev f = (y, f1)" by fastforce
  have "act_ok d h ps rid (Audited ?ev (ok y))"
    using assms by (simp add: mapAuditEvent_def denyAuditEvent_def auditEvent_of_def is_deny_def)
  then show ?thesis using m mandate_does [OF m] status_refuse_down
    by (cases y) (auto simp: refused_def deny_stream_def intro!: exI [of _ ?ev])
qed

lemma refused_closes: "refused d h ps rid f res \<Longrightarrow> closes d h ps rid f res"
proof -
  assume "refused d h ps rid f res"
  then obtain ev b where "does d [Audited ev b] f (snd res)" "act_ok d h ps rid (Audited ev b)" "400 \<le> rs_status (fst res)"
    "b \<or> rs_status (fst res) = 503" by (auto simp: refused_def)
  then show ?thesis unfolding closes_def closing_def answered_def by (intro exI [of _ "[Audited ev b]"]) auto
qed

lemma refused_before: "does d [] f f1 \<Longrightarrow> refused d h ps rid f1 res \<Longrightarrow> refused d h ps rid f res"
  unfolding refused_def using does_fst_nothing by blast

lemma class_nonempty_stream [simp]:
  "dc_Aborted \<noteq> []" "dc_SizeExceeded \<noteq> []" "dc_Throttle \<noteq> []" "dc_ScopeMismatch \<noteq> []"
  by (simp_all add: class_names)

lemma denyClassForErr_nonempty [simp]: "denyClassForErr e \<noteq> []"
  by (simp add: denyClassForErr_def class_names)

lemma denyClassForEngineErr_nonempty [simp]: "denyClassForEngineErr e \<noteq> []"
  by (simp add: denyClassForEngineErr_def class_names)

text \<open>
  The course of a request: it is refused before anything is recorded; or, after at most a size
  probe, it is refused with a deny record, or granted with an allow record and then closed.
\<close>

definition granted :: "('s, 'g) dispatcher \<Rightarrow> http_request \<Rightarrow> PeerScope \<Rightarrow> string \<Rightarrow> ('s, 'g) face \<Rightarrow> response \<times> ('s, 'g) face \<Rightarrow> bool" where
  "granted d h ps rid f res \<longleftrightarrow>
     (\<exists>ev. allows ps rid ev \<and>
        (does d [Audited ev False] f (snd res) \<and> 400 \<le> rs_status (fst res) \<or>
         (\<exists>f1. does d [Audited ev True] f f1 \<and>
            (closes d h ps rid f1 res \<or> rs_status (fst res) = 501 \<and> does d [] f1 (snd res)))))"

fun probe :: "PeerScope \<Rightarrow> effect \<Rightarrow> bool" where
  "probe ps (EngineCalled s (CallStat _)) \<longleftrightarrow> s = ps_FilesystemID ps"
| "probe ps _ \<longleftrightarrow> False"

definition episode :: "('s, 'g) dispatcher \<Rightarrow> http_request \<Rightarrow> PeerScope \<Rightarrow> string \<Rightarrow> ('s, 'g) face \<Rightarrow> response \<times> ('s, 'g) face \<Rightarrow> bool" where
  "episode d h ps rid f res \<longleftrightarrow>
     (\<exists>pre f1. does d pre f f1 \<and> list_all (probe ps) pre \<and> (refused d h ps rid f1 res \<or> granted d h ps rid f1 res))"

lemma episode_now: "refused d h ps rid f res \<or> granted d h ps rid f res \<Longrightarrow> episode d h ps rid f res"
  unfolding episode_def by (intro exI [of _ "[]"] exI [of _ f]) (auto simp: does_nothing)

lemmas episode_deny = episode_now [OF disjI1, OF refused_deny_stream]

lemma granted_mandate:
  assumes "allows ps rid ev" "\<And>f1. closes d h ps rid f1 (k f1)"
  shows "granted d h ps rid f (case mandate d ev f of (Inl _, f1) \<Rightarrow> (refuse dc_AuditDown message, f1) | (Inr _, f1) \<Rightarrow> k f1)"
proof -
  obtain x f1 where m: "mandate d ev f = (x, f1)" by fastforce
  note dm = mandate_does [OF m]
  show ?thesis
  proof (cases x)
    case (Inl e)
    then show ?thesis using m dm assms(1) unfolding granted_def by (intro exI [of _ ev]) simp
  next
    case (Inr u)
    then show ?thesis using m dm assms unfolding granted_def by (intro exI [of _ ev] conjI disjI2 exI [of _ f1] disjI1) simp_all
  qed
qed

lemma closes_deny_stream: "cls \<noteq> [] \<Longrightarrow> closes d h ps rid f (deny_stream d x ps rid req g cls message f)"
  by (rule refused_closes [OF refused_deny_stream])

lemma closes_upload_answer: "closes d h ps rid f (upload_answer d x ps u canon f)"
proof (cases "x = OpCreateFile")
  case False
  then show ?thesis
    by (auto simp: upload_answer_def closes_def does_nothing closing_def answered_def intro!: exI [of _ "[]"])
next
  case True
  have down: "rs_status (refuse dc_BackendUnavailable m) = 503" for m
    by (simp add: refuse_def status_deny MapDeny_def denyTable_def StatusForWireCode_def class_names code_names)
  show ?thesis
  proof (cases "fc_handles f")
    case None
    then show ?thesis using True down
      by (auto simp: upload_answer_def closes_def does_nothing closing_def intro!: exI [of _ "[]"])
  next
    case (Some st)
    let ?op = "\<lambda>q. put q \<lparr>pi_scope = ps_FilesystemID ps, pi_object_ref = createObjectRef canon,
        pi_filename = createFilenameFromParams canon, pi_mime = up_MediaType u,
        pi_size = of_int (up_DeclaredSizeBytes u), pi_policy_ref = [], pi_sha256 = []\<rparr>"
    obtain y f1 where y: "handle_op d (ps_FilesystemID ps) ?op st f = (y, f1)" by fastforce
    have "does d [HandleCalled (ps_FilesystemID ps)] f f1"
      using y by (auto simp: handle_op_def emit_effect_def does_def Let_def split: prod.splits)
    then show ?thesis using True Some y down
      by (cases y) (auto simp: upload_answer_def closes_def closing_def answered_def intro!: exI [of _ "[HandleCalled (ps_FilesystemID ps)]"])
  qed
qed

lemma truth_nonempty_simp [simp]: "auditTruthForEngineErr e \<noteq> []"
  by (rule truth_nonempty)

lemma feed_part_class:
  "feed_part declared i eof cs offered acquired f = (FeedAbort cls message, offered', acquired', f1) \<Longrightarrow> cls \<noteq> []"
  by (induction declared i eof cs offered acquired f rule: feed_part.induct) (auto split: if_splits option.splits prod.splits)

lemma closes_upload_body:
  assumes w: "IntentWrite \<in> set (ps_GrantedIntents ps)" and pm: "\<And>rd ow. permitted d h (CallWriteStream (enginePath (rq_Path req)) rd ow)"
    and b: "upload_body d x ps i rid early u req g p f = (r, n, f')"
  shows "closes d h ps rid f (r, f')"
proof -
  obtain fin offered acquired f1 where fd: "feed_part (up_DeclaredSizeBytes u) i (pt_eof p) (pt_reads p) [] 0 f = (fin, offered, acquired, f1)"
    by (metis prod_cases4)
  let ?c = "CallWriteStream (enginePath (rq_Path req)) (offered, if fin = FeedDone then None else Some abort_stream) (up_OverwriteExisting u)"
  obtain er f2 where e: "engine d (ps_FilesystemID ps) ?c f1 = (er, f2)" by fastforce
  note d1 = does_fst_nothing [OF feed_part_does [OF fd] engine_does [OF e]]
  let ?ans = "case (fin, er) of
       (FeedDone, Inr _) \<Rightarrow> upload_answer d x ps u (rq_Path req) f2
     | (FeedDone, Inl e) \<Rightarrow> deny_stream d x ps rid req g (auditTruthForEngineErr e) ''upload refused'' f2
     | (FeedAbort cls message, Inl e) \<Rightarrow>
         if early then deny_stream d x ps rid req g (auditTruthForEngineErr e) ''upload refused'' f2
         else deny_stream d x ps rid req g cls message f2
     | (FeedAbort cls message, Inr _) \<Rightarrow> deny_stream d x ps rid req g cls message f2"
  have "cls \<noteq> []" if "fin = FeedAbort cls message" for cls message using feed_part_class fd that by blast
  then have "closes d h ps rid f2 ?ans"
    by (cases fin; cases er) (simp_all add: closes_deny_stream closes_upload_answer)
  moreover have "?ans = (r, f')" using b fd e by (simp add: upload_body_def Let_def split: prod.splits)
  ultimately have "closes d h ps rid f2 (r, f')" by simp
  then show ?thesis using closes_after [OF d1] w pm by simp
qed

lemma closes_upload_allowed:
  assumes w: "IntentWrite \<in> set (ps_GrantedIntents ps)" and pm: "\<And>rd ow. permitted d h (CallWriteStream (enginePath (rq_Path req)) rd ow)"
  shows "closes d h ps rid f (upload_allowed d x ps i rid early u req g rest f)"
proof (cases "openUploadFilePart rest")
  case (Inl y)
  moreover from Inl have "fst y \<noteq> []" by (auto simp: openUploadFilePart_def split: list.splits if_splits)
  ultimately show ?thesis by (cases y) (simp add: upload_allowed_def closes_deny_stream)
next
  case (Inr p)
  obtain e f1 where a: "on_face_session i TryAcquireFD f = (e, f1)" by fastforce
  note d1 = session_does [OF a]
  show ?thesis
  proof (cases e)
    case (Some c)
    then show ?thesis using a Inr closes_before [OF d1 closes_deny_stream] by (simp add: upload_allowed_def)
  next
    case None
    obtain r n f2 where b: "upload_body d x ps i rid early u req g p f1 = (r, n, f2)" by (metis prod_cases3)
    obtain e3 f3 where r3: "on_face_session i ReleaseFD f2 = (e3, f3)" by fastforce
    obtain e4 f4 where r4: "on_face_session i (ReleaseBytes (of_int n)) f3 = (e4, f4)" by fastforce
    have "closes d h ps rid f (r, f4)"
      using closes_then [OF closes_then [OF closes_before [OF d1 closes_upload_body [OF w pm b]] session_does [OF r3]] session_does [OF r4]] .
    then show ?thesis using a Inr None b r3 r4 by (simp add: upload_allowed_def)
  qed
qed

lemma allows_stream: "allows ps rid (mapAuditEvent (streamAuditEvent ps req g n rid))"
  "allows ps rid (mapAuditEvent (streamDownloadAuditEvent ps req g rid))"
  by (simp_all add: allows_def is_deny_def mapAuditEvent_def streamAuditEvent_def streamDownloadAuditEvent_def
      DispositionAllow_def DispositionDeny_def)

lemma resolve_write: "resolve d ps req = Inr g \<Longrightarrow> rq_Intent req = IntentWrite \<Longrightarrow> IntentWrite \<in> set (ps_GrantedIntents ps)"
  using resolve_granted [of d ps req g] by (auto simp: intentGranted_iff intent_neq)

lemma readUploadParams_class: "readUploadParams d parts = Inl (cls, message) \<Longrightarrow> cls \<noteq> []"
  by (auto simp: readUploadParams_def Let_def split: list.splits if_splits option.splits)

lemma episode_upload: "episode d h ps rid f (handleFileUploadMultipart d x ps i rid h f)"
  unfolding handleFileUploadMultipart_def Let_def
  by (auto simp: episode_deny readUploadParams_class resolve_write permitted_write
      intro!: episode_now disjI2 granted_mandate closes_upload_allowed allows_stream
      split: option.splits sum.splits)

lemma closes_download_allowed: "closes d h ps rid f (download_allowed d ps i rid req g w f)"
proof -
  obtain e f1 where a: "on_face_session i TryAcquireFD f = (e, f1)" by fastforce
  note d1 = session_does [OF a]
  show ?thesis
  proof (cases e)
    case (Some c)
    then show ?thesis using a closes_before [OF d1 closes_deny_stream] by (simp add: download_allowed_def)
  next
    case None
    let ?c = "CallReadRange (enginePath (rq_Path req)) (of_int (fst w)) (of_int (snd w))"
    obtain er f2 where er: "engine d (ps_FilesystemID ps) ?c f1 = (er, f2)" by fastforce
    obtain e3 f3 where r3: "on_face_session i ReleaseFD f2 = (e3, f3)" by fastforce
    have "does d [EngineCalled (ps_FilesystemID ps) ?c] f f3"
      using does_then_nothing [OF does_fst_nothing [OF d1 engine_does [OF er]] session_does [OF r3]] .
    then show ?thesis using a None er r3
      by (auto simp: download_allowed_def closes_def closing_def answered_def intro!: exI [of _ "[EngineCalled (ps_FilesystemID ps) ?c]"])
  qed
qed

lemma episode_after_probe:
  assumes "does d pre f f1" "list_all (probe ps) pre" "refused d h ps rid f1 res \<or> granted d h ps rid f1 res"
  shows "episode d h ps rid f res"
  using assms unfolding episode_def by blast

lemma download_window_spec:
  assumes "download_window d ps path ms f = (x, f1)"
  shows "(\<exists>pre. does d pre f f1 \<and> list_all (probe ps) pre) \<and> (\<forall>cls message. x = Inl (cls, message) \<longrightarrow> cls \<noteq> [])"
proof (cases "range_members None (field_vals ''range'' ms)")
  case (Some rs)
  then show ?thesis using assms
    by (auto simp: download_window_def does_nothing split: if_splits intro!: exI [of _ "[]"])
next
  case None
  obtain er f2 where e: "engine d (ps_FilesystemID ps) (CallStat (enginePath path)) f = (er, f2)" by fastforce
  have "f1 = f2" using assms None e by (auto simp: download_window_def statSizeContained_def split: sum.splits)
  then have "\<exists>pre. does d pre f f1 \<and> list_all (probe ps) pre"
    using engine_does [OF e] by (intro exI [of _ "[EngineCalled (ps_FilesystemID ps) (CallStat (enginePath path))]"]) simp
  moreover have "x = Inl (cls, message) \<Longrightarrow> cls \<noteq> []" for cls message
    using assms None e by (auto simp: download_window_def statSizeContained_def split: sum.splits)
  ultimately show ?thesis by blast
qed

lemma episode_download_object: "episode d h ps rid f (download_object d ps i rid ms path f)"
proof (cases "canonicalizePath path []")
  case (Inl e)
  then show ?thesis by (simp add: download_object_def episode_deny)
next
  case (Inr canon)
  let ?req = "\<lparr>rq_Filesystem = ps_FilesystemID ps, rq_Path = canon, rq_Intent = IntentRead\<rparr>"
  show ?thesis
  proof (cases "resolve d ps ?req")
    case (Inl e)
    then show ?thesis using Inr by (simp add: download_object_def episode_deny)
  next
    case g: (Inr g)
    obtain x f1 where w: "download_window d ps canon ms f = (x, f1)" by (cases "download_window d ps canon ms f")
    then obtain pre where pre: "does d pre f f1" "list_all (probe ps) pre" using download_window_spec by blast
    have ne: "x = Inl (cls, message) \<Longrightarrow> cls \<noteq> []" for cls message using download_window_spec [OF w] by blast
    show ?thesis
    proof (cases x)
      case (Inl y)
      obtain cls message where y: "y = (cls, message)" by (cases y)
      have "refused d h ps rid f1 (deny_stream d OpFileDownload ps rid ?req g cls message f1)"
        by (rule refused_deny_stream [OF ne]) (simp add: Inl y)
      then show ?thesis using episode_after_probe [OF pre] Inr g w Inl y by (simp add: download_object_def)
    next
      case wn: (Inr win)
      show ?thesis
      proof (cases "checkDeclaredSize (snd win) (dp_maxFileSize d)")
        case False
        have "refused d h ps rid f1 (deny_stream d OpFileDownload ps rid ?req g dc_SizeExceeded
            ''requested window exceeds whole-object ceiling'' f1)" by (simp add: refused_deny_stream)
        then show ?thesis using episode_after_probe [OF pre] Inr g w wn False by (simp add: download_object_def)
      next
        case True
        have "granted d h ps rid f1 (case mandate d (mapAuditEvent (streamDownloadAuditEvent ps ?req g rid)) f1 of
            (Inl _, f2) \<Rightarrow> (refuse dc_AuditDown ''audit gate unavailable'', f2)
          | (Inr _, f2) \<Rightarrow> download_allowed d ps i rid ?req g win f2)"
          by (intro granted_mandate allows_stream closes_download_allowed)
        from episode_after_probe [OF pre disjI2 [OF this]] show ?thesis
          using Inr g w wn True by (simp add: download_object_def Let_def)
      qed
    qed
  qed
qed

lemma refused_foreign_uuid: "refused d h ps rid f (foreign_uuid d ps rid scope path f)"
proof -
  let ?ev = "mapAuditEvent ((denyAuditEvent OpFileDownload ps \<lparr>rq_Filesystem = scope, rq_Path = path, rq_Intent = IntentRead\<rparr>
      zero_grant [] dc_ScopeMismatch)\<lparr>ae_RequestID := rid\<rparr>)"
  obtain y f1 where m: "mandate d ?ev f = (y, f1)" by fastforce
  have "act_ok d h ps rid (Audited ?ev (ok y))"
    by (simp add: mapAuditEvent_def denyAuditEvent_def auditEvent_of_def is_deny_def)
  then show ?thesis using m mandate_does [OF m] status_refuse_down MapDeny_status_ge [of dc_NotFound]
    by (cases y) (auto simp: refused_def foreign_uuid_def status_deny MapDenyDegraded_def intro!: exI [of _ ?ev])
qed

lemma episode_download: "episode d h ps rid f (handleDownloadOctetStream d ps i rid h f)"
  unfolding handleDownloadOctetStream_def Let_def
  by (auto simp: episode_deny episode_now refused_foreign_uuid episode_download_object split: option.splits sum.splits)

text \<open>The caller a request is bound to by its credential or its connection.\<close>

definition caller :: "('s, 'g) dispatcher \<Rightarrow> http_request \<Rightarrow> PeerScope option" where
  "caller d h =
     (case dp_extractor d of
        Some bind \<Rightarrow> Option.bind (bearerFromRequest (hr_authorization h)) (Extract bind)
      | None \<Rightarrow> hr_ctxScope h)"

lemma stream_scope_caller: "stream_scope d h = Inr ps \<Longrightarrow> caller d h = Some ps"
  by (auto simp: stream_scope_def caller_def peerScopeFromCredential_def split: option.splits sum.splits)

lemma stream_scope_Inl: "stream_scope d h = Inl r \<Longrightarrow> 400 \<le> rs_status r"
  by (auto simp: stream_scope_def peerScopeFromCredential_def status_deny MapDeny_status_ge
      split: option.splits sum.splits)

lemma request_scope_caller:
  "request_scope d h = Inr ps \<Longrightarrow> \<exists>p. caller d h = Some p \<and> ps_FilesystemID p = ps_FilesystemID ps \<and>
     set (ps_GrantedIntents ps) \<subseteq> set (ps_GrantedIntents p) \<and>
     (dp_extractor d \<noteq> None \<longrightarrow> (\<forall>bound. dp_grantedIntentsCeiling d = Some bound \<longrightarrow> set (ps_GrantedIntents ps) \<subseteq> set bound))"
  by (auto simp: request_scope_def caller_def peerScopeFromCredential_def intersectIntents_def split: option.splits sum.splits)

lemma act_ok_mono:
  "ps_FilesystemID p = ps_FilesystemID ps \<Longrightarrow> set (ps_GrantedIntents ps) \<subseteq> set (ps_GrantedIntents p) \<Longrightarrow>
   act_ok d h ps rid e \<Longrightarrow> act_ok d h p rid e"
  by (cases e) auto

lemma effect_ok_act: "spine_ctx d h hc \<Longrightarrow> effect_ok hc e \<Longrightarrow> act_ok d h (hc_ps hc) (hc_reqID hc) e"
  by (cases e) (auto dest: spine_permitted)

lemma allows_allow_event: "allows (hc_ps hc) (hc_reqID hc) (allow_event hc)"
  by (simp add: allows_def allow_event_def is_deny_def mapAuditEvent_def auditEvent_of_def DispositionAllow_def DispositionDeny_def)

lemma does_Audited_Cons:
  assumes "does d (Audited ev b # tr) f f'"
  shows "\<exists>f1. does d [Audited ev b] f f1 \<and> does d tr f1 f'"
  using assms
  by (intro exI [of _ "f\<lparr>fc_trace := fc_trace f @ [Audited ev b], fc_guard := snd (dp_mandate d ev (fc_guard f))\<rparr>"])
    (auto simp: does_def)

lemma ran_granted:
  assumes "spine_ctx d h hc" "ran d hc f res"
  shows "granted d h (hc_ps hc) (hc_reqID hc) f res"
proof -
  consider (down) "does d [Audited (allow_event hc) False] f (snd res)" "400 \<le> rs_status (fst res)"
    | (run) tr where "does d (Audited (allow_event hc) True # tr) f (snd res)" "list_all (effect_ok hc) tr"
        "answered (fst res) tr \<or> rs_status (fst res) = 501 \<and> tr = []"
    using assms(2) by (auto simp: ran_def)
  then show ?thesis
  proof cases
    case down
    then show ?thesis using allows_allow_event unfolding granted_def by blast
  next
    case run
    obtain f1 where f1: "does d [Audited (allow_event hc) True] f f1" "does d tr f1 (snd res)"
      using does_Audited_Cons [OF run(1)] by blast
    have "list_all (act_ok d h (hc_ps hc) (hc_reqID hc)) tr" using run(2) effect_ok_act [OF assms(1)] by (metis list_all_iff)
    then have "closes d h (hc_ps hc) (hc_reqID hc) f1 res \<or> rs_status (fst res) = 501 \<and> does d [] f1 (snd res)"
      using run(3) f1(2) unfolding closes_def closing_def by blast
    then show ?thesis using f1(1) allows_allow_event unfolding granted_def by blast
  qed
qed

text \<open>Every route: the request is refused untouched or runs its course for its caller.\<close>

lemma episode_with_id: "episode d h ps rid f (r, f') \<Longrightarrow> episode d h ps rid f (with_request_id rid' r, f')"
  by (auto simp: episode_def refused_def granted_def closes_def closing_def answered_def)

definition course :: "('s, 'g) dispatcher \<Rightarrow> http_request \<Rightarrow> ('s, 'g) face \<Rightarrow> response \<times> ('s, 'g) face \<Rightarrow> bool" where
  "course d h f res \<longleftrightarrow>
     does d [] f (snd res) \<and> 400 \<le> rs_status (fst res) \<or>
     (\<exists>p ps. caller d h = Some p \<and> ps_FilesystemID ps = ps_FilesystemID p \<and>
        set (ps_GrantedIntents ps) \<subseteq> set (ps_GrantedIntents p) \<and> episode d h ps (newCorrelationID (hr_rand h)) f res)"

lemma episode_before: "does d [] f f1 \<Longrightarrow> episode d h ps rid f1 res \<Longrightarrow> episode d h ps rid f res"
  unfolding episode_def using does_fst_nothing by blast

lemma course_stream:
  assumes "\<And>rid ps i f. episode d h ps rid f (k rid ps i f)"
  shows "course d h f (let rid = newCorrelationID (hr_rand h);
      (r, f1) = (case stream_scope d h of Inl r \<Rightarrow> (r, f) | Inr ps \<Rightarrow>
        (case consume_op h (ps_FilesystemID ps) f of (Inl r, f1) \<Rightarrow> (r, f1) | (Inr i, f1) \<Rightarrow> k rid ps i f1))
      in (with_request_id rid r, f1))"
proof (cases "stream_scope d h")
  case (Inl r)
  then show ?thesis using stream_scope_Inl [OF Inl] by (simp add: course_def does_nothing)
next
  case (Inr ps)
  obtain x f1 where c: "consume_op h (ps_FilesystemID ps) f = (x, f1)" by fastforce
  note C = consume_op_spec [OF c, of d]
  show ?thesis
  proof (cases x)
    case Inl
    then show ?thesis using Inr c C by (simp add: course_def)
  next
    case i: (Inr i)
    let ?rid = "newCorrelationID (hr_rand h)"
    obtain r f2 where k: "k ?rid ps i f1 = (r, f2)" by fastforce
    have "episode d h ps ?rid f (r, f2)" using episode_before [OF conjunct1 [OF C] assms [of ps ?rid f1 i]] k by simp
    from episode_with_id [OF this, of ?rid] show ?thesis using stream_scope_caller [OF Inr] Inr c i k by (auto simp: course_def)
  qed
qed

lemma course_unary: "course d h f (ServeHTTP d h f)"
proof -
  obtain r f1 where r: "serve_unary d (newCorrelationID (hr_rand h)) h f = (r, f1)" by fastforce
  have eq: "ServeHTTP d h f = (with_request_id (newCorrelationID (hr_rand h)) r, f1)" using r by (simp add: ServeHTTP_def Let_def)
  from serve_unary_spec [OF r] show ?thesis
  proof
    assume "does d [] f f1 \<and> 400 \<le> rs_status r"
    then show ?thesis by (simp add: eq course_def)
  next
    assume "\<exists>hc. spine_ctx d h hc \<and> ran d hc f (r, f1)"
    then obtain hc where hc: "spine_ctx d h hc" "ran d hc f (r, f1)" by blast
    then have "episode d h (hc_ps hc) (newCorrelationID (hr_rand h)) f (r, f1)"
      using episode_now [OF disjI2, OF ran_granted [OF hc]] by (simp add: spine_ctx_def)
    moreover obtain p where "caller d h = Some p" "ps_FilesystemID p = hc_scope hc"
      "set (ps_GrantedIntents (hc_ps hc)) \<subseteq> set (ps_GrantedIntents p)"
      using request_scope_caller [of d h "hc_ps hc"] hc(1) by (auto simp: spine_ctx_def)
    ultimately show ?thesis using episode_with_id unfolding eq course_def by metis
  qed
qed

lemma course_router: "course d h f (restRouter d h f)"
proof -
  have "course d h f (serveUploadMultipart d x h f)" for x
    unfolding serveUploadMultipart_def by (rule course_stream, rule episode_upload)
  moreover have "course d h f (serveDownloadOctetStream d h f)"
    unfolding serveDownloadOctetStream_def by (rule course_stream, rule episode_download)
  moreover have "course d h f (refuse dc_NotFound m, f)" "course d h f (method_not_allowed, f)" for m
    by (simp_all add: course_def does_nothing)
  ultimately show ?thesis using course_unary unfolding restRouter_def by (auto split: option.splits)
qed

end
