(* ===== verification/FilesApi.thy ===== *)
theory FilesApi
  imports SouthStream
begin

text \<open>
  The north face of the broker, the Files API (\<open>src/internal/filesapi\<close>): the attested scope of a
  request (\<open>scopesource.go\<close>), routing (\<open>route.go\<close>), the wire objects (\<open>fileobject.go\<close>), the audit
  events (\<open>audit_event.go\<close>) and the handlers of metadata, content, delete, list, archive and
  create. It runs over the same engine, audit gate, ceilings and handle store as the south face,
  so the handlers work on the same state and leave the same trace of effects.
\<close>

section \<open>Requests and seams\<close>

text \<open>
  \<open>fr_scopeHeader\<close> is the value of the scope header, \<open>fr_query\<close> the query parameters in their
  order, \<open>fr_parts\<close> what the multipart reader delivers (\<open>None\<close>: the body is not multipart).
  \<open>fr_now n\<close> is the n-th reading of the clock, and \<open>fr_early\<close> says that the engine refused a stream before the feed of it was aborted.
\<close>

record files_request =
  fr_method :: string
  fr_path :: string
  fr_scopeHeader :: string
  fr_query :: "(string \<times> string) list"
  fr_parts :: "part list option"
  fr_now :: "nat \<Rightarrow> int"
  fr_rand :: string
  fr_early :: bool

text \<open>
  The seams of a handler. Resolver, guard, engine, store and the two ceilings are those of the
  dispatcher record; \<open>fa_Scope\<close> is the scope source, \<open>fa_mime\<close> the MIME table of the host
  and \<open>fa_zip\<close> the encoding of the entries of a ZIP archive.
\<close>

record ('s, 'g) Deps =
  fa_d :: "('s, 'g) dispatcher"
  fa_Scope :: "files_request \<Rightarrow> PeerScope option"
  fa_CreateSubtree :: string
  fa_mime :: "string \<Rightarrow> string"
  fa_zip :: "(string \<times> string) list \<Rightarrow> string"

definition query_get :: "string \<Rightarrow> files_request \<Rightarrow> string" where
  "query_get k r = (case map_of (fr_query r) k of None \<Rightarrow> [] | Some v \<Rightarrow> v)"

definition query_all :: "string \<Rightarrow> files_request \<Rightarrow> string list" where
  "query_all k r = map snd (filter (\<lambda>(n, v). n = k) (fr_query r))"

text \<open>The handler is built with a store, so every state has one.\<close>

definition files_store :: "('s, 'g) face \<Rightarrow> disk_store" where
  "files_store f = (case fc_handles f of Some st \<Rightarrow> st | None \<Rightarrow> fresh_store empty_mem [])"

definition store_op :: "('s, 'g) Deps \<Rightarrow> string \<Rightarrow> (req_env \<Rightarrow> disk_store \<Rightarrow> 'r \<times> disk_store) \<Rightarrow>
    ('s, 'g) face \<Rightarrow> 'r \<times> ('s, 'g) face" where
  "store_op h scope g f = handle_op (fa_d h) scope g (files_store f) f"

definition store_get :: "('s, 'g) Deps \<Rightarrow> string \<Rightarrow> string \<Rightarrow> ('s, 'g) face \<Rightarrow>
    (hs_err, handle_record) res \<times> ('s, 'g) face" where
  "store_get h fid scope f = store_op h scope (\<lambda>_ st. (get_handle fid scope st, st)) f"

section \<open>Attested scope\<close>

definition fencedScopeHeader :: string where "fencedScopeHeader = ''X-OCU-Filesystem-Id''"

definition fencedGrantedIntents :: "Intent list" where "fencedGrantedIntents = [IntentRead]"

definition validateScopeShape :: "string \<Rightarrow> bool" where
  "validateScopeShape fsid =
     (if fsid = [] \<or> fsid = dot \<or> fsid = dotdot then False
      else if CHR ''/'' \<in> set fsid \<or> CHR 0x5C \<in> set fsid \<or> CHR 0x00 \<in> set fsid then False
      else path_clean fsid = fsid)"

definition headerScope :: "files_request \<Rightarrow> PeerScope option" where
  "headerScope r =
     (if fr_scopeHeader r = [] then None
      else if \<not> validateScopeShape (fr_scopeHeader r) then None
      else Some \<lparr>ps_FilesystemID = fr_scopeHeader r, ps_GrantedIntents = fencedGrantedIntents, ps_UID = 0, ps_PID = 0\<rparr>)"

text \<open>\<open>NewHandler\<close>: which seams are present, and the whole-object ceiling.\<close>

datatype deps_err = ErrSeamMissing string | ErrMaxFileSizeUnset

definition NewHandler :: "(string \<times> bool) list \<Rightarrow> int \<Rightarrow> (deps_err, unit) res" where
  "NewHandler seams maxFileSize =
     (case filter (\<lambda>n. map_of seams n \<noteq> Some True) [''Resolver'', ''Guard'', ''Engine'', ''Ceilings'', ''Store'', ''Scope''] of
        n # _ \<Rightarrow> Inl (ErrSeamMissing n)
      | [] \<Rightarrow> if maxFileSize \<le> 0 then Inl ErrMaxFileSizeUnset else Inr ())"

section \<open>Wire objects\<close>

definition path_ext :: "string \<Rightarrow> string" where
  "path_ext s =
     (let leaf = rev (takeWhile (\<lambda>c. c \<noteq> CHR ''/'') (rev s))
      in if CHR ''.'' \<in> set leaf then ''.'' @ rev (takeWhile (\<lambda>c. c \<noteq> CHR ''.'') (rev leaf)) else [])"

definition resolveMime :: "(string \<Rightarrow> string) \<Rightarrow> string \<Rightarrow> string \<Rightarrow> string" where
  "resolveMime mime stored filename =
     (if stored \<noteq> [] then stored
      else if path_ext filename = [] then []
      else
        (let t = mime (path_ext filename) in
         if t = [] then []
         else if CHR '';'' \<in> set t then trim_space (takeWhile (\<lambda>c. c \<noteq> CHR '';'') t)
         else t))"

definition fileObjectType :: string where "fileObjectType = ''file''"

definition newFileObject :: "('s, 'g) Deps \<Rightarrow> handle_record \<Rightarrow> json" where
  "newFileObject h r =
     JObj ([(''id'', JStr (hr_file_id r)), (''type'', JStr fileObjectType), (''filename'', JStr (hr_filename r)),
            (''mime_type'', JStr (resolveMime (fa_mime h) (hr_mime r) (hr_filename r))),
            (''size_bytes'', json_int (sint (hr_size r))), (''created_at'', JStr (hr_created_at r))] @
           omitempty ''sha256'' (hr_sha256 r))"

definition newListResponse :: "('s, 'g) Deps \<Rightarrow> list_page \<Rightarrow> json" where
  "newListResponse h pg =
     JObj ([(''data'', JArr (map (newFileObject h) (lp_records pg))), (''has_more'', JBool (lp_has_more pg))] @
           omitempty ''first_id'' (lp_first_id pg) @ omitempty ''last_id'' (lp_last_id pg) @
           omitempty ''next_cursor'' (lp_next_cursor pg))"

definition files_writeJSON :: "nat \<Rightarrow> json \<Rightarrow> response" where
  "files_writeJSON status v =
     \<lparr>rs_status = status, rs_header = [(''Content-Type'', ''application/json'')], rs_body = print_value v\<rparr>"

section \<open>Audit events\<close>

definition files_event :: "int \<Rightarrow> PeerScope \<Rightarrow> string \<Rightarrow> i64 \<Rightarrow> Intent \<Rightarrow> bool \<Rightarrow> string option \<Rightarrow> string \<Rightarrow> FileActivityEvent" where
  "files_event activity ps obj bytes intent downloadable deny reqID =
     \<lparr>ClassUID = 1001, CategoryUID = 1, ActivityID = activity, ev_Time = 0,
      ev_Metadata = \<lparr>md_Version = [], md_ProductName = []\<rparr>,
      Actor = \<lparr>UserUID = dec_nat (unat (ps_UID ps)), SessionUID = ps_FilesystemID ps, ProcessPID = ps_PID ps\<rparr>,
      ev_FilesystemID = ps_FilesystemID ps, ObjectHandle = obj, ByteCount = bytes,
      ev_Intent = intent, ev_Downloadable = downloadable,
      ev_Outcome = (case deny of Some reason \<Rightarrow> \<lparr>DispositionID = DispositionDeny, XDenyReason = reason\<rparr>
                     | None \<Rightarrow> \<lparr>DispositionID = DispositionAllow, XDenyReason = []\<rparr>),
      PrevHash = [], CorrelationUID = reqID, commitSeq = 0\<rparr>"

definition readAllowEvent :: "PeerScope \<Rightarrow> handle_record \<Rightarrow> Grant \<Rightarrow> string \<Rightarrow> FileActivityEvent" where
  "readAllowEvent ps rec grant reqID =
     files_event ActivityRead ps (audit_object_handle rec) 0 IntentRead (gr_Downloadable grant) None reqID"

definition readDenyEvent :: "PeerScope \<Rightarrow> handle_record \<Rightarrow> Grant \<Rightarrow> string \<Rightarrow> string \<Rightarrow> FileActivityEvent" where
  "readDenyEvent ps rec grant reason reqID =
     files_event ActivityRead ps (audit_object_handle rec) 0 IntentRead (gr_Downloadable grant) (Some reason) reqID"

definition listScopeRootPath :: string where "listScopeRootPath = ''.''"

definition listAllowEvent :: "PeerScope \<Rightarrow> Grant \<Rightarrow> string \<Rightarrow> FileActivityEvent" where
  "listAllowEvent ps grant reqID =
     files_event ActivityRead ps listScopeRootPath 0 IntentRead (gr_Downloadable grant) None reqID"

definition listDenyEvent :: "PeerScope \<Rightarrow> Grant \<Rightarrow> string \<Rightarrow> string \<Rightarrow> FileActivityEvent" where
  "listDenyEvent ps grant reason reqID =
     files_event ActivityRead ps listScopeRootPath 0 IntentRead (gr_Downloadable grant) (Some reason) reqID"

definition createAllowEvent :: "PeerScope \<Rightarrow> string \<Rightarrow> Grant \<Rightarrow> int \<Rightarrow> string \<Rightarrow> FileActivityEvent" where
  "createAllowEvent ps engineRef grant declared reqID =
     files_event ActivityCreate ps engineRef (of_int declared) IntentWrite (gr_Downloadable grant) None reqID"

definition createDenyEvent :: "PeerScope \<Rightarrow> string \<Rightarrow> Grant \<Rightarrow> string \<Rightarrow> string \<Rightarrow> FileActivityEvent" where
  "createDenyEvent ps engineRef grant reason reqID =
     files_event ActivityCreate ps engineRef 0 IntentWrite (gr_Downloadable grant) (Some reason) reqID"

definition deleteAllowEvent :: "PeerScope \<Rightarrow> handle_record \<Rightarrow> string \<Rightarrow> FileActivityEvent" where
  "deleteAllowEvent ps rec reqID =
     files_event ActivityDelete ps (audit_object_handle rec) 0 IntentWrite False None reqID"

definition deleteDenyEvent :: "PeerScope \<Rightarrow> handle_record \<Rightarrow> string \<Rightarrow> string \<Rightarrow> FileActivityEvent" where
  "deleteDenyEvent ps rec reason reqID =
     files_event ActivityDelete ps (audit_object_handle rec) 0 IntentWrite False (Some reason) reqID"

text \<open>A refusal whose record is offered to the gate first; a gate that fails answers for itself.\<close>

definition audited_deny :: "('s, 'g) Deps \<Rightarrow> FileActivityEvent \<Rightarrow> deny_class \<Rightarrow> string \<Rightarrow> ('s, 'g) face \<Rightarrow>
    response \<times> ('s, 'g) face" where
  "audited_deny h ev cls message f =
     (case mandate (fa_d h) ev f of
        (Inl _, f1) \<Rightarrow> (refuse dc_AuditDown ''audit gate unavailable'', f1)
      | (Inr _, f1) \<Rightarrow> (refuse cls message, f1))"

definition denyRead :: "('s, 'g) Deps \<Rightarrow> PeerScope \<Rightarrow> handle_record \<Rightarrow> Grant \<Rightarrow> string \<Rightarrow> deny_class \<Rightarrow> string \<Rightarrow> ('s, 'g) face \<Rightarrow>
    response \<times> ('s, 'g) face" where
  "denyRead h ps rec grant reqID cls message f = audited_deny h (readDenyEvent ps rec grant cls reqID) cls message f"

definition denyList :: "('s, 'g) Deps \<Rightarrow> PeerScope \<Rightarrow> Grant \<Rightarrow> string \<Rightarrow> deny_class \<Rightarrow> string \<Rightarrow> ('s, 'g) face \<Rightarrow>
    response \<times> ('s, 'g) face" where
  "denyList h ps grant reqID cls message f = audited_deny h (listDenyEvent ps grant cls reqID) cls message f"

definition denyDelete :: "('s, 'g) Deps \<Rightarrow> PeerScope \<Rightarrow> handle_record \<Rightarrow> string \<Rightarrow> deny_class \<Rightarrow> string \<Rightarrow> ('s, 'g) face \<Rightarrow>
    response \<times> ('s, 'g) face" where
  "denyDelete h ps rec reqID cls message f = audited_deny h (deleteDenyEvent ps rec cls reqID) cls message f"

definition denyCreate :: "('s, 'g) Deps \<Rightarrow> PeerScope \<Rightarrow> string \<Rightarrow> Grant \<Rightarrow> string \<Rightarrow> deny_class \<Rightarrow> string \<Rightarrow> ('s, 'g) face \<Rightarrow>
    response \<times> ('s, 'g) face" where
  "denyCreate h ps engineRef grant reqID cls message f =
     audited_deny h (createDenyEvent ps engineRef grant cls reqID) cls message f"

section \<open>Common steps of the handlers\<close>

text \<open>The session of the scope pays for one operation.\<close>

definition session_op :: "files_request \<Rightarrow> nat \<Rightarrow> nat \<Rightarrow> ('s, 'g) face \<Rightarrow> bool \<times> ('s, 'g) face" where
  "session_op r n i f = (let (e, f1) = on_face_session i (TryConsumeOp (fr_now r n)) f in (e = None, f1))"

definition files_session :: "string \<Rightarrow> ('s, 'g) face \<Rightarrow> nat \<times> ('s, 'g) face" where
  "files_session scope f = (let (i, reg) = reg_Session scope (fc_reg f) in (i, f\<lparr>fc_reg := reg\<rparr>))"

definition rate_refusal :: response where
  "rate_refusal = refuse dc_Throttle ''operation rate ceiling exceeded''"

definition files_resolve :: "('s, 'g) Deps \<Rightarrow> PeerScope \<Rightarrow> Intent list \<Rightarrow> string \<Rightarrow> Intent \<Rightarrow> (south_err, Grant) res" where
  "files_resolve h ps intents path intent =
     (case Resolve (dp_tag (fa_d h)) (Evidence \<lparr>ev_Scope = ps_FilesystemID ps, ev_GrantedIntents = intents\<rparr>)
             \<lparr>rq_Filesystem = ps_FilesystemID ps, rq_Path = path, rq_Intent = intent\<rparr> of
        Inl e \<Rightarrow> Inl (mapResolverErr e)
      | Inr g \<Rightarrow> Inr g)"

definition writeNotFound :: response where
  "writeNotFound = refuse dc_NotFound ''not found''"

definition writeResolutionDeny :: "hs_err \<Rightarrow> string \<Rightarrow> response" where
  "writeResolutionDeny e reqID =
     (case e of
        ErrNotFound \<Rightarrow> WriteRESTDeny ((MapDeny dc_NotFound)\<lparr>CorrelationID := reqID\<rparr>) ''not found''
      | ErrStoreUnavailable \<Rightarrow> refuse dc_BackendUnavailable ''handle store unavailable''
      | _ \<Rightarrow> refuse dc_Internal ''internal error'')"

definition files_enginePath :: "string \<Rightarrow> string option" where
  "files_enginePath objectRef =
     (let p = trim_prefix (trim_space objectRef) ''/'' in
      if p = [] then None
      else if list_ex (\<lambda>seg. seg = dotdot) (split_on CHR ''/'' p) then None
      else Some p)"

section \<open>Metadata and delete\<close>

definition serveMetadata :: "('s, 'g) Deps \<Rightarrow> PeerScope \<Rightarrow> string \<Rightarrow> string \<Rightarrow> files_request \<Rightarrow> ('s, 'g) face \<Rightarrow>
    response \<times> ('s, 'g) face" where
  "serveMetadata h ps fileID reqID r f =
     (let (i, f1) = files_session (ps_FilesystemID ps) f; (admitted, f2) = session_op r 0 i f1 in
      if \<not> admitted then (rate_refusal, f2)
      else
        (case store_get h fileID (ps_FilesystemID ps) f2 of
           (Inl e, f3) \<Rightarrow> (writeResolutionDeny e reqID, f3)
         | (Inr rec, f3) \<Rightarrow>
             (case files_enginePath (hr_object_ref rec) of
                None \<Rightarrow> (writeNotFound, f3)
              | Some engPath \<Rightarrow>
                  (case files_resolve h ps (ps_GrantedIntents ps) engPath IntentRead of
                     Inl e \<Rightarrow> denyRead h ps rec zero_grant reqID (north_denyClassForResolveErr e) ''authorization denied'' f3
                   | Inr grant \<Rightarrow>
                       (case mandate (fa_d h) (readAllowEvent ps rec grant reqID) f3 of
                          (Inl _, f4) \<Rightarrow> (refuse dc_AuditDown ''audit gate unavailable'', f4)
                        | (Inr _, f4) \<Rightarrow> (files_writeJSON 200 (newFileObject h rec), f4))))))"

definition writeEvidenceIntents :: "PeerScope \<Rightarrow> Intent list" where
  "writeEvidenceIntents ps =
     (if IntentWrite \<in> set (ps_GrantedIntents ps) then ps_GrantedIntents ps else ps_GrantedIntents ps @ [IntentWrite])"

definition denyDeleteAfterAudit :: "('s, 'g) Deps \<Rightarrow> PeerScope \<Rightarrow> handle_record \<Rightarrow> hs_err \<Rightarrow> string \<Rightarrow> ('s, 'g) face \<Rightarrow>
    response \<times> ('s, 'g) face" where
  "denyDeleteAfterAudit h ps rec e reqID f =
     (if e = ErrNotFound then (writeResolutionDeny e reqID, f)
      else
        (let (_, f1) = mandate (fa_d h) (deleteDenyEvent ps rec dc_BackendUnavailable reqID) f
         in (refuse dc_BackendUnavailable ''handle store unavailable'', f1)))"

definition serveDelete :: "('s, 'g) Deps \<Rightarrow> PeerScope \<Rightarrow> string \<Rightarrow> string \<Rightarrow> files_request \<Rightarrow> ('s, 'g) face \<Rightarrow>
    response \<times> ('s, 'g) face" where
  "serveDelete h ps fileID reqID r f =
     (let (i, f1) = files_session (ps_FilesystemID ps) f; (admitted, f2) = session_op r 0 i f1 in
      if \<not> admitted then (rate_refusal, f2)
      else
        (case store_get h fileID (ps_FilesystemID ps) f2 of
           (Inl e, f3) \<Rightarrow> (writeResolutionDeny e reqID, f3)
         | (Inr rec, f3) \<Rightarrow>
             (case files_resolve h ps (writeEvidenceIntents ps) (hr_object_ref rec) IntentWrite of
                Inl e \<Rightarrow> denyDelete h ps rec reqID (north_denyClassForResolveErr e) ''authorization denied'' f3
              | Inr _ \<Rightarrow>
                  (case mandate (fa_d h) (deleteAllowEvent ps rec reqID) f3 of
                     (Inl _, f4) \<Rightarrow> (refuse dc_AuditDown ''audit gate unavailable'', f4)
                   | (Inr _, f4) \<Rightarrow>
                       (case store_op h (ps_FilesystemID ps) (\<lambda>q. delete_handle q fileID (ps_FilesystemID ps)) f4 of
                          (Inl e, f5) \<Rightarrow> denyDeleteAfterAudit h ps rec e reqID f5
                        | (Inr _, f5) \<Rightarrow> (\<lparr>rs_status = 204, rs_header = [], rs_body = []\<rparr>, f5))))))"

section \<open>Content\<close>

definition contentOffsetParam :: string where "contentOffsetParam = ''offset''"
definition contentLengthParam :: string where "contentLengthParam = ''length''"

definition hasLength :: "files_request \<Rightarrow> bool" where
  "hasLength r = (contentLengthParam \<in> set (map fst (fr_query r)))"

definition parseNonNegInt64 :: "string \<Rightarrow> int option" where
  "parseNonNegInt64 raw =
     (if trim_space raw = [] then Some 0
      else (case parse_int64 raw of None \<Rightarrow> None | Some n \<Rightarrow> if n < 0 then None else Some n))"

definition parseContentRange :: "files_request \<Rightarrow> (int \<times> int) option" where
  "parseContentRange r =
     (case parseNonNegInt64 (query_get contentOffsetParam r) of
        None \<Rightarrow> None
      | Some off \<Rightarrow>
          (case parseNonNegInt64 (query_get contentLengthParam r) of
             None \<Rightarrow> None
           | Some len \<Rightarrow> Some (off, len)))"

text \<open>Without a length the window ends at the size the engine reports.\<close>

definition content_window :: "('s, 'g) Deps \<Rightarrow> PeerScope \<Rightarrow> string \<Rightarrow> files_request \<Rightarrow> ('s, 'g) face \<Rightarrow>
    (deny_class \<times> string, int \<times> int) res \<times> ('s, 'g) face" where
  "content_window h ps engPath r f =
     (case parseContentRange r of
        None \<Rightarrow> (Inl (dc_Malformed, ''negative range offset or length''), f)
      | Some (offset, len) \<Rightarrow>
          if hasLength r then (Inr (offset, len), f)
          else
            (case engine (fa_d h) (ps_FilesystemID ps) (CallStat engPath) f of
               (Inl _, f1) \<Rightarrow> (Inl (dc_NotFound, ''not found''), f1)
             | (Inr info, f1) \<Rightarrow> (Inr (offset, max 0 (int (fi_size (info_of info)) - offset)), f1)))"

definition read_bytes :: "(south_err, engine_reply) res \<Rightarrow> string" where
  "read_bytes er = (case er of Inr (ReplyRead bytes _) \<Rightarrow> bytes | _ \<Rightarrow> [])"

definition read_failed :: "(south_err, engine_reply) res \<Rightarrow> bool" where
  "read_failed er = (case er of Inr (ReplyRead _ None) \<Rightarrow> False | _ \<Rightarrow> True)"

definition content_stream :: "('s, 'g) Deps \<Rightarrow> PeerScope \<Rightarrow> nat \<Rightarrow> string \<Rightarrow> int \<times> int \<Rightarrow> ('s, 'g) face \<Rightarrow>
    response \<times> ('s, 'g) face" where
  "content_stream h ps i engPath w f =
     (case on_face_session i TryAcquireFD f of
        (Some _, f1) \<Rightarrow> (refuse dc_Throttle ''file-descriptor ceiling exceeded'', f1)
      | (None, f1) \<Rightarrow>
          (let (er, f2) = engine (fa_d h) (ps_FilesystemID ps) (CallReadRange engPath (of_int (fst w)) (of_int (snd w))) f1;
               (_, f3) = on_face_session i ReleaseFD f2
           in (\<lparr>rs_status = 200, rs_header = [(''Content-Type'', contentTypeOctetStream)], rs_body = read_bytes er\<rparr>, f3)))"

definition serveContent :: "('s, 'g) Deps \<Rightarrow> PeerScope \<Rightarrow> string \<Rightarrow> string \<Rightarrow> files_request \<Rightarrow> ('s, 'g) face \<Rightarrow>
    response \<times> ('s, 'g) face" where
  "serveContent h ps fileID reqID r f =
     (let (i, f1) = files_session (ps_FilesystemID ps) f; (admitted, f2) = session_op r 0 i f1 in
      if \<not> admitted then (rate_refusal, f2)
      else
        (case store_get h fileID (ps_FilesystemID ps) f2 of
           (Inl e, f3) \<Rightarrow> (writeResolutionDeny e reqID, f3)
         | (Inr rec, f3) \<Rightarrow>
             (case files_enginePath (hr_object_ref rec) of
                None \<Rightarrow> (writeNotFound, f3)
              | Some engPath \<Rightarrow>
                  (case files_resolve h ps (ps_GrantedIntents ps) engPath IntentRead of
                     Inl e \<Rightarrow> denyRead h ps rec zero_grant reqID dc_IntentDenied ''authorization denied'' f3
                   | Inr grant \<Rightarrow>
                       if \<not> gr_Downloadable grant then
                         denyRead h ps rec grant reqID dc_NotDownloadable ''object not downloadable'' f3
                       else
                         (case content_window h ps engPath r f3 of
                            (Inl (cls, message), f4) \<Rightarrow> denyRead h ps rec grant reqID cls message f4
                          | (Inr w, f4) \<Rightarrow>
                              if dp_maxFileSize (fa_d h) < snd w then
                                denyRead h ps rec grant reqID dc_SizeExceeded ''requested window exceeds whole-object ceiling'' f4
                              else
                                (case mandate (fa_d h) (readAllowEvent ps rec grant reqID) f4 of
                                   (Inl _, f5) \<Rightarrow> (refuse dc_AuditDown ''audit gate unavailable'', f5)
                                 | (Inr _, f5) \<Rightarrow> content_stream h ps i engPath w f5))))))"

section \<open>Listing\<close>

definition reconcileMaxWalkDepth :: nat where "reconcileMaxWalkDepth = 256"

definition listLimitParam :: string where "listLimitParam = ''limit''"
definition listAfterParam :: string where "listAfterParam = ''after''"
definition listOrderParam :: string where "listOrderParam = ''order''"

definition parseLimit :: "string \<Rightarrow> int option" where
  "parseLimit raw =
     (if raw = [] then Some 0
      else (case parse_int64 raw of None \<Rightarrow> None | Some n \<Rightarrow> if n < 0 then None else Some n))"

definition ensure_entry :: "('s, 'g) Deps \<Rightarrow> string \<Rightarrow> string \<Rightarrow> FileInfo \<Rightarrow> ('s, 'g) face \<Rightarrow> ('s, 'g) face" where
  "ensure_entry h scope rel e f =
     snd (store_op h scope (\<lambda>q. ensure_object q
       \<lparr>ei_scope = scope, ei_object_ref = rel, ei_filename = path_base rel, ei_mime = [],
        ei_size = of_nat (fi_size e), ei_policy_ref = []\<rparr>) f)"

text \<open>The walk of the reconcile over its stack of frames, the top frame first.\<close>

function reconcile_loop :: "('s, 'g) Deps \<Rightarrow> string \<Rightarrow> frame list \<Rightarrow> ('s, 'g) face \<Rightarrow> ('s, 'g) face" where
  "reconcile_loop h scope [] f = f"
| "reconcile_loop h scope ((rel, es) # st) f =
     (case ctx_err f of
        (True, f1) \<Rightarrow> f1
      | (False, f1) \<Rightarrow>
          (case es of
             [] \<Rightarrow> reconcile_loop h scope st f1
           | e # rest \<Rightarrow>
               if fi_is_dir e then
                 if reconcileMaxWalkDepth \<le> Suc (length st) then f1
                 else
                   (case engine (fa_d h) scope (CallList (child_rel rel (fi_name e))) f1 of
                      (Inl _, f2) \<Rightarrow> f2
                    | (Inr children, f2) \<Rightarrow>
                        reconcile_loop h scope ((child_rel rel (fi_name e), infos_of children) # (rel, rest) # st) f2)
               else reconcile_loop h scope ((rel, rest) # st) (ensure_entry h scope (child_rel rel (fi_name e)) e f1)))"
  by pat_completeness auto

termination
proof (relation "inv_image (lenlex less_than) (\<lambda>(h, scope, st, f). frame_weights st)")
  show "wf (inv_image (lenlex less_than) (\<lambda>(h, scope, st, f). frame_weights st))"
    by (intro wf_inv_image wf_lenlex) simp
qed (auto simp: weights_pop weights_next weights_push reconcileMaxWalkDepth_def maxWalkDepth_def)

declare reconcile_loop.simps(2) [simp del]

definition reconcileEngineNamespace :: "('s, 'g) Deps \<Rightarrow> string \<Rightarrow> ('s, 'g) face \<Rightarrow> ('s, 'g) face" where
  "reconcileEngineNamespace h scope f =
     (case engine (fa_d h) scope (CallList dot) f of
        (Inl _, f1) \<Rightarrow> f1
      | (Inr entries, f1) \<Rightarrow> reconcile_loop h scope [(dot, infos_of entries)] f1)"

definition list_answer :: "('s, 'g) Deps \<Rightarrow> PeerScope \<Rightarrow> Grant \<Rightarrow> string \<Rightarrow> list_input \<Rightarrow> ('s, 'g) face \<Rightarrow>
    response \<times> ('s, 'g) face" where
  "list_answer h ps grant reqID inp f =
     (case store_op h (ps_FilesystemID ps) (\<lambda>_ st. (list_handles inp st, st)) f of
        (Inl e, f1) \<Rightarrow>
          (let (cls, message) = (if e = ErrMalformedCursor then (dc_Malformed, ''malformed cursor'')
                                 else (dc_BackendUnavailable, ''list failed''));
               (_, f2) = mandate (fa_d h) (listDenyEvent ps grant cls reqID) f1
           in (refuse cls message, f2))
      | (Inr pg, f1) \<Rightarrow> (files_writeJSON 200 (newListResponse h pg), f1))"

definition serveList :: "('s, 'g) Deps \<Rightarrow> PeerScope \<Rightarrow> string \<Rightarrow> files_request \<Rightarrow> ('s, 'g) face \<Rightarrow> response \<times> ('s, 'g) face" where
  "serveList h ps reqID r f =
     (let (i, f1) = files_session (ps_FilesystemID ps) f; (admitted, f2) = session_op r 0 i f1 in
      if \<not> admitted then (rate_refusal, f2)
      else
        (case parseLimit (query_get listLimitParam r) of
           None \<Rightarrow> (refuse dc_Malformed ''invalid limit parameter'', f2)
         | Some limit \<Rightarrow>
             (let after = query_get listAfterParam r;
                  inp = \<lparr>li_scope = ps_FilesystemID ps, li_cursor = after, li_limit = limit,
                         li_order = (if query_get listOrderParam r = ''desc'' then ListOrderDesc else ListOrderAsc)\<rparr> in
              case files_resolve h ps (ps_GrantedIntents ps) listScopeRootPath IntentRead of
                Inl e \<Rightarrow> denyList h ps zero_grant reqID (north_denyClassForResolveErr e) ''authorization denied'' f2
              | Inr grant \<Rightarrow>
                  (case mandate (fa_d h) (listAllowEvent ps grant reqID) f2 of
                     (Inl _, f3) \<Rightarrow> (refuse dc_AuditDown ''audit gate unavailable'', f3)
                   | (Inr _, f3) \<Rightarrow>
                       (let f4 = (if after = [] \<and> \<not> latched (files_store f3)
                                  then reconcileEngineNamespace h (ps_FilesystemID ps) f3 else f3)
                        in list_answer h ps grant reqID inp f4)))))"

section \<open>Archive\<close>

definition archivePath :: string where "archivePath = ''/v1/files/archive''"
definition archiveFileIDParam :: string where "archiveFileIDParam = ''file_id''"
definition contentTypeZip :: string where "contentTypeZip = ''application/zip''"
definition archiveFilename :: string where "archiveFilename = ''archive.zip''"

record archiveMember =
  mb_rec :: handle_record
  mb_engPath :: string
  mb_grant :: Grant
  mb_size :: int

fun consume_members :: "files_request \<Rightarrow> nat \<Rightarrow> nat \<Rightarrow> string list \<Rightarrow> ('s, 'g) face \<Rightarrow> bool \<times> ('s, 'g) face" where
  "consume_members r n i [] f = (True, f)"
| "consume_members r n i (_ # ids) f =
     (case session_op r n i f of
        (False, f1) \<Rightarrow> (False, f1)
      | (True, f1) \<Rightarrow> consume_members r (Suc n) i ids f1)"

text \<open>An id that does not resolve to a downloadable object of the scope is left out.\<close>

definition archive_member :: "('s, 'g) Deps \<Rightarrow> PeerScope \<Rightarrow> string \<Rightarrow> ('s, 'g) face \<Rightarrow>
    (response, archiveMember option) res \<times> ('s, 'g) face" where
  "archive_member h ps fileID f =
     (case store_get h fileID (ps_FilesystemID ps) f of
        (Inl e, f1) \<Rightarrow>
          if e = ErrNotFound then (Inr None, f1)
          else (Inl (refuse dc_BackendUnavailable ''handle store unavailable''), f1)
      | (Inr rec, f1) \<Rightarrow>
          (case files_enginePath (hr_object_ref rec) of
             None \<Rightarrow> (Inr None, f1)
           | Some engPath \<Rightarrow>
               (case files_resolve h ps (ps_GrantedIntents ps) engPath IntentRead of
                  Inl _ \<Rightarrow> (Inr None, f1)
                | Inr grant \<Rightarrow>
                    if \<not> gr_Downloadable grant then (Inr None, f1)
                    else
                      (case engine (fa_d h) (ps_FilesystemID ps) (CallStat engPath) f1 of
                         (Inl _, f2) \<Rightarrow> (Inr None, f2)
                       | (Inr info, f2) \<Rightarrow>
                           (Inr (Some \<lparr>mb_rec = rec, mb_engPath = engPath, mb_grant = grant,
                                       mb_size = int (fi_size (info_of info))\<rparr>), f2)))))"

fun archive_members :: "('s, 'g) Deps \<Rightarrow> PeerScope \<Rightarrow> string list \<Rightarrow> ('s, 'g) face \<Rightarrow>
    (response, archiveMember list) res \<times> ('s, 'g) face" where
  "archive_members h ps [] f = (Inr [], f)"
| "archive_members h ps (fileID # ids) f =
     (case archive_member h ps fileID f of
        (Inl r, f1) \<Rightarrow> (Inl r, f1)
      | (Inr m, f1) \<Rightarrow>
          (case archive_members h ps ids f1 of
             (Inl r, f2) \<Rightarrow> (Inl r, f2)
           | (Inr ms, f2) \<Rightarrow> (Inr (case m of None \<Rightarrow> ms | Some x \<Rightarrow> x # ms), f2)))"

fun mandate_members :: "('s, 'g) Deps \<Rightarrow> PeerScope \<Rightarrow> string \<Rightarrow> archiveMember list \<Rightarrow> ('s, 'g) face \<Rightarrow> bool \<times> ('s, 'g) face" where
  "mandate_members h ps reqID [] f = (True, f)"
| "mandate_members h ps reqID (m # ms) f =
     (case mandate (fa_d h) (readAllowEvent ps (mb_rec m) (mb_grant m) reqID) f of
        (Inl _, f1) \<Rightarrow> (False, f1)
      | (Inr _, f1) \<Rightarrow> mandate_members h ps reqID ms f1)"

definition sanitizeEntryName :: "string \<Rightarrow> string" where
  "sanitizeEntryName filename =
     (let name = path_base (map (\<lambda>c. if c = CHR 0x5C then CHR ''/'' else c) filename)
      in if name = [] \<or> name = dot \<or> name = dotdot \<or> name = ''/'' then ''file'' else name)"

definition numbered :: "string \<Rightarrow> nat \<Rightarrow> string" where
  "numbered name n = name @ ''-'' @ dec_nat n"

lemma dec_nat_inject: "dec_nat m = dec_nat n \<longleftrightarrow> m = n"
  by (metis parse_digits_dec_nat option.inject)

lemma numbered_inject [simp]: "numbered name m = numbered name n \<longleftrightarrow> m = n"
  by (simp add: numbered_def dec_nat_inject)

lemma numbered_neq [simp]: "numbered name n \<noteq> name" "name \<noteq> numbered name n"
  by (simp_all add: numbered_def)

text \<open>The search for a free numbered name: at most one step per name in use.\<close>

function dedupe_loop :: "(string \<times> nat) list \<Rightarrow> string \<Rightarrow> nat \<Rightarrow> string \<times> (string \<times> nat) list" where
  "dedupe_loop used name n =
     (if map_of used (numbered name n) = None then (numbered name n, AList.update (numbered name n) 1 used)
      else dedupe_loop (AList.update name (Suc (Suc n)) used) name (Suc n))"
  by pat_completeness auto

termination
proof (relation "measure (\<lambda>(used, name, n). card {m. n \<le> m \<and> map_of used (numbered name m) \<noteq> None})")
  fix used :: "(string \<times> nat) list" and name n
  assume a: "\<not> map_of used (numbered name n) = None"
  let ?S = "\<lambda>k. {m. k \<le> m \<and> map_of used (numbered name m) \<noteq> None}"
  have "numbered name ` ?S n \<subseteq> dom (map_of used)" by auto
  then have "finite (numbered name ` ?S n)" using finite_dom_map_of finite_subset by blast
  then have "finite (?S n)" by (rule finite_imageD) (simp add: inj_on_def)
  moreover have "?S (Suc n) \<subset> ?S n" using a by (auto simp: Suc_le_eq)
  ultimately have "card (?S (Suc n)) < card (?S n)" by (rule psubset_card_mono)
  then show "((AList.update name (Suc (Suc n)) used, name, Suc n), (used, name, n))
      \<in> measure (\<lambda>(used, name, n). card {m. n \<le> m \<and> map_of used (numbered name m) \<noteq> None})"
    by (simp add: update_conv')
qed simp

declare dedupe_loop.simps [simp del]

definition dedupeEntryName :: "(string \<times> nat) list \<Rightarrow> string \<Rightarrow> string \<times> (string \<times> nat) list" where
  "dedupeEntryName used filename =
     (let name = (if filename = [] then ''file'' else filename) in
      case map_of used name of
        None \<Rightarrow> (name, AList.update name 1 used)
      | Some n \<Rightarrow> dedupe_loop (AList.update name (Suc n) used) name n)"

text \<open>The entries written to the archive; the status is committed before the first of them.\<close>

fun streamArchive :: "('s, 'g) Deps \<Rightarrow> PeerScope \<Rightarrow> nat \<Rightarrow> (string \<times> nat) list \<Rightarrow> archiveMember list \<Rightarrow> ('s, 'g) face \<Rightarrow>
    (string \<times> string) list \<times> ('s, 'g) face" where
  "streamArchive h ps i used [] f = ([], f)"
| "streamArchive h ps i used (m # ms) f =
     (let (entryName, used1) = dedupeEntryName used (sanitizeEntryName (hr_filename (mb_rec m))) in
      case on_face_session i TryAcquireFD f of
        (Some _, f1) \<Rightarrow> ([], f1)
      | (None, f1) \<Rightarrow>
          (let (er, f2) = engine (fa_d h) (ps_FilesystemID ps) (CallReadRange (mb_engPath m) 0 (of_int (mb_size m))) f1;
               (_, f3) = on_face_session i ReleaseFD f2
           in if read_failed er then ([(entryName, read_bytes er)], f3)
              else
                (let (rest, f4) = streamArchive h ps i used1 ms f3
                 in ((entryName, read_bytes er) # rest, f4))))"

definition serveArchive :: "('s, 'g) Deps \<Rightarrow> PeerScope \<Rightarrow> string \<Rightarrow> files_request \<Rightarrow> ('s, 'g) face \<Rightarrow> response \<times> ('s, 'g) face" where
  "serveArchive h ps reqID r f =
     (let (i, f1) = files_session (ps_FilesystemID ps) f; (admitted, f2) = session_op r 0 i f1 in
      if \<not> admitted then (rate_refusal, f2)
      else
        (case consume_members r 1 i (query_all archiveFileIDParam r) f2 of
           (False, f3) \<Rightarrow> (refuse dc_Throttle ''archive member operation budget exceeded'', f3)
         | (True, f3) \<Rightarrow>
             (case archive_members h ps (query_all archiveFileIDParam r) f3 of
                (Inl resp, f4) \<Rightarrow> (resp, f4)
              | (Inr members, f4) \<Rightarrow>
                  if members = [] then (writeNotFound, f4)
                  else
                    (case mandate_members h ps reqID members f4 of
                       (False, f5) \<Rightarrow> (refuse dc_AuditDown ''audit gate unavailable'', f5)
                     | (True, f5) \<Rightarrow>
                         (let (entries, f6) = streamArchive h ps i [] members f5
                          in (\<lparr>rs_status = 200,
                               rs_header = [(''Content-Type'', contentTypeZip),
                                 (''Content-Disposition'', ''attachment; filename='' @ [CHR 0x22] @ archiveFilename @ [CHR 0x22])],
                               rs_body = fa_zip h entries\<rparr>, f6))))))"

section \<open>Create\<close>

record createUploadParams =
  cp_FilesystemID :: string
  cp_Path :: string
  cp_DeclaredSizeBytes :: int
  cp_OverwriteExisting :: bool
  cp_MediaType :: string
  cp_Filename :: string

definition create_schema :: "(string \<times> field_type) list" where
  "create_schema = common_fields @
     [(''path'', FStr), (''declared_size_bytes'', FInt), (''overwrite_existing'', FBool), (''media_type'', FStr),
      (''filename'', FStr), (''ttl_seconds'', FInt)]"

definition obj_or_null :: "json list \<Rightarrow> bool" where
  "obj_or_null vs = list_all (\<lambda>v. case v of JNull \<Rightarrow> True | JObj _ \<Rightarrow> True | _ \<Rightarrow> False) vs"

definition decode_create_params :: "string \<Rightarrow> createUploadParams option" where
  "decode_create_params raw =
     Option.bind (decode_single raw) (\<lambda>ms.
       if only_fields (map fst create_schema @ [''metadata'', ''tags'']) ms \<and>
          list_all (\<lambda>(n, t). field_ok t (field_vals n ms)) create_schema \<and>
          obj_or_null (field_vals ''metadata'' ms) \<and> str_list_ok (field_vals ''tags'' ms)
       then Some \<lparr>cp_FilesystemID = get_str ''filesystem_id'' ms, cp_Path = get_str ''path'' ms,
                  cp_DeclaredSizeBytes = get_int ''declared_size_bytes'' ms,
                  cp_OverwriteExisting = get_bool ''overwrite_existing'' ms, cp_MediaType = get_str ''media_type'' ms,
                  cp_Filename = get_str ''filename'' ms\<rparr>
       else None)"

definition createParamsField :: string where "createParamsField = ''params''"
definition createFileField :: string where "createFileField = ''file''"

definition readCreateParams :: "('s, 'g) Deps \<Rightarrow> part list \<Rightarrow> (deny_class \<times> string, createUploadParams \<times> part list) res" where
  "readCreateParams h parts =
     (case parts of
        [] \<Rightarrow> Inl (dc_Malformed, ''missing multipart params part'')
      | p # rest \<Rightarrow>
          if pt_name p \<noteq> createParamsField then Inl (dc_Malformed, ''first multipart part must be the params field'')
          else
            (let raw = concat (pt_reads p) in
             if dp_sizeCeiling (fa_d h) < int (length raw) then Inl (dc_Throttle, ''params field exceeds message ceiling'')
             else if \<not> pt_eof p then Inl (dc_Malformed, ''malformed multipart params part'')
             else (case decode_create_params raw of
                     None \<Rightarrow> Inl (dc_Malformed, ''malformed params JSON'')
                   | Some u \<Rightarrow> Inr (u, rest))))"

definition openCreateFilePart :: "part list \<Rightarrow> (deny_class \<times> string, part) res" where
  "openCreateFilePart parts =
     (case parts of
        [] \<Rightarrow> Inl (dc_Malformed, ''missing multipart file part'')
      | p # _ \<Rightarrow>
          if pt_name p \<noteq> createFileField then Inl (dc_Malformed, ''second multipart part must be the file field'')
          else Inr p)"

definition createFilename :: "createUploadParams \<Rightarrow> string \<Rightarrow> string" where
  "createFilename u engineRef =
     (if cp_Filename u \<noteq> [] then cp_Filename u
      else (let leaf = path_base engineRef in if leaf = [] \<or> leaf = dot \<or> leaf = ''/'' then engineRef else leaf))"

definition canonicalizeCreatePath :: "string \<Rightarrow> string option" where
  "canonicalizeCreatePath wire =
     (if CHR 0x00 \<in> set wire then None
      else if hasURLScheme wire then None
      else
        (let clean = path_clean (''/'' @ trim_prefix wire ''/'') in
         if clean = ''/..'' \<or> has_prefix clean ''/../'' then None
         else (let eng = trim_prefix clean ''/'' in if eng = [] then None else Some eng)))"

definition ensure_class :: "south_err \<Rightarrow> deny_class \<times> string" where
  "ensure_class e =
     (if e = sErrForeignScope then (dc_ScopeMismatch, ''request scope does not match the attested scope'')
      else if e = sErrBackendTransient then (dc_BackendUnavailable, ''storage backend unavailable'')
      else if e = sErrBackendThrottled then (dc_Throttle, ''storage backend throttled'')
      else (dc_Internal, ''internal error''))"

text \<open>The parent directory of the object, created only when there is a create subtree.\<close>

definition ensure_parent :: "('s, 'g) Deps \<Rightarrow> PeerScope \<Rightarrow> string \<Rightarrow> ('s, 'g) face \<Rightarrow> (deny_class \<times> string, unit) res \<times> ('s, 'g) face" where
  "ensure_parent h ps engineRef f =
     (if fa_CreateSubtree h = [] then (Inr (), f)
      else
        (let ensureDir = path_dir engineRef in
         if ensureDir \<noteq> fa_CreateSubtree h \<and> \<not> has_prefix ensureDir (fa_CreateSubtree h @ ''/'')
         then (Inl (dc_Internal, ''internal error''), f)
         else
           (case EnsureDir (fa_d h) (ps_FilesystemID ps) ensureDir f of
              (Inl e, f1) \<Rightarrow> (Inl (ensure_class e), f1)
            | (Inr _, f1) \<Rightarrow> (Inr (), f1))))"

text \<open>
  The read loop is the one of the south upload; a part that does not end at its boundary is
  malformed here, and aborted there.
\<close>

definition create_feed :: "int \<Rightarrow> nat \<Rightarrow> part \<Rightarrow> ('s, 'g) face \<Rightarrow> feed_end \<times> string list \<times> int \<times> ('s, 'g) face" where
  "create_feed declared i p f =
     (case feed_part declared i (pt_eof p) (pt_reads p) [] 0 f of
        (FeedDone, offered, acquired, f1) \<Rightarrow> (FeedDone, offered, acquired, f1)
      | (FeedAbort cls message, offered, acquired, f1) \<Rightarrow>
          (FeedAbort (if cls = dc_Aborted then dc_Malformed else cls) message, offered, acquired, f1))"

definition errCreateAborted :: store_err where
  "errCreateAborted = ReaderErr ''filesapi: inbound upload aborted before half-close''"

definition digest_of :: "engine_reply \<Rightarrow> string" where
  "digest_of r = (case r of ReplyDigest x \<Rightarrow> x | _ \<Rightarrow> [])"

definition create_answer :: "('s, 'g) Deps \<Rightarrow> PeerScope \<Rightarrow> createUploadParams \<Rightarrow> string \<Rightarrow> string \<Rightarrow> ('s, 'g) face \<Rightarrow>
    response \<times> ('s, 'g) face" where
  "create_answer h ps u engineRef digest f =
     (case store_op h (ps_FilesystemID ps)
             (\<lambda>q. put q \<lparr>pi_scope = ps_FilesystemID ps, pi_object_ref = engineRef, pi_filename = createFilename u engineRef,
                         pi_mime = cp_MediaType u, pi_size = of_int (cp_DeclaredSizeBytes u), pi_policy_ref = [],
                         pi_sha256 = digest\<rparr>) f of
        (Inl e, f1) \<Rightarrow>
          (if e = ErrStoreUnavailable then refuse dc_BackendUnavailable ''handle store unavailable''
           else refuse dc_Internal ''internal error'', f1)
      | (Inr rec, f1) \<Rightarrow> (files_writeJSON 201 (newFileObject h rec), f1))"

definition create_body :: "('s, 'g) Deps \<Rightarrow> PeerScope \<Rightarrow> nat \<Rightarrow> string \<Rightarrow> bool \<Rightarrow> createUploadParams \<Rightarrow> string \<Rightarrow> Grant \<Rightarrow> part \<Rightarrow>
    ('s, 'g) face \<Rightarrow> response \<times> int \<times> ('s, 'g) face" where
  "create_body h ps i reqID early u engineRef grant p f =
     (let (fin, offered, acquired, f1) = create_feed (cp_DeclaredSizeBytes u) i p f;
          (er, f2) = engine (fa_d h) (ps_FilesystemID ps)
            (CallWriteStream engineRef (offered, if fin = FeedDone then None else Some errCreateAborted)
               (cp_OverwriteExisting u)) f1;
          deny = denyCreate h ps engineRef grant reqID;
          (r, f3) =
            (case (fin, er) of
               (FeedDone, Inr x) \<Rightarrow> create_answer h ps u engineRef (digest_of x) f2
             | (FeedDone, Inl e) \<Rightarrow> deny (north_denyClassForEngineErr e) ''upload refused'' f2
             | (FeedAbort cls message, Inl e) \<Rightarrow>
                 if early then deny (north_denyClassForEngineErr e) ''upload refused'' f2 else deny cls message f2
             | (FeedAbort cls message, Inr _) \<Rightarrow> deny cls message f2)
      in (r, acquired, f3))"

definition create_allowed :: "('s, 'g) Deps \<Rightarrow> PeerScope \<Rightarrow> nat \<Rightarrow> string \<Rightarrow> bool \<Rightarrow> createUploadParams \<Rightarrow> string \<Rightarrow> Grant \<Rightarrow>
    part list \<Rightarrow> ('s, 'g) face \<Rightarrow> response \<times> ('s, 'g) face" where
  "create_allowed h ps i reqID early u engineRef grant rest f =
     (case openCreateFilePart rest of
        Inl (cls, message) \<Rightarrow> denyCreate h ps engineRef grant reqID cls message f
      | Inr p \<Rightarrow>
          (case on_face_session i TryAcquireFD f of
             (Some _, f1) \<Rightarrow> denyCreate h ps engineRef grant reqID dc_Throttle ''file-descriptor ceiling exceeded'' f1
           | (None, f1) \<Rightarrow>
               (let (r, acquired, f2) =
                      (case ensure_parent h ps engineRef f1 of
                         (Inl (cls, message), f2) \<Rightarrow>
                           (let (r, f3) = denyCreate h ps engineRef grant reqID cls message f2 in (r, 0, f3))
                       | (Inr _, f2) \<Rightarrow> create_body h ps i reqID early u engineRef grant p f2);
                    (_, f3) = on_face_session i ReleaseFD f2;
                    (_, f4) = on_face_session i (ReleaseBytes (of_int acquired)) f3
                in (r, f4))))"

definition create_ref :: "('s, 'g) Deps \<Rightarrow> string \<Rightarrow> string" where
  "create_ref h canon = (if fa_CreateSubtree h = [] then canon else path_join [fa_CreateSubtree h, canon])"

definition serveCreate :: "('s, 'g) Deps \<Rightarrow> PeerScope \<Rightarrow> string \<Rightarrow> files_request \<Rightarrow> ('s, 'g) face \<Rightarrow> response \<times> ('s, 'g) face" where
  "serveCreate h ps reqID r f =
     (let (i, f1) = files_session (ps_FilesystemID ps) f; (admitted, f2) = session_op r 0 i f1;
          deny = denyCreate h ps [] zero_grant reqID in
      if \<not> admitted then (rate_refusal, f2)
      else
        (case fr_parts r of
           None \<Rightarrow> deny dc_Malformed ''request is not multipart/form-data'' f2
         | Some parts \<Rightarrow>
             (case readCreateParams h parts of
                Inl (cls, message) \<Rightarrow> deny cls message f2
              | Inr (u, rest) \<Rightarrow>
                  if cp_DeclaredSizeBytes u \<le> 0 then deny dc_Malformed ''declared_size_bytes required (>0)'' f2
                  else if cp_FilesystemID u \<noteq> [] \<and> cp_FilesystemID u \<noteq> ps_FilesystemID ps then
                    deny dc_ScopeMismatch ''request scope does not match the attested scope'' f2
                  else
                    (case canonicalizeCreatePath (cp_Path u) of
                       None \<Rightarrow> deny dc_Malformed ''invalid or unsafe path'' f2
                     | Some canon \<Rightarrow>
                         (let ref = create_ref h canon in
                          case files_resolve h ps (writeEvidenceIntents ps) ref IntentWrite of
                            Inl e \<Rightarrow> denyCreate h ps ref zero_grant reqID (north_denyClassForResolveErr e) ''authorization denied'' f2
                          | Inr grant \<Rightarrow>
                              if dp_maxFileSize (fa_d h) < cp_DeclaredSizeBytes u then
                                denyCreate h ps ref grant reqID dc_SizeExceeded ''declared size exceeds whole-object ceiling'' f2
                              else
                                (case mandate (fa_d h) (createAllowEvent ps ref grant (cp_DeclaredSizeBytes u) reqID) f2 of
                                   (Inl _, f3) \<Rightarrow> (refuse dc_AuditDown ''audit gate unavailable'', f3)
                                 | (Inr _, f3) \<Rightarrow> create_allowed h ps i reqID (fr_early r) u ref grant rest f3))))))"

section \<open>Routing\<close>

definition filesRoot :: string where "filesRoot = ''/v1/files''"
definition filesPrefix :: string where "filesPrefix = ''/v1/files/''"

definition newRequestID :: "string \<Rightarrow> string" where
  "newRequestID rnd = hex_encode rnd"

definition writeMethodNotAllowed :: "string \<Rightarrow> response" where
  "writeMethodNotAllowed allowed =
     (let r = WriteRESTDeny (withStatus 405 (MapDeny dc_Malformed)) ''method not allowed''
      in r\<lparr>rs_header := (''Allow'', allowed) # rs_header r\<rparr>)"

definition routeCollection :: "('s, 'g) Deps \<Rightarrow> PeerScope \<Rightarrow> string \<Rightarrow> files_request \<Rightarrow> ('s, 'g) face \<Rightarrow> response \<times> ('s, 'g) face" where
  "routeCollection h ps reqID r f =
     (if fr_method r = ''GET'' then serveList h ps reqID r f
      else if fr_method r = ''POST'' then serveCreate h ps reqID r f
      else (writeMethodNotAllowed ''GET, POST'', f))"

definition routeArchive :: "('s, 'g) Deps \<Rightarrow> PeerScope \<Rightarrow> string \<Rightarrow> files_request \<Rightarrow> ('s, 'g) face \<Rightarrow> response \<times> ('s, 'g) face" where
  "routeArchive h ps reqID r f =
     (if fr_method r = ''GET'' then serveArchive h ps reqID r f else (writeMethodNotAllowed ''GET'', f))"

definition routeResource :: "('s, 'g) Deps \<Rightarrow> PeerScope \<Rightarrow> string \<Rightarrow> string \<Rightarrow> files_request \<Rightarrow> ('s, 'g) face \<Rightarrow>
    response \<times> ('s, 'g) face" where
  "routeResource h ps reqID tail r f =
     (let fileID = takeWhile (\<lambda>c. c \<noteq> CHR ''/'') tail; sub = dropWhile (\<lambda>c. c \<noteq> CHR ''/'') tail in
      if tail = [] then (writeNotFound, f)
      else if fileID = [] then (writeNotFound, f)
      else if sub \<noteq> [] then
        if tl sub \<noteq> ''content'' then (writeNotFound, f)
        else if fr_method r = ''GET'' then serveContent h ps fileID reqID r f
        else (writeMethodNotAllowed ''GET'', f)
      else if fr_method r = ''GET'' then serveMetadata h ps fileID reqID r f
      else if fr_method r = ''DELETE'' then serveDelete h ps fileID reqID r f
      else (writeMethodNotAllowed ''GET, DELETE'', f))"

definition files_route :: "('s, 'g) Deps \<Rightarrow> string \<Rightarrow> files_request \<Rightarrow> ('s, 'g) face \<Rightarrow> response \<times> ('s, 'g) face" where
  "files_route h reqID r f =
     (case fa_Scope h r of
        None \<Rightarrow> (refuse dc_BackendUnavailable ''missing host-attested scope'', f)
      | Some ps \<Rightarrow>
          if \<not> validateScopeShape (ps_FilesystemID ps) then (refuse dc_BackendUnavailable ''malformed scope shape'', f)
          else if fr_path r = filesRoot then routeCollection h ps reqID r f
          else if fr_path r = archivePath then routeArchive h ps reqID r f
          else if has_prefix (fr_path r) filesPrefix then
            routeResource h ps reqID (trim_prefix (fr_path r) filesPrefix) r f
          else (writeNotFound, f))"

definition files_ServeHTTP :: "('s, 'g) Deps \<Rightarrow> files_request \<Rightarrow> ('s, 'g) face \<Rightarrow> response \<times> ('s, 'g) face" where
  "files_ServeHTTP h r f =
     (let reqID = newRequestID (fr_rand r); (resp, f1) = files_route h reqID r f
      in (with_request_id reqID resp, f1))"

end
