(* ===== verification/LocalWrites.thy ===== *)
theory LocalWrites
  imports LocalEngine
begin

text \<open>
  What the local-volume engine guarantees about writes: the staging area is invisible, a
  write or copy either leaves the visible tree as it was or commits the whole stream under
  the destination name, and a no-replace write never replaces. The statements hold for every
  script of I/O faults and every point of cancellation.
\<close>

section \<open>System calls with faults\<close>

lemma fault_fs: "fault w = (b, w1) \<Longrightarrow> sw_fs w1 = sw_fs w"
  by (auto simp: fault_def split: list.splits)

lemma consult_fs: "consult w = (b, w1) \<Longrightarrow> sw_fs w1 = sw_fs w"
  by (auto simp: consult_def split: option.splits nat.splits)

lemma sys_get_fs: "sys_get f w = (r, w1) \<Longrightarrow> sw_fs w1 = sw_fs w"
  using fault_fs by (auto simp: sys_get_def split: prod.splits if_splits)

lemma sys_get_Inr: "sys_get f w = (Inr x, w1) \<Longrightarrow> f (sw_fs w) = Inr x"
  by (auto simp: sys_get_def split: prod.splits if_splits)

lemma sys_set_Inl: "sys_set f w = (Inl e, w1) \<Longrightarrow> sw_fs w1 = sw_fs w"
  using fault_fs by (auto simp: sys_set_def split: prod.splits if_splits sum.splits)

lemma sys_set_Inr: "sys_set f w = (Inr u, w1) \<Longrightarrow> f (sw_fs w) = Inr (sw_fs w1)"
  by (auto simp: sys_set_def split: prod.splits if_splits sum.splits)

section \<open>The visible tree\<close>

definition visible :: "fs \<Rightarrow> fpath \<Rightarrow> entry option" where
  "visible t p = (if p \<noteq> [] \<and> hd p = stagingDirName then None else fs_at t p)"

lemma visible_outside: "(\<And>p. p = [] \<or> hd p \<noteq> stagingDirName \<Longrightarrow> fs_at t' p = fs_at t p) \<Longrightarrow> visible t' = visible t"
  by (auto simp: visible_def)

lemma comps_guest:
  assumes "guestPath p = Inr q"
  shows "comps q \<noteq> []" "list_all plain_comp (comps q)" "hd (comps q) \<noteq> stagingDirName" "path_base q = last (comps q)"
proof -
  have v: "ValidatePath p = Inr q" and h: "hd (comps q) \<noteq> stagingDirName"
    using assms by (simp_all add: guestPath_iff comps_def)
  show "comps q \<noteq> []" by (simp add: comps_def)
  show pl: "list_all plain_comp (comps q)"
    using ValidatePath_comps(2) [OF v] v by (simp add: ValidatePath_iff comps_def)
  show "hd (comps q) \<noteq> stagingDirName" by (rule h)
  have q: "q = join_with CHR ''/'' (comps q)" by (simp add: comps_def)
  obtain cs c where cs: "comps q = cs @ [c]" by (cases "comps q" rule: rev_cases) (auto simp: comps_def)
  with pl have c: "c \<noteq> []" "CHR ''/'' \<notin> set c" by (auto simp: plain_comp_def)
  have "q = (if cs = [] then [] else join_with CHR ''/'' cs @ ''/'') @ c"
  proof -
    have "join_with CHR ''/'' (ds @ [c]) = (if ds = [] then [] else join_with CHR ''/'' ds @ ''/'') @ c" for ds
      by (induction "CHR ''/''" ds rule: join_with.induct) auto
    with q cs show ?thesis by simp
  qed
  then obtain u where u: "q = u @ c" "u = [] \<or> (\<exists>v. u = v @ ''/'')" by (auto split: if_splits)
  then have r: "rev q = rev c @ rev u" by simp
  have "dropWhile (\<lambda>x. x = CHR ''/'') (rev q) = rev q"
    using c r by (cases "rev c") auto
  moreover have "takeWhile (\<lambda>x. x \<noteq> CHR ''/'') (rev q) = rev c"
  proof (cases "u = []")
    case True
    then show ?thesis using r c by (auto simp: takeWhile_eq_all_conv)
  next
    case False
    then obtain v where "u = v @ ''/''" using u(2) by blast
    then have ru: "rev u = CHR ''/'' # rev v" by simp
    show ?thesis unfolding r ru by (rule takeWhile_eq_all_append) (use c in auto)
  qed
  ultimately show "path_base q = last (comps q)"
    using cs c u by (simp add: path_base_def Let_def)
qed

lemma byte_of_not_slash: "48 \<le> n \<Longrightarrow> n < 256 \<Longrightarrow> byte_of n \<noteq> CHR ''/''"
proof
  assume n: "48 \<le> n" "n < 256" and "byte_of n = CHR ''/''"
  then have "byte_val (byte_of n) = byte_val CHR ''/''" by simp
  with n show False by simp
qed

lemma base36_no_slash: "CHR ''/'' \<notin> set (base36 n)"
proof (induction n rule: base36.induct)
  case (1 n)
  have d: "CHR ''/'' \<noteq> byte_of (48 + m)" "CHR ''/'' \<noteq> byte_of (87 + m)" if "m < 36" for m
    using byte_of_not_slash [of "48 + m"] byte_of_not_slash [of "87 + m"] that by force+
  have "n mod 36 < 36" by simp
  with 1 d [of n] d [of "n mod 36"] show ?case by (subst base36.simps) (simp add: Let_def)
qed

lemma plain_tmp: "guestPath p = Inr q \<Longrightarrow> list_all plain_comp (tmp_path q rnd)"
proof -
  assume g: "guestPath p = Inr q"
  then have "plain_comp (path_base q)" using comps_guest [OF g] by (metis last_in_set list_all_iff)
  then have ns: "CHR ''/'' \<notin> set (path_base q @ ''.tmp.'' @ base36 (unat rnd))"
    using base36_no_slash by (simp add: plain_comp_def)
  have "length (path_base q @ ''.tmp.'' @ base36 (unat rnd)) > 2" by simp
  then have "path_base q @ ''.tmp.'' @ base36 (unat rnd) \<notin> {[], dot, dotdot}"
    by (auto simp only: dot_def dotdot_def list.size)
  with ns show ?thesis
    by (simp add: tmp_path_def plain_comp_def) (simp add: stagingDirName_def dot_def dotdot_def)
qed

section \<open>The staging file\<close>

lemma tmp_path_facts: "tmp_path q rnd \<noteq> []" "hd (tmp_path q rnd) = stagingDirName" "butlast (tmp_path q rnd) = [stagingDirName]"
  by (simp_all add: tmp_path_def)

lemma copy_loop_spec:
  assumes rd: "\<forall>w. sw_fs (snd (rd w)) = sw_fs w" and ne: "tmp \<noteq> []"
  shows "copy_loop rd tmp cs fin w = (r, w') \<Longrightarrow> fs_wf (sw_fs w) \<Longrightarrow> fs_at (sw_fs w) tmp = Some (EFile old) \<Longrightarrow>
    fs_wf (sw_fs w') \<and> (\<forall>p. p \<noteq> tmp \<longrightarrow> fs_at (sw_fs w') p = fs_at (sw_fs w) p) \<and>
    (\<exists>b. fs_at (sw_fs w') tmp = Some (EFile (old @ b)) \<and> (r = Inr () \<longrightarrow> b = concat cs \<and> fin = None))"
proof (induction cs arbitrary: w old)
  case Nil
  obtain c w1 where c: "consult w = (c, w1)" by fastforce
  obtain b w2 where b: "rd w1 = (b, w2)" by fastforce
  have "sw_fs w2 = sw_fs w" "sw_fs w1 = sw_fs w" using rd [rule_format, of w1] b consult_fs [OF c] by simp_all
  then show ?case using Nil c b
    by (auto simp: copy_loop.simps [of rd tmp "[]"] Let_def split: if_splits option.splits)
next
  case (Cons x cs)
  obtain c w1 where c: "consult w = (c, w1)" by fastforce
  obtain b w2 where b: "rd w1 = (b, w2)" by fastforce
  have f: "sw_fs w2 = sw_fs w" "sw_fs w1 = sw_fs w" using rd [rule_format, of w1] b consult_fs [OF c] by simp_all
  show ?case
  proof (cases "c \<or> b")
    case True
    then show ?thesis using Cons.prems c b f
      by (auto simp: copy_loop.simps [of rd tmp "x # cs"] Let_def split: if_splits)
  next
    case False
    obtain s w3 where s: "sys_set (sys_append tmp x) w2 = (s, w3)" by fastforce
    show ?thesis
    proof (cases s)
      case (Inl e)
      then have "(r, w') = (Inl (PathError e), w3)"
        using Cons.prems(1) c b s False by (simp add: copy_loop.simps [of rd tmp "x # cs"] Let_def)
      then show ?thesis using sys_set_Inl [of _ w2 e w3] s Inl f Cons.prems(2,3) by auto
    next
      case (Inr u)
      then have "sys_append tmp x (sw_fs w) = Inr (sw_fs w3)" using sys_set_Inr [of "sys_append tmp x" w2 u w3] s f by simp
      then have w3: "sw_fs w3 = fs_put tmp (EFile (old @ x)) (sw_fs w)" "fs_wf (sw_fs w3)"
        using sys_append_Inr [OF Cons.prems(2) ne] Cons.prems(3) by auto
      have "copy_loop rd tmp cs fin w3 = (r, w')"
        using Cons.prems(1) c b s Inr False by (simp add: copy_loop.simps [of rd tmp "x # cs"] Let_def)
      from Cons.IH [OF this w3(2), of "old @ x"] w3(1) ne show ?thesis
        by (auto simp: fs_at_put)
    qed
  qed
qed

text \<open>
  The commit: on success the destination holds the bytes of the temporary file and nothing
  else outside the staging area has changed; on failure nothing has changed.
\<close>

lemma commit_tmp_spec:
  assumes c: "commit_tmp tmp dst replace w = (r, cl, w')" and wf: "fs_wf (sw_fs w)"
    and tmp: "tmp \<noteq> []" "hd tmp = stagingDirName" "fs_at (sw_fs w) tmp = Some (EFile b)"
    and dst: "dst \<noteq> []" "list_all plain_comp dst" "hd dst \<noteq> stagingDirName"
  shows "fs_wf (sw_fs w') \<and>
    (case r of
       Inl _ \<Rightarrow> sw_fs w' = sw_fs w \<and> cl
     | Inr _ \<Rightarrow> visible (sw_fs w') = (visible (sw_fs w)) (dst \<mapsto> EFile b) \<and>
         (\<not> replace \<longrightarrow> cl \<and> fs_at (sw_fs w) dst = None) \<and> fs_at (sw_fs w) dst \<noteq> Some EDir)"
proof (cases replace)
  case False
  show ?thesis
  proof (cases r)
    case (Inl e)
    with c False have "sw_fs w' = sw_fs w" "cl"
      using sys_set_Inl by (auto simp: commit_tmp_def split: prod.splits sum.splits)
    with Inl wf show ?thesis by simp
  next
    case (Inr u)
    with c False have s: "sys_link tmp dst (sw_fs w) = Inr (sw_fs w')" "cl"
      using sys_set_Inr by (auto simp: commit_tmp_def split: prod.splits sum.splits)
    from sys_link_Inr [OF wf dst(1,2) s(1)] tmp(3)
    have "sw_fs w' = fs_put dst (EFile b) (sw_fs w)" "fs_at (sw_fs w) dst = None" "fs_wf (sw_fs w')" by auto
    moreover from this(1) have "visible (sw_fs w') = (visible (sw_fs w)) (dst \<mapsto> EFile b)"
      using dst by (auto simp: visible_def fs_at_put)
    ultimately show ?thesis using Inr s(2) by simp
  qed
next
  case True
  show ?thesis
  proof (cases r)
    case (Inl e)
    with c True have "sw_fs w' = sw_fs w" "cl"
      using sys_set_Inl by (auto simp: commit_tmp_def split: prod.splits sum.splits)
    with Inl wf show ?thesis by simp
  next
    case (Inr u)
    with c True have s: "sys_rename tmp dst (sw_fs w) = Inr (sw_fs w')"
      using sys_set_Inr by (auto simp: commit_tmp_def split: prod.splits sum.splits)
    have ne: "tmp \<noteq> dst" using tmp(2) dst(3) by auto
    note rn = sys_rename_Inr [OF wf tmp(1) dst(1,2) s ne]
    note at = fs_at_move [OF tmp(1) dst(1) rn(3,2,4,1)]
    have below: "fs_at (sw_fs w) (tmp @ u) = None" if "u \<noteq> []" for u
      by (rule file_no_below [OF wf tmp(3) that])
    have "visible (sw_fs w') p = ((visible (sw_fs w)) (dst \<mapsto> EFile b)) p" for p
    proof (cases "prefix dst p")
      case True
      then obtain v where v: "p = dst @ v" by (auto simp: prefix_def)
      then have "hd p \<noteq> stagingDirName" "p \<noteq> []" using dst by auto
      with v rn(5) at tmp(3) below rn(4) show ?thesis by (cases "v = []") (simp_all add: visible_def)
    next
      case False
      moreover have "prefix tmp p \<Longrightarrow> p \<noteq> [] \<and> hd p = stagingDirName"
        using tmp by (auto simp: prefix_def)
      ultimately show ?thesis using rn(5) at by (auto simp: visible_def)
    qed
    moreover have "fs_at (sw_fs w) dst \<noteq> Some EDir" using rn(7) tmp(3) by auto
    ultimately show ?thesis using Inr rn(6) True by auto
  qed
qed

lemma write_body_spec:
  assumes b: "write_body rd tmp dst rr replace w = (r, cl, w')" and rd: "\<forall>w. sw_fs (snd (rd w)) = sw_fs w"
    and wf: "fs_wf (sw_fs w)" and tmp: "tmp \<noteq> []" "hd tmp = stagingDirName" "fs_at (sw_fs w) tmp = Some (EFile [])"
    and dst: "dst \<noteq> []" "list_all plain_comp dst" "hd dst \<noteq> stagingDirName"
  shows "fs_wf (sw_fs w') \<and>
    (case r of
       Inl _ \<Rightarrow> visible (sw_fs w') = visible (sw_fs w) \<and> cl
     | Inr _ \<Rightarrow> visible (sw_fs w') = (visible (sw_fs w)) (dst \<mapsto> EFile (concat (fst rr))) \<and>
         snd rr = None \<and> (\<not> replace \<longrightarrow> cl \<and> fs_at (sw_fs w) dst = None))"
proof -
  obtain r1 w1 where c1: "copy_loop rd tmp (fst rr) (snd rr) w = (r1, w1)" by fastforce
  obtain s2 w2 where c2: "fault w1 = (s2, w2)" by fastforce
  obtain s3 w3 where c3: "fault w2 = (s3, w3)" by fastforce
  have fs: "sw_fs w3 = sw_fs w1" "sw_fs w2 = sw_fs w1" using fault_fs [OF c2] fault_fs [OF c3] by simp_all
  obtain bs where wf1: "fs_wf (sw_fs w1)" and out: "\<forall>p. p \<noteq> tmp \<longrightarrow> fs_at (sw_fs w1) p = fs_at (sw_fs w) p"
    and bs: "fs_at (sw_fs w1) tmp = Some (EFile bs)" "r1 = Inr () \<longrightarrow> bs = concat (fst rr) \<and> snd rr = None"
    using copy_loop_spec [OF rd tmp(1) c1 wf tmp(3)] by auto
  have vis: "visible (sw_fs w1) = visible (sw_fs w)"
    by (rule visible_outside) (use out tmp(1,2) in auto)
  show ?thesis
  proof (cases "r1 = Inr () \<and> \<not> s2 \<and> \<not> s3")
    case False
    then have "(\<exists>e. r = Inl e) \<and> cl \<and> sw_fs w' = sw_fs w1"
      using b c1 c2 c3 fs by (cases r1) (auto simp: write_body_def Let_def split: if_splits)
    with vis wf1 show ?thesis by auto
  next
    case True
    then have cm: "commit_tmp tmp dst replace w3 = (r, cl, w')"
      using b c1 c2 c3 by (simp add: write_body_def Let_def)
    have d: "fs_at (sw_fs w1) dst = fs_at (sw_fs w) dst" using out tmp(2) dst(3) by metis
    show ?thesis
      using commit_tmp_spec [OF cm _ tmp(1,2) _ dst, of bs] wf1 bs True fs vis d by (cases r) auto
  qed
qed

lemma mkdir_staging_fs:
  assumes "sys_set (sys_mkdir [stagingDirName]) w = (m, w1)" "fs_wf (sw_fs w)"
  shows "fs_wf (sw_fs w1)" "visible (sw_fs w1) = visible (sw_fs w)"
proof -
  have pl: "list_all plain_comp [stagingDirName]"
    by (simp add: plain_comp_def stagingDirName_def dot_def dotdot_def)
  show "fs_wf (sw_fs w1)" "visible (sw_fs w1) = visible (sw_fs w)"
  proof (atomize (full), cases m)
    case (Inl e)
    then show "fs_wf (sw_fs w1) \<and> visible (sw_fs w1) = visible (sw_fs w)"
      using assms sys_set_Inl [of _ w e w1] by simp
  next
    case (Inr u)
    with assms(1) have "sys_mkdir [stagingDirName] (sw_fs w) = Inr (sw_fs w1)" by (auto dest: sys_set_Inr)
    from sys_mkdir_Inr [OF assms(2) _ pl this] show "fs_wf (sw_fs w1) \<and> visible (sw_fs w1) = visible (sw_fs w)"
      by (auto simp: visible_def fs_at_put)
  qed
qed

lemma remove_staged_fs:
  assumes "fs_wf (sw_fs w)" "tmp \<noteq> []" "hd tmp = stagingDirName"
  shows "fs_wf (sw_fs (snd (sys_set (sys_remove tmp) w))) \<and>
    visible (sw_fs (snd (sys_set (sys_remove tmp) w))) = visible (sw_fs w)"
proof -
  obtain s w1 where s: "sys_set (sys_remove tmp) w = (s, w1)" by fastforce
  show ?thesis
  proof (cases s)
    case (Inl e)
    then show ?thesis using s assms sys_set_Inl [of _ w e w1] by simp
  next
    case (Inr u)
    with s have "sys_remove tmp (sw_fs w) = Inr (sw_fs w1)" by (auto dest: sys_set_Inr)
    from sys_remove_Inr(3,4) [OF assms(1,2) this] s assms(2,3) show ?thesis
      by (auto simp: visible_def fs_at_drop)
  qed
qed

lemma writeTempAndCommit_spec:
  assumes w: "writeTempAndCommit rnd rd q rr replace w = (r, w')" and rd: "\<forall>w. sw_fs (snd (rd w)) = sw_fs w"
    and wf: "fs_wf (sw_fs w)" and g: "guestPath p = Inr q"
  shows "fs_wf (sw_fs w') \<and>
    (case r of
       Inl _ \<Rightarrow> visible (sw_fs w') = visible (sw_fs w)
     | Inr _ \<Rightarrow> visible (sw_fs w') = (visible (sw_fs w)) (comps q \<mapsto> EFile (concat (fst rr))) \<and>
         snd rr = None \<and> (\<not> replace \<longrightarrow> visible (sw_fs w) (comps q) = None))"
proof -
  let ?tmp = "tmp_path q rnd"
  obtain m w1 where m: "sys_set (sys_mkdir [stagingDirName]) w = (m, w1)" by fastforce
  note st = mkdir_staging_fs [OF m wf]
  obtain cr w2 where cr: "sys_set (sys_create ?tmp) w1 = (cr, w2)" by fastforce
  show ?thesis
  proof (cases "(case m of Inl e \<Rightarrow> \<not> is_exist e | Inr _ \<Rightarrow> False) \<or> (\<exists>e. cr = Inl e)")
    case True
    then have "(\<exists>e. r = Inl e) \<and> (w' = w1 \<or> w' = w2 \<and> sw_fs w2 = sw_fs w1)"
      using w m cr sys_set_Inl [of _ w1 _ w2] by (auto simp: writeTempAndCommit_def Let_def split: if_splits sum.splits)
    with st show ?thesis by auto
  next
    case False
    then obtain u where u: "cr = Inr u" by (cases cr) auto
    obtain r3 cl w3 where body: "write_body rd ?tmp (comps q) rr replace w2 = (r3, cl, w3)"
      using prod_cases3 by blast
    have res: "r = r3" "w' = (if cl then snd (sys_set (sys_remove ?tmp) w3) else w3)"
      using w m cr u body False by (auto simp: writeTempAndCommit_def Let_def split: sum.splits)
    have c: "sys_create ?tmp (sw_fs w1) = Inr (sw_fs w2)" using sys_set_Inr [OF cr [unfolded u]] .
    note cc = sys_create_Inr [OF st(1) tmp_path_facts(1) plain_tmp [OF g] c]
    have v2: "visible (sw_fs w2) = visible (sw_fs w)"
    proof -
      have "visible (sw_fs w2) = visible (sw_fs w1)"
        by (rule visible_outside) (use cc(3) tmp_path_facts [of q rnd] in \<open>auto simp: fs_at_put\<close>)
      with st(2) show ?thesis by simp
    qed
    have t2: "fs_at (sw_fs w2) ?tmp = Some (EFile [])" using cc(3) tmp_path_facts by (simp add: fs_at_put)
    note bs = write_body_spec [OF body rd cc(4) tmp_path_facts(1,2) t2 comps_guest(1-3) [OF g]]
    have w': "fs_wf (sw_fs w')" "visible (sw_fs w') = visible (sw_fs w3)"
      using remove_staged_fs [OF _ tmp_path_facts(1,2), of w3 q rnd] bs res(2) by auto
    have vq: "visible (sw_fs w2) (comps q) = fs_at (sw_fs w2) (comps q)"
      using comps_guest [OF g] by (simp add: visible_def)
    show ?thesis using bs w' v2 vq res(1) by (cases r3) auto
  qed
qed

end
