(* ===== verification/LocalVolume.thy ===== *)
theory LocalVolume
  imports LocalWrites
begin

text \<open>
  The local-volume engine as a whole: every verb keeps the volume well-formed and touches no
  scope but its own, recursive removal removes nothing outside its subtree and completes when
  the disk does, provisioning never loses owner data, teardown erases it, and the two moving
  verbs move exactly one subtree.
\<close>

section \<open>Volumes\<close>

definition tree_of :: "lvol \<Rightarrow> scope_id \<Rightarrow> fs option" where
  "tree_of v s =
     (case base_at v s of Some (BDir t) \<Rightarrow> Some t | Some (BLink (Some t)) \<Rightarrow> Some t | _ \<Rightarrow> None)"

definition vol_wf :: "lvol \<Rightarrow> bool" where
  "vol_wf v \<longleftrightarrow> (\<forall>s t. tree_of v s = Some t \<longrightarrow> fs_wf t)"

definition visible_at :: "lvol \<Rightarrow> scope_id \<Rightarrow> fpath \<Rightarrow> entry option" where
  "visible_at v s = (case tree_of v s of None \<Rightarrow> Map.empty | Some t \<Rightarrow> visible t)"

definition same_elsewhere :: "scope_id \<Rightarrow> lvol \<Rightarrow> lvol \<Rightarrow> bool" where
  "same_elsewhere s v v' \<longleftrightarrow> (\<forall>s'. s' \<noteq> s \<longrightarrow> base_at v' s' = base_at v s')"

lemma same_elsewhere_refl [simp]: "same_elsewhere s v v"
  by (simp add: same_elsewhere_def)

lemma same_elsewhere_trans: "same_elsewhere s u v \<Longrightarrow> same_elsewhere s v w \<Longrightarrow> same_elsewhere s u w"
  by (simp add: same_elsewhere_def)

lemma same_elsewhere_base: "lv_base v' = lv_base v \<Longrightarrow> same_elsewhere s v v'"
  by (simp add: same_elsewhere_def base_at_def)

lemma tree_of_cong: "base_at v' s = base_at v s \<Longrightarrow> tree_of v' s = tree_of v s"
  by (simp add: tree_of_def)

lemma visible_at_cong: "tree_of v' s = tree_of v s \<Longrightarrow> visible_at v' s = visible_at v s"
  by (simp add: visible_at_def)

lemma vol_wf_step:
  assumes "vol_wf v" "same_elsewhere s v v'" "\<And>t. tree_of v' s = Some t \<Longrightarrow> fs_wf t"
  shows "vol_wf v'"
  unfolding vol_wf_def
proof (intro allI impI)
  fix s' t assume t: "tree_of v' s' = Some t"
  show "fs_wf t"
  proof (cases "s' = s")
    case False
    then have "tree_of v' s' = tree_of v s'" using assms(2) by (intro tree_of_cong) (simp add: same_elsewhere_def)
    with t assms(1) show ?thesis by (simp add: vol_wf_def)
  qed (use t assms(3) in simp)
qed

lemma base_at_put: "base_at (base_put s b v) s' = (if s' = s then Some b else base_at v s')"
  by (simp add: base_at_def base_put_def map_of_filter_key)

lemma base_at_drop: "base_at (base_drop s v) s' = (if s' = s then None else base_at v s')"
  by (simp add: base_at_def base_drop_def map_of_filter_key)

lemma base_at_leave [simp]: "base_at (leave w v) s = base_at v s"
  by (simp add: base_at_def leave_def)

lemma lv_base_leave [simp]: "lv_base (leave w v) = lv_base v"
  by (simp add: leave_def)

lemma sw_fs_enter [simp]: "sw_fs (enter t v) = t"
  by (simp add: enter_def)

lemma vol_fault_base: "vol_fault v = (b, v1) \<Longrightarrow> lv_base v1 = lv_base v"
  by (auto simp: vol_fault_def split: prod.splits)

lemma vol_consult_base: "vol_consult v = (b, v1) \<Longrightarrow> lv_base v1 = lv_base v"
  by (auto simp: vol_consult_def split: prod.splits)

lemma base_at_eq: "lv_base v1 = lv_base v \<Longrightarrow> base_at v1 = base_at v"
  by (simp add: base_at_def fun_eq_iff)

lemma tree_of_eq: "lv_base v1 = lv_base v \<Longrightarrow> tree_of v1 = tree_of v"
  using base_at_eq [of v1 v] by (simp add: tree_of_def fun_eq_iff)

lemma put_tree_at:
  assumes "tree_of v s = Some t0"
  shows "tree_of (put_tree s t v) s = Some t" "same_elsewhere s v (put_tree s t v)"
  using assms
  by (auto simp: tree_of_def put_tree_def same_elsewhere_def base_at_put split: option.splits base_entry.splits)

lemma openScope_cases:
  assumes "openScope s v = (r, v1)"
  shows "lv_base v1 = lv_base v" "r = Inr t \<Longrightarrow> tree_of v s = Some t"
proof -
  obtain b v2 where b: "vol_fault v = (b, v2)" by fastforce
  show "lv_base v1 = lv_base v"
    using assms b vol_fault_base [OF b]
    by (auto simp: openScope_def Let_def split: option.splits base_entry.splits if_splits)
  show "r = Inr t \<Longrightarrow> tree_of v s = Some t"
    using assms b
    by (auto simp: openScope_def Let_def tree_of_def split: option.splits base_entry.splits if_splits)
qed

text \<open>A verb under a scope root either fails before its body runs or acts on that scope's tree.\<close>

lemma with_scope_cases:
  assumes "with_scope s body v = (r, v')"
  obtains (refused) e where "r = Inl e" "lv_base v' = lv_base v" "openScope s v = (Inl e, v')"
    | (run) t w w' where "tree_of v s = Some t" "sw_fs w = t" "body w = (r, w')"
        "tree_of v' s = Some (sw_fs w')" "same_elsewhere s v v'"
proof -
  obtain o1 v1 where o: "openScope s v = (o1, v1)" by fastforce
  note oc = openScope_cases [OF o]
  show thesis
  proof (cases o1)
    case (Inl e)
    with assms o oc(1) show ?thesis by (intro refused) (auto simp: with_scope_def)
  next
    case (Inr t)
    obtain r1 w' where b: "body (enter t v1) = (r1, w')" by fastforce
    have r: "r = r1" "v' = put_tree s (sw_fs w') (leave w' v1)"
      using assms o Inr b by (auto simp: with_scope_def Let_def)
    have t: "tree_of v s = Some t" using oc(2) Inr by simp
    then have "tree_of (leave w' v1) s = Some t" using oc(1) tree_of_eq [of "leave w' v1" v] by simp
    note p = put_tree_at [OF this, of "sw_fs w'"]
    have "same_elsewhere s v (leave w' v1)" by (rule same_elsewhere_base) (simp add: oc(1))
    then have "same_elsewhere s v v'" unfolding r(2) using p(2) by (rule same_elsewhere_trans)
    with t b r p(1) show ?thesis by (intro run) auto
  qed
qed

lemma with_ctx_cases:
  assumes "with_ctx f v = (r, v')"
  obtains (cancelled) "r = Inl CtxErr" "lv_base v' = lv_base v"
    | (run) v1 where "lv_base v1 = lv_base v" "f v1 = (r, v')"
proof -
  obtain b v1 where b: "vol_consult v = (b, v1)" by fastforce
  then show thesis using assms vol_consult_base [OF b]
    by (cases b) (auto simp: with_ctx_def Let_def intro: cancelled run)
qed

text \<open>
  What a verb may do to a volume: keep it well-formed and leave every other scope alone, given
  that the body keeps a tree well-formed.
\<close>

definition keeps :: "(sworld \<Rightarrow> 'r \<times> sworld) \<Rightarrow> bool" where
  "keeps body \<longleftrightarrow> (\<forall>w r w'. body w = (r, w') \<longrightarrow> fs_wf (sw_fs w) \<longrightarrow> fs_wf (sw_fs w'))"

definition contained :: "scope_id \<Rightarrow> (lvol \<Rightarrow> 'r \<times> lvol) \<Rightarrow> bool" where
  "contained s f \<longleftrightarrow> (\<forall>v r v'. f v = (r, v') \<longrightarrow> same_elsewhere s v v' \<and> (vol_wf v \<longrightarrow> vol_wf v'))"

lemma vol_wf_base: "lv_base v' = lv_base v \<Longrightarrow> vol_wf v' = vol_wf v"
  using tree_of_eq [of v' v] by (simp add: vol_wf_def)

lemma contained_with_scope: "keeps body \<Longrightarrow> contained s (with_scope s body)"
  unfolding contained_def
proof (intro allI impI)
  fix v r v'
  assume k: "keeps body" and "with_scope s body v = (r, v')"
  from this(2) show "same_elsewhere s v v' \<and> (vol_wf v \<longrightarrow> vol_wf v')"
  proof (cases rule: with_scope_cases)
    case (refused e)
    then show ?thesis using same_elsewhere_base [of v' v] vol_wf_base [of v' v] by simp
  next
    case (run t w w')
    have "fs_wf (sw_fs w')" if "vol_wf v"
    proof -
      from that run(1,2) have "fs_wf (sw_fs w)" by (simp add: vol_wf_def)
      with k run(3) show ?thesis by (simp add: keeps_def)
    qed
    then have "vol_wf v \<Longrightarrow> vol_wf v'" using vol_wf_step [of v s v'] run(4,5) by simp
    with run(5) show ?thesis by simp
  qed
qed

lemma contained_with_ctx: "contained s f \<Longrightarrow> contained s (with_ctx f)"
  unfolding contained_def
proof (intro allI impI)
  fix v r v'
  assume c: "\<forall>v r v'. f v = (r, v') \<longrightarrow> same_elsewhere s v v' \<and> (vol_wf v \<longrightarrow> vol_wf v')"
    and "with_ctx f v = (r, v')"
  from this(2) show "same_elsewhere s v v' \<and> (vol_wf v \<longrightarrow> vol_wf v')"
  proof (cases rule: with_ctx_cases)
    case (run v1)
    then have "same_elsewhere s v1 v' \<and> (vol_wf v1 \<longrightarrow> vol_wf v')" using c by blast
    moreover have "same_elsewhere s v v1" "vol_wf v1 = vol_wf v"
      using run same_elsewhere_base [of v1 v] vol_wf_base [of v1 v] by simp_all
    ultimately show ?thesis using same_elsewhere_trans by blast
  qed (use same_elsewhere_base [of v' v] vol_wf_base [of v' v] in simp)
qed

section \<open>Recursive removal\<close>

definition only_under :: "fpath \<Rightarrow> fs \<Rightarrow> fs \<Rightarrow> bool" where
  "only_under p t t' \<longleftrightarrow> (\<forall>q. fs_at t' q = fs_at t q \<or> prefix p q \<and> fs_at t' q = None)"

lemma only_under_refl [simp]: "only_under p t t"
  by (simp add: only_under_def)

lemma only_under_eq: "t' = t \<Longrightarrow> only_under p t t'"
  by simp

lemma only_under_trans: "only_under p t t' \<Longrightarrow> only_under p t' t'' \<Longrightarrow> only_under p t t''"
  unfolding only_under_def by metis

lemma only_under_child: "only_under (p @ [c]) t t' \<Longrightarrow> only_under p t t'"
  unfolding only_under_def by (metis append_prefixD)

lemma remove_path_spec:
  assumes "remove_path p w = (r, w')" "fs_wf (sw_fs w)" "p \<noteq> []"
  shows "fs_wf (sw_fs w') \<and> only_under p (sw_fs w) (sw_fs w') \<and>
    (case r of Inl _ \<Rightarrow> sw_fs w' = sw_fs w
     | Inr _ \<Rightarrow> fs_at (sw_fs w) p \<noteq> None \<and> (\<forall>u. fs_at (sw_fs w') (p @ u) = None) \<and>
         (\<forall>q. q \<noteq> p \<longrightarrow> fs_at (sw_fs w') q = fs_at (sw_fs w) q))"
proof -
  obtain s w1 where s: "sys_set (sys_remove p) w = (s, w1)" by fastforce
  show ?thesis
  proof (cases s)
    case (Inl e)
    with s assms have "r = Inl (PathError e)" "w' = w1" by (auto simp: remove_path_def)
    with sys_set_Inl [of _ w e w1] s Inl assms(2) show ?thesis by simp
  next
    case (Inr u)
    with s assms have r: "r = Inr ()" "w' = w1" by (auto simp: remove_path_def)
    have "sys_remove p (sw_fs w) = Inr (sw_fs w1)" using s Inr by (auto dest: sys_set_Inr)
    note rm = sys_remove_Inr [OF assms(2,3) this]
    have "fs_at (sw_fs w1) (p @ u) = None" for u
      using rm(2) [of u] assms(3) by (cases "u = []") (simp_all add: rm(3) fs_at_drop)
    moreover have "only_under p (sw_fs w) (sw_fs w1)"
      using assms(3) by (auto simp: only_under_def rm(3) fs_at_drop)
    ultimately show ?thesis using r rm(1,4) assms(3) by (simp add: rm(3) fs_at_drop)
  qed
qed

lemma remove_entries_spec:
  assumes f: "\<And>c w r w'. f (p @ [c]) w = (r, w') \<Longrightarrow> fs_wf (sw_fs w) \<Longrightarrow>
      fs_wf (sw_fs w') \<and> only_under (p @ [c]) (sw_fs w) (sw_fs w')"
  shows "remove_entries f p cs w = (r, w') \<Longrightarrow> fs_wf (sw_fs w) \<Longrightarrow> fs_wf (sw_fs w') \<and> only_under p (sw_fs w) (sw_fs w')"
proof (induction cs arbitrary: w)
  case (Cons c cs)
  obtain b w1 where b: "consult w = (b, w1)" by fastforce
  obtain r2 w2 where f2: "f (p @ [c]) w1 = (r2, w2)" by fastforce
  have fs1: "sw_fs w1 = sw_fs w" by (rule consult_fs [OF b])
  show ?case
  proof (cases b)
    case True
    with Cons.prems b fs1 show ?thesis by auto
  next
    case False
    from f [OF f2] Cons.prems(2) fs1
    have w2: "fs_wf (sw_fs w2)" "only_under p (sw_fs w) (sw_fs w2)" using only_under_child by auto
    show ?thesis
    proof (cases r2)
      case (Inl e)
      with Cons.prems(1) b f2 False have "w' = w2" by simp
      with w2 show ?thesis by simp
    next
      case (Inr u)
      with Cons.prems(1) b f2 False have "remove_entries f p cs w2 = (r, w')" by simp
      from Cons.IH [OF this w2(1)] w2(2) show ?thesis using only_under_trans by blast
    qed
  qed
qed auto

lemma remove_tree_spec:
  assumes rd: "\<And>p t. rd p t = sys_readdir p t \<or> rd p t = Inl EINVAL"
  shows "remove_tree rd n p w = (r, w') \<Longrightarrow> fs_wf (sw_fs w) \<Longrightarrow> p \<noteq> [] \<Longrightarrow>
    fs_wf (sw_fs w') \<and> only_under p (sw_fs w) (sw_fs w') \<and>
    (\<forall>x. r = Inr x \<longrightarrow> (\<forall>u. fs_at (sw_fs w') (p @ u) = None))"
proof (induction n arbitrary: p w r w')
  case (Suc n)
  obtain b w1 where b: "consult w = (b, w1)" by fastforce
  have fs1: "sw_fs w1 = sw_fs w" by (rule consult_fs [OF b])
  obtain st w2 where st: "sys_get (sys_stat p) w1 = (st, w2)" by fastforce
  have fs2: "sw_fs w2 = sw_fs w" using sys_get_fs [OF st] fs1 by simp
  show ?case
  proof (cases b)
    case True
    with Suc.prems b fs1 show ?thesis by auto
  next
    case nb: False
    show ?thesis
    proof (cases st)
      case (Inl e)
      show ?thesis
      proof (cases "is_not_exist e")
        case True
        have "fs_at (sw_fs w) p = None"
        proof -
          from True Inl st have "sys_stat p (sw_fs w1) = Inl ENOENT"
            by (auto simp: sys_get_def is_not_exist_def split: prod.splits if_splits)
          then show ?thesis using sys_stat_Inl Suc.prems(2) fs1 by metis
        qed
        then have "fs_at (sw_fs w) (p @ u) = None" for u by (rule no_entry_below [OF Suc.prems(2)])
        with True Inl st b nb Suc.prems fs2 show ?thesis by auto
      next
        case False
        with Inl st b nb Suc.prems fs2 show ?thesis by auto
      qed
    next
      case (Inr en)
      show ?thesis
      proof (cases en)
        case (EFile bs)
        with Inr st b nb Suc.prems(1) have "remove_path p w2 = (r, w')" by simp
        from remove_path_spec [OF this] Suc.prems(2,3) fs2 show ?thesis by (cases r) auto
      next
        case EDir
        obtain dn w3 where dn: "sys_get (rd p) w2 = (dn, w3)" by fastforce
        have fs3: "sw_fs w3 = sw_fs w" using sys_get_fs [OF dn] fs2 by simp
        show ?thesis
        proof (cases dn)
          case (Inl e)
          with EDir Inr st b nb Suc.prems dn fs3 show ?thesis by auto
        next
          case (Inr names)
          obtain er w4 where er: "remove_entries (remove_tree rd n) p names w3 = (er, w4)" by fastforce
          have w4: "fs_wf (sw_fs w4) \<and> only_under p (sw_fs w) (sw_fs w4)"
            using remove_entries_spec [OF _ er] Suc.IH Suc.prems(2) fs3 by (metis snoc_eq_iff_butlast)
          show ?thesis
          proof (cases er)
            case (Inl e)
            with Inr EDir \<open>st = Inr en\<close> st b nb Suc.prems(1) dn er have "r = Inl e" "w' = w4" by simp_all
            with w4 show ?thesis by simp
          next
            case er': (Inr x)
            with Inr EDir \<open>st = Inr en\<close> st b nb Suc.prems(1) dn er have "remove_path p w4 = (r, w')" by simp
            from remove_path_spec [OF this _ Suc.prems(3)] w4 only_under_trans show ?thesis by (cases r) auto
          qed
        qed
      qed
    qed
  qed
qed simp

text \<open>
  Without faults and without cancellation the removal completes: the fuel covers the depth of
  the tree and the listed entries are all gone when the directory itself is removed.
\<close>

definition calm :: "sworld \<Rightarrow> bool" where
  "calm w \<longleftrightarrow> sw_faults w = [] \<and> sw_ctx w = None"

lemma calm_simps:
  assumes "calm w"
  shows "consult w = (False, w)" "fault w = (False, w)" "sys_get f w = (f (sw_fs w), w)"
    "sys_set g w = (case g (sw_fs w) of Inl e \<Rightarrow> (Inl e, w) | Inr t \<Rightarrow> (Inr (), w\<lparr>sw_fs := t\<rparr>))"
  using assms by (simp_all add: calm_def consult_def fault_def sys_get_def sys_set_def)

lemma calm_put [simp]: "calm (w\<lparr>sw_fs := t\<rparr>) = calm w"
  by (simp add: calm_def)

definition removable :: "(fpath \<Rightarrow> fs \<Rightarrow> (errno, string list) res) \<Rightarrow> nat \<Rightarrow> fpath \<Rightarrow> fs \<Rightarrow> bool" where
  "removable rd n p t \<longleftrightarrow>
     (\<forall>q. prefix p q \<longrightarrow> fs_at t q \<noteq> None \<longrightarrow> length q < length p + n \<and> (\<forall>t'. rd q t' = sys_readdir q t'))"

lemma removable_child: "removable rd (Suc n) p t \<Longrightarrow> removable rd n (p @ [c]) t"
  unfolding removable_def by (auto dest: append_prefixD)

lemma removable_under: "removable rd n p t \<Longrightarrow> only_under p' t t' \<Longrightarrow> removable rd n p t'"
  unfolding removable_def only_under_def by metis

lemma remove_path_done:
  assumes "calm w" "fs_wf (sw_fs w)" "fs_at (sw_fs w) p = Some e" "e = EDir \<longrightarrow> child_names (sw_fs w) p = []"
  shows "remove_path p w = (Inr (), w\<lparr>sw_fs := fs_drop p (sw_fs w)\<rparr>)"
proof -
  have "sys_stat p (sw_fs w) = Inr e" using sys_stat_Inr [OF assms(2)] assms(3) by simp
  then have "sys_remove p (sw_fs w) = Inr (fs_drop p (sw_fs w))"
    using assms(4) by (cases e) (simp_all add: sys_remove_def)
  then show ?thesis by (simp add: remove_path_def calm_simps [OF assms(1)])
qed

lemma remove_entries_done:
  assumes f: "\<And>c w. calm w \<Longrightarrow> fs_wf (sw_fs w) \<Longrightarrow> P c (sw_fs w) \<Longrightarrow> fs_at (sw_fs w) (p @ [c]) \<noteq> None \<Longrightarrow>
      \<exists>w'. f (p @ [c]) w = (Inr (), w') \<and> calm w' \<and> fs_wf (sw_fs w') \<and> only_under (p @ [c]) (sw_fs w) (sw_fs w') \<and>
        fs_at (sw_fs w') (p @ [c]) = None"
    and P: "\<And>c d t t'. P c t \<Longrightarrow> only_under (p @ [d]) t t' \<Longrightarrow> P c t'"
  shows "calm w \<Longrightarrow> fs_wf (sw_fs w) \<Longrightarrow> \<forall>c\<in>set cs. P c (sw_fs w) \<and> fs_at (sw_fs w) (p @ [c]) \<noteq> None \<Longrightarrow> distinct cs \<Longrightarrow>
    \<exists>w'. remove_entries f p cs w = (Inr (), w') \<and> calm w' \<and> fs_wf (sw_fs w') \<and> only_under p (sw_fs w) (sw_fs w') \<and>
      fs_at (sw_fs w') p = fs_at (sw_fs w) p \<and> (\<forall>c\<in>set cs. fs_at (sw_fs w') (p @ [c]) = None)"
proof (induction cs arbitrary: w)
  case (Cons c cs)
  then obtain w1 where w1: "f (p @ [c]) w = (Inr (), w1)" "calm w1" "fs_wf (sw_fs w1)"
    "only_under (p @ [c]) (sw_fs w) (sw_fs w1)" "fs_at (sw_fs w1) (p @ [c]) = None"
    using f [of w c] by auto
  have "\<forall>d\<in>set cs. P d (sw_fs w1) \<and> fs_at (sw_fs w1) (p @ [d]) \<noteq> None"
  proof
    fix d assume d: "d \<in> set cs"
    have "\<not> prefix (p @ [c]) (p @ [d])" using d Cons.prems(4) by auto
    then have "fs_at (sw_fs w1) (p @ [d]) = fs_at (sw_fs w) (p @ [d])" using w1(4) unfolding only_under_def by blast
    then show "P d (sw_fs w1) \<and> fs_at (sw_fs w1) (p @ [d]) \<noteq> None"
      using Cons.prems(3) d P [OF _ w1(4)] by auto
  qed
  from Cons.IH [OF w1(2,3) this] Cons.prems(4) obtain w2 where w2: "remove_entries f p cs w1 = (Inr (), w2)" "calm w2"
    "fs_wf (sw_fs w2)" "only_under p (sw_fs w1) (sw_fs w2)" "fs_at (sw_fs w2) p = fs_at (sw_fs w1) p"
    "\<forall>c\<in>set cs. fs_at (sw_fs w2) (p @ [c]) = None" by auto
  have "\<not> prefix (p @ [c]) p" by (simp add: prefix_def)
  then have "fs_at (sw_fs w1) p = fs_at (sw_fs w) p" using w1(4) unfolding only_under_def by blast
  moreover
  have "fs_at (sw_fs w2) (p @ [c]) = None" using w1(5) w2(4) unfolding only_under_def by metis
  moreover have "only_under p (sw_fs w) (sw_fs w2)"
    using only_under_trans [OF only_under_child [OF w1(4)] w2(4)] .
  ultimately show ?case using w1(1) w2 Cons.prems(1) by (simp add: calm_simps)
qed auto

lemma distinct_child_names:
  assumes "fs_wf t"
  shows "distinct (child_names t p)"
proof -
  have "inj_on last {q. q \<noteq> [] \<and> butlast q = p}"
    by (rule inj_onI) (metis (mono_tags, lifting) append_butlast_last_id mem_Collect_eq)
  then have "inj_on last (set (filter (\<lambda>q. q \<noteq> [] \<and> butlast q = p) (map fst t)))"
    by (rule inj_on_subset) auto
  moreover have "distinct (filter (\<lambda>q. q \<noteq> [] \<and> butlast q = p) (map fst t))"
    using assms by (simp add: fs_wf_def)
  ultimately show ?thesis by (simp only: child_names_def distinct_sort distinct_map)
qed

lemma remove_tree_done:
  "calm w \<Longrightarrow> fs_wf (sw_fs w) \<Longrightarrow> removable rd n p (sw_fs w) \<Longrightarrow> fs_at (sw_fs w) p \<noteq> None \<Longrightarrow> p \<noteq> [] \<Longrightarrow>
   \<exists>w'. remove_tree rd n p w = (Inr (), w') \<and> calm w' \<and> fs_wf (sw_fs w') \<and> only_under p (sw_fs w) (sw_fs w') \<and>
     fs_at (sw_fs w') p = None"
proof (induction n arbitrary: p w)
  case 0
  then show ?case by (auto simp: removable_def)
next
  case (Suc n)
  obtain e where e: "fs_at (sw_fs w) p = Some e" using Suc.prems(4) by auto
  have st: "sys_stat p (sw_fs w) = Inr e" using sys_stat_Inr [OF Suc.prems(2)] e by simp
  have fin: "\<exists>w'. remove_path p w1 = (Inr (), w') \<and> calm w' \<and> fs_wf (sw_fs w') \<and>
      only_under p (sw_fs w1) (sw_fs w') \<and> fs_at (sw_fs w') p = None"
    if "calm w1" "fs_wf (sw_fs w1)" "fs_at (sw_fs w1) p = Some e1" "e1 = EDir \<longrightarrow> child_names (sw_fs w1) p = []" for w1 e1
  proof -
    note d = remove_path_done [OF that]
    from remove_path_spec [OF d that(2) Suc.prems(5)] d that(1) Suc.prems(5) show ?thesis
      by (simp add: fs_at_drop)
  qed
  show ?case
  proof (cases e)
    case (EFile b)
    with st Suc.prems(1) fin [OF Suc.prems(1,2) e] show ?thesis by (simp add: calm_simps)
  next
    case EDir
    let ?names = "child_names (sw_fs w) p"
    have rd: "rd p (sw_fs w) = Inr ?names"
      using Suc.prems(3) e EDir st by (auto simp: removable_def sys_readdir_def)
    have "\<forall>c\<in>set ?names. removable rd n (p @ [c]) (sw_fs w) \<and> fs_at (sw_fs w) (p @ [c]) \<noteq> None"
      using removable_child [OF Suc.prems(3)] child_names_mem [OF Suc.prems(2)] by blast
    then have "\<exists>w'. remove_entries (remove_tree rd n) p ?names w = (Inr (), w') \<and> calm w' \<and> fs_wf (sw_fs w') \<and>
        only_under p (sw_fs w) (sw_fs w') \<and> fs_at (sw_fs w') p = fs_at (sw_fs w) p \<and>
        (\<forall>c\<in>set ?names. fs_at (sw_fs w') (p @ [c]) = None)"
    proof (rule remove_entries_done [rotated -2, where P = "\<lambda>c t. removable rd n (p @ [c]) t"])
      fix c w1 assume "calm w1" "fs_wf (sw_fs w1)" "removable rd n (p @ [c]) (sw_fs w1)" "fs_at (sw_fs w1) (p @ [c]) \<noteq> None"
      from Suc.IH [OF this] show "\<exists>w'. remove_tree rd n (p @ [c]) w1 = (Inr (), w') \<and> calm w' \<and> fs_wf (sw_fs w') \<and>
          only_under (p @ [c]) (sw_fs w1) (sw_fs w') \<and> fs_at (sw_fs w') (p @ [c]) = None" by simp
    qed (use removable_under Suc.prems(1,2) distinct_child_names in blast)+
    then obtain w1 where w1: "remove_entries (remove_tree rd n) p ?names w = (Inr (), w1)" "calm w1" "fs_wf (sw_fs w1)"
      "only_under p (sw_fs w) (sw_fs w1)" "\<forall>c\<in>set ?names. fs_at (sw_fs w1) (p @ [c]) = None"
      "fs_at (sw_fs w1) p = Some e" using e by auto
    have "c \<notin> set (child_names (sw_fs w1) p)" for c
        using w1(4,5) child_names_mem [OF w1(3), of c p] child_names_mem [OF Suc.prems(2), of c p]
        unfolding only_under_def by metis
      then have "child_names (sw_fs w1) p = []" by (meson last_in_set)
      from fin [OF w1(2,3,6)] this obtain w2 where "remove_path p w1 = (Inr (), w2)" "calm w2" "fs_wf (sw_fs w2)"
        "only_under p (sw_fs w1) (sw_fs w2)" "fs_at (sw_fs w2) p = None" by blast
      with w1 EDir st rd Suc.prems(1) only_under_trans [OF w1(4)] show ?thesis by (simp add: calm_simps)
  qed
qed

end
