(* ===== verification/LocalProps.thy ===== *)
theory LocalProps
  imports LocalVolume
begin

text \<open>
  The properties of the local-volume engine, stated over volumes: containment and
  well-formedness for every verb, atomic no-replace writes, exact moves and removals, exact
  listings that hide the staging area, and a lifecycle that keeps owner data on provisioning
  and erases it on teardown.
\<close>

section \<open>Moves\<close>

definition moved :: "fpath \<Rightarrow> fpath \<Rightarrow> (fpath \<Rightarrow> entry option) \<Rightarrow> fpath \<Rightarrow> entry option" where
  "moved src dst m p =
     (if prefix dst p then m (src @ drop (length dst) p) else if prefix src p then None else m p)"

lemma moved_visible:
  assumes "src \<noteq> []" "dst \<noteq> []" "hd src \<noteq> stagingDirName" "hd dst \<noteq> stagingDirName"
    "\<And>p. fs_at t' p = moved src dst (fs_at t) p"
  shows "visible t' = moved src dst (visible t)"
proof
  fix p
  have "prefix dst p \<Longrightarrow> p \<noteq> [] \<and> hd p = hd dst" "prefix src p \<Longrightarrow> p \<noteq> [] \<and> hd p = hd src"
    "hd (src @ drop (length dst) p) = hd src"
    using assms(1,2) by (auto simp: prefix_def)
  with assms show "visible t' p = moved src dst (visible t) p" by (auto simp: visible_def moved_def)
qed

lemma rename_replace_spec:
  assumes "rename_replace src dst w = (r, w')" "fs_wf (sw_fs w)" "src \<noteq> []" "dst \<noteq> []" "list_all plain_comp dst"
  shows "fs_wf (sw_fs w') \<and>
    (case r of
       Inl _ \<Rightarrow> sw_fs w' = sw_fs w
     | Inr _ \<Rightarrow> fs_at (sw_fs w) src \<noteq> None \<and>
         (if src = dst then sw_fs w' = sw_fs w else (\<forall>p. fs_at (sw_fs w') p = moved src dst (fs_at (sw_fs w)) p)))"
proof -
  obtain s w1 where s: "sys_set (sys_rename src dst) w = (s, w1)" by fastforce
  show ?thesis
  proof (cases s)
    case (Inl e)
    with s assms(1) have "r = Inl (LinkError e)" "w' = w1" by (auto simp: rename_replace_def)
    with sys_set_Inl [of _ w e w1] s Inl assms(2) show ?thesis by simp
  next
    case (Inr u)
    with s assms(1) have r: "r = Inr ()" "w' = w1" by (auto simp: rename_replace_def)
    have rn: "sys_rename src dst (sw_fs w) = Inr (sw_fs w')" using s Inr r(2) by (auto dest: sys_set_Inr)
    show ?thesis
    proof (cases "src = dst")
      case True
      have "fs_at (sw_fs w) src \<noteq> None"
        using rn sys_stat_Inr [OF assms(2), of src] by (auto simp: sys_rename_def split: sum.splits)
      moreover have "sw_fs w' = sw_fs w"
        using rn True by (auto simp: sys_rename_def split: sum.splits if_splits)
      ultimately show ?thesis using r True assms(2) by simp
    next
      case False
      note m = sys_rename_Inr [OF assms(2-5) rn False]
      from fs_at_move [OF assms(3,4) m(3,2,4,1)] m r False show ?thesis by (simp add: moved_def)
    qed
  qed
qed

lemma rename_dir_noreplace_spec:
  assumes "rename_dir_noreplace src dst w = (r, w')" "fs_wf (sw_fs w)" "src \<noteq> []" "dst \<noteq> []" "list_all plain_comp dst"
  shows "fs_wf (sw_fs w') \<and>
    (case r of
       Inl _ \<Rightarrow> sw_fs w' = sw_fs w
     | Inr _ \<Rightarrow> fs_at (sw_fs w) src \<noteq> None \<and> fs_at (sw_fs w) dst = None \<and>
         (\<forall>p. fs_at (sw_fs w') p = moved src dst (fs_at (sw_fs w)) p))"
proof -
  obtain s w1 where s: "sys_get (sys_stat dst) w = (s, w1)" by fastforce
  have fs1: "sw_fs w1 = sw_fs w" by (rule sys_get_fs [OF s])
  show ?thesis
  proof (cases "\<exists>e. s = Inl e \<and> is_not_exist e")
    case False
    with s assms(1) have "\<exists>e. r = Inl e" "w' = w1"
      by (auto simp: rename_dir_noreplace_def split: sum.splits if_splits)
    with fs1 assms(2) show ?thesis by auto
  next
    case True
    with s have "sys_stat dst (sw_fs w) = Inl ENOENT"
      by (auto simp: sys_get_def is_not_exist_def split: prod.splits if_splits)
    then have none: "fs_at (sw_fs w) dst = None" by (rule sys_stat_Inl [OF assms(2)])
    from True s assms(1) have "rename_replace src dst w1 = (r, w')"
      by (auto simp: rename_dir_noreplace_def)
    from rename_replace_spec [OF this] assms(2-5) fs1 none show ?thesis by (cases r) (auto split: if_splits)
  qed
qed

lemma rename_file_noreplace_spec:
  assumes "rename_file_noreplace src dst w = (r, w')" "fs_wf (sw_fs w)" "src \<noteq> []" "dst \<noteq> []" "list_all plain_comp dst"
  shows "fs_wf (sw_fs w') \<and>
    (case r of
       Inl e \<Rightarrow> (\<forall>p. fs_at (sw_fs w') p = fs_at (sw_fs w) p) \<or>
         e = PathError EIO \<and> fs_at (sw_fs w) dst = None \<and>
         (\<forall>p. fs_at (sw_fs w') p = (if p = dst then fs_at (sw_fs w) src else fs_at (sw_fs w) p))
     | Inr _ \<Rightarrow> fs_at (sw_fs w) src \<noteq> None \<and> fs_at (sw_fs w) dst = None \<and>
         (\<forall>p. fs_at (sw_fs w') p = moved src dst (fs_at (sw_fs w)) p))"
proof -
  obtain s w1 where s: "sys_set (sys_link src dst) w = (s, w1)" by fastforce
  show ?thesis
  proof (cases s)
    case (Inl e)
    with s assms(1) have "\<exists>e. r = Inl e" "w' = w1" by (auto simp: rename_file_noreplace_def)
    with sys_set_Inl [of _ w e w1] s Inl assms(2) show ?thesis by auto
  next
    case (Inr u)
    have ln: "sys_link src dst (sw_fs w) = Inr (sw_fs w1)" using s Inr by (auto dest: sys_set_Inr)
    note l = sys_link_Inr [OF assms(2,4,5) ln]
    from l(1) obtain b where b: "fs_at (sw_fs w) src = Some (EFile b)" "sw_fs w1 = fs_put dst (EFile b) (sw_fs w)" by auto
    have ne: "src \<noteq> dst" using l(2) b(1) by auto
    have at1: "fs_at (sw_fs w1) p = (if p = dst then Some (EFile b) else fs_at (sw_fs w) p)" for p
      using b(2) assms(4) by (simp add: fs_at_put)
    obtain s2 w2 where s2: "sys_set (sys_remove src) w1 = (s2, w2)" by fastforce
    show ?thesis
    proof (cases s2)
      case i2: (Inl e)
      have fs2: "sw_fs w2 = sw_fs w1" using sys_set_Inl [of _ w1 e w2] s2 i2 by simp
      have "sys_stat src (sw_fs w1) = Inr (EFile b)" using sys_stat_Inr [OF l(3)] at1 b(1) ne by simp
      then have "e = EIO"
        using s2 i2 by (auto simp: sys_set_def sys_remove_def split: prod.splits if_splits)
      then have r: "r = Inl (PathError EIO)" "w' = snd (sys_set (sys_remove dst) w2)"
        using s2 i2 assms(1) s Inr by (auto simp: rename_file_noreplace_def)
      obtain s3 where s3: "sys_set (sys_remove dst) w2 = (s3, w')" using r(2) by (metis prod.collapse)
      show ?thesis
      proof (cases s3)
        case (Inl e3)
        then have "sw_fs w' = sw_fs w1" using sys_set_Inl [of _ w2 e3 w'] s3 fs2 by simp
        with r at1 b l(2,3) show ?thesis by auto
      next
        case (Inr u3)
        then have "sys_remove dst (sw_fs w1) = Inr (sw_fs w')" using s3 fs2 by (auto dest: sys_set_Inr)
        note rm = sys_remove_Inr [OF l(3) assms(4) this]
        have "fs_at (sw_fs w') p = fs_at (sw_fs w) p" for p
          using at1 l(2) assms(4) by (auto simp: rm(3) fs_at_drop)
        with r rm(4) show ?thesis by simp
      qed
    next
      case i2: (Inr u2)
      have "sys_remove src (sw_fs w1) = Inr (sw_fs w2)" using s2 i2 by (auto dest: sys_set_Inr)
      note rm = sys_remove_Inr [OF l(3) assms(3) this]
      have r: "r = Inr ()" "w' = w2" using s2 i2 assms(1) s Inr by (auto simp: rename_file_noreplace_def)
      have bs: "fs_at (sw_fs w) (src @ x) = None" if "x \<noteq> []" for x by (rule file_no_below [OF assms(2) b(1) that])
      have bd: "fs_at (sw_fs w) (dst @ x) = None" for x by (rule no_entry_below [OF assms(2) l(2)])
      have "fs_at (sw_fs w2) p = moved src dst (fs_at (sw_fs w)) p" for p
      proof (cases "prefix dst p")
        case True
        then obtain x where x: "p = dst @ x" by (auto simp: prefix_def)
        show ?thesis
        proof (cases "x = []")
          case True
          with x at1 b(1) ne assms(3) show ?thesis by (simp add: rm(3) fs_at_drop moved_def)
        next
          case False
          with x at1 bs bd assms(3) show ?thesis by (auto simp: rm(3) fs_at_drop moved_def)
        qed
      next
        case False
        then have "p \<noteq> dst" by auto
        moreover have "prefix src p \<Longrightarrow> p \<noteq> src \<Longrightarrow> fs_at (sw_fs w) p = None"
          using bs by (elim prefixE) simp
        ultimately show ?thesis using False at1 assms(3) by (auto simp: rm(3) fs_at_drop moved_def)
      qed
      with r rm(4) b(1) l(2) show ?thesis by simp
    qed
  qed
qed

section \<open>Every verb is contained\<close>

lemma keepsI: "(\<And>w r w'. body w = (r, w') \<Longrightarrow> fs_wf (sw_fs w) \<Longrightarrow> fs_wf (sw_fs w')) \<Longrightarrow> keeps body"
  by (auto simp: keeps_def)

lemma keepsD: "keeps body \<Longrightarrow> body w = (r, w') \<Longrightarrow> fs_wf (sw_fs w) \<Longrightarrow> fs_wf (sw_fs w')"
  by (auto simp: keeps_def)

lemma keeps_guest:
  assumes "\<And>q. guestPath p = Inr q \<Longrightarrow> keeps (body q)"
  shows "keeps (\<lambda>w. case guestPath p of Inl e \<Rightarrow> (Inl e, w) | Inr q \<Rightarrow> body q w)"
  using assms by (cases "guestPath p") (auto simp: keeps_def)

lemma list_infos_fs: "list_infos p cs w = (r, w') \<Longrightarrow> sw_fs w' = sw_fs w"
proof (induction p cs w arbitrary: r w' rule: list_infos.induct)
  case (2 p c cs w)
  obtain s w1 where s: "sys_get (sys_stat (p @ [c])) w = (s, w1)" by fastforce
  obtain r2 w2 where r2: "list_infos p cs w1 = (r2, w2)" by fastforce
  have fs: "sw_fs w1 = sw_fs w" by (rule sys_get_fs [OF s])
  show ?case
  proof (cases "p = [] \<and> c = stagingDirName")
    case True
    with 2 show ?thesis by simp
  next
    case nf: False
    show ?thesis
    proof (cases s)
      case (Inl e)
      with 2(3) s fs nf show ?thesis by auto
    next
      case (Inr en)
      with 2(2) [OF nf s [symmetric] Inr r2] r2 2(3) s fs nf show ?thesis by (cases r2) auto
    qed
  qed
qed simp

lemma list_body_fs: "list_body p w = (r, w') \<Longrightarrow> sw_fs w' = sw_fs w"
proof -
  assume a: "list_body p w = (r, w')"
  obtain s w1 where s: "sys_get (rootfs_readdir p) w = (s, w1)" by fastforce
  with a list_infos_fs [of p _ w1 r w'] sys_get_fs [OF s] show ?thesis
    by (cases s) (auto simp: list_body_def)
qed

lemma keeps_read:
  assumes "\<And>w r w'. body w = (r, w') \<Longrightarrow> sw_fs w' = sw_fs w"
  shows "keeps body"
  using assms by (auto simp: keeps_def)

lemma read_loop_fs: "read_loop full cs w = (out, e, w') \<Longrightarrow> sw_fs w' = sw_fs w"
proof (induction full cs w arbitrary: out e w' rule: read_loop.induct)
  case (1 full w)
  obtain c w1 b w2 where c: "consult w = (c, w1)" "fault w1 = (b, w2)" by fastforce
  with 1 consult_fs [OF c(1)] fault_fs [OF c(2)] show ?case by (auto simp: Let_def split: if_splits)
next
  case (2 full x xs w)
  obtain c w1 b w2 where c: "consult w = (c, w1)" "fault w1 = (b, w2)" by fastforce
  obtain b3 w3 where f3: "fault w2 = (b3, w3)" by fastforce
  obtain o4 e4 w4 where r4: "read_loop full xs w3 = (o4, e4, w4)" using prod_cases3 by blast
  have fs: "sw_fs w1 = sw_fs w" "sw_fs w2 = sw_fs w" "sw_fs w3 = sw_fs w"
    using consult_fs [OF c(1)] fault_fs [OF c(2)] fault_fs [OF f3] by simp_all
  show ?case
  proof (cases "c \<or> b \<or> b3")
    case True
    with 2(2) c f3 fs r4 show ?thesis by (auto simp: Let_def split: if_splits)
  next
    case False
    have "sw_fs w4 = sw_fs w3" using 2(1) [OF c(1) [symmetric] _ c(2) [symmetric] _ f3 [symmetric]] False r4 by blast
    with 2(2) c f3 fs r4 False show ?thesis by (auto simp: Let_def)
  qed
qed

lemma read_window_fs: "read_window en offset len w = (out, e, w') \<Longrightarrow> sw_fs w' = sw_fs w"
proof (cases en)
  case (EFile b)
  assume "read_window en offset len w = (out, e, w')"
  with EFile show ?thesis using read_loop_fs by (simp add: read_window_def Let_def)
next
  case EDir
  obtain c w1 where c: "consult w = (c, w1)" by fastforce
  assume "read_window en offset len w = (out, e, w')"
  with EDir c consult_fs [OF c] show ?thesis by (auto simp: read_window_def Let_def split: if_splits)
qed

lemma refuse_existing_fs: "refuse_existing ow dst w = (r, w') \<Longrightarrow> sw_fs w' = sw_fs w"
proof -
  assume a: "refuse_existing ow dst w = (r, w')"
  obtain s w1 where s: "sys_get (sys_stat dst) w = (s, w1)" by fastforce
  with a sys_get_fs [OF s] show ?thesis
    by (auto simp: refuse_existing_def split: if_splits sum.splits)
qed

lemma fault_reads: "\<forall>w. sw_fs (snd (fault w)) = sw_fs w" "\<forall>w. sw_fs (snd (Pair False w)) = sw_fs w"
  using fault_fs by (auto, metis prod.collapse)

lemma keeps_write:
  assumes g: "guestPath p = Inr q" and rd: "\<forall>w. sw_fs (snd (rd w)) = sw_fs w"
  shows "keeps (writeTempAndCommit rnd rd q rr replace)"
  using writeTempAndCommit_spec [OF _ rd _ g] by (auto simp: keeps_def)

lemma keeps_remove_path: "p \<noteq> [] \<Longrightarrow> keeps (remove_path p)"
  using remove_path_spec by (auto simp: keeps_def)

lemma sys_readdir_or: "rootfs_readdir p t = sys_readdir p t \<or> rootfs_readdir p t = Inl EINVAL"
  by (simp add: rootfs_readdir_def)

lemma removeAllUnderRoot_spec:
  assumes "removeAllUnderRoot q w = (r, w')" "fs_wf (sw_fs w)"
  shows "fs_wf (sw_fs w') \<and> only_under (comps q) (sw_fs w) (sw_fs w') \<and>
    (\<forall>x. r = Inr x \<longrightarrow> (\<forall>u. fs_at (sw_fs w') (comps q @ u) = None))"
  using remove_tree_spec [OF sys_readdir_or assms [unfolded removeAllUnderRoot_def]] by (simp add: comps_def)

lemma removeAllCtx_spec:
  assumes "removeAllCtx p w = (r, w')" "fs_wf (sw_fs w)" "p \<noteq> []"
  shows "fs_wf (sw_fs w') \<and> only_under p (sw_fs w) (sw_fs w') \<and>
    (\<forall>x. r = Inr x \<longrightarrow> (\<forall>u. fs_at (sw_fs w') (p @ u) = None))"
  using remove_tree_spec [OF disjI1 [OF refl] assms(1) [unfolded removeAllCtx_def] assms(2,3)] .

lemma contained_List: "contained s (local_List s p)"
  unfolding local_List_def
proof (intro contained_with_ctx contained_with_scope keeps_read)
  fix w r w'
  assume "(if p = dot then list_body [] w else case guestPath p of Inl e \<Rightarrow> (Inl e, w) | Inr q \<Rightarrow> list_body (comps q) w) = (r, w')"
  then show "sw_fs w' = sw_fs w" using list_body_fs by (auto split: if_splits sum.splits)
qed

lemma contained_Stat: "contained s (local_Stat s p)"
  unfolding local_Stat_def
  by (intro contained_with_ctx contained_with_scope keeps_read)
    (auto dest: sys_get_fs split: sum.splits prod.splits)

lemma contained_MakeDir: "contained s (local_MakeDir s p)"
  unfolding local_MakeDir_def
proof (intro contained_with_ctx contained_with_scope keeps_guest keepsI)
  fix q w r w'
  assume g: "guestPath p = Inr q" and wf: "fs_wf (sw_fs w)"
    and a: "(case sys_set (sys_mkdir (comps q)) w of (Inl e, w1) \<Rightarrow> (Inl (PathError e), w1) | (Inr _, w1) \<Rightarrow> (Inr (), w1)) = (r, w')"
  obtain m w1 where m: "sys_set (sys_mkdir (comps q)) w = (m, w1)" by fastforce
  show "fs_wf (sw_fs w')"
  proof (cases m)
    case (Inl e)
    with a m sys_set_Inl [of _ w e w1] wf show ?thesis by auto
  next
    case (Inr u)
    with m have "sys_mkdir (comps q) (sw_fs w) = Inr (sw_fs w1)" by (auto dest: sys_set_Inr)
    from sys_mkdir_Inr(4) [OF wf comps_guest(1,2) [OF g] this] a m Inr show ?thesis by auto
  qed
qed

text \<open>The body that the two moving verbs share.\<close>

definition rename_body :: "string \<Rightarrow> string \<Rightarrow> bool \<Rightarrow> sworld \<Rightarrow> (store_err, unit) res \<times> sworld" where
  "rename_body qs qd overwrite w =
     (if overwrite then rename_replace (comps qs) (comps qd) w
      else (case sys_get (sys_stat (comps qs)) w of
              (Inl e, w1) \<Rightarrow> (Inl (PathError e), w1)
            | (Inr EDir, w1) \<Rightarrow> rename_dir_noreplace (comps qs) (comps qd) w1
            | (Inr (EFile _), w1) \<Rightarrow> rename_file_noreplace (comps qs) (comps qd) w1))"

lemma renameWithin_body:
  "renameWithin s src dst overwrite = with_scope s (\<lambda>w.
     case guestPath src of Inl e \<Rightarrow> (Inl e, w) | Inr qs \<Rightarrow>
       (case guestPath dst of Inl e \<Rightarrow> (Inl e, w) | Inr qd \<Rightarrow> rename_body qs qd overwrite w))"
  unfolding renameWithin_def rename_body_def by (rule refl)

lemma rename_body_spec:
  assumes "rename_body qs qd ow w = (r, w')" "fs_wf (sw_fs w)" "guestPath src = Inr qs" "guestPath dst = Inr qd"
  shows "fs_wf (sw_fs w') \<and>
    (case r of
       Inl e \<Rightarrow> (\<forall>p. fs_at (sw_fs w') p = fs_at (sw_fs w) p) \<or>
         e = PathError EIO \<and> fs_at (sw_fs w) (comps qd) = None \<and>
         (\<forall>p. fs_at (sw_fs w') p = (if p = comps qd then fs_at (sw_fs w) (comps qs) else fs_at (sw_fs w) p))
     | Inr _ \<Rightarrow> fs_at (sw_fs w) (comps qs) \<noteq> None \<and> (\<not> ow \<longrightarrow> fs_at (sw_fs w) (comps qd) = None) \<and>
         (if comps qs = comps qd then sw_fs w' = sw_fs w
          else (\<forall>p. fs_at (sw_fs w') p = moved (comps qs) (comps qd) (fs_at (sw_fs w)) p)))"
proof -
  note gs = comps_guest(1) [OF assms(3)] and gd = comps_guest(1,2) [OF assms(4)]
  show ?thesis
  proof (cases ow)
    case True
    with assms(1) have "rename_replace (comps qs) (comps qd) w = (r, w')" by (simp add: rename_body_def)
    from rename_replace_spec [OF this assms(2) gs gd] True show ?thesis by (cases r) auto
  next
    case no: False
    obtain st w1 where st: "sys_get (sys_stat (comps qs)) w = (st, w1)" by fastforce
    have fs: "sw_fs w1 = sw_fs w" by (rule sys_get_fs [OF st])
    show ?thesis
    proof (cases st)
      case (Inl e)
      with st no assms(1,2) fs show ?thesis by (auto simp: rename_body_def)
    next
      case (Inr en)
      show ?thesis
      proof (cases en)
        case EDir
        with Inr st no assms(1) have "rename_dir_noreplace (comps qs) (comps qd) w1 = (r, w')"
          by (simp add: rename_body_def)
        from rename_dir_noreplace_spec [OF this _ gs gd] assms(2) fs show ?thesis by (cases r) auto
      next
        case (EFile b)
        with Inr st no assms(1) have "rename_file_noreplace (comps qs) (comps qd) w1 = (r, w')"
          by (simp add: rename_body_def)
        from rename_file_noreplace_spec [OF this _ gs gd] assms(2) fs show ?thesis by (cases r) auto
      qed
    qed
  qed
qed

lemma contained_renameWithin: "contained s (renameWithin s src dst ow)"
  unfolding renameWithin_body
  by (intro contained_with_scope keeps_guest keepsI) (use rename_body_spec in blast)

lemma contained_RemoveDir: "contained s (local_RemoveDir s p)"
  unfolding local_RemoveDir_def
  by (intro contained_with_ctx contained_with_scope keeps_guest keepsI) (use removeAllUnderRoot_spec in blast)

lemma contained_RemoveFile: "contained s (local_RemoveFile s p)"
  unfolding local_RemoveFile_def
  by (intro contained_with_ctx contained_with_scope keeps_guest keeps_remove_path) (simp add: comps_def)

lemma contained_ReadRange: "contained s (local_ReadRange s p offset len)"
proof (cases "sint offset < 0 \<or> sint len < 0")
  case True
  then show ?thesis by (auto simp: contained_def local_ReadRange_def)
next
  case False
  let ?body = "\<lambda>w. case guestPath p of Inl e \<Rightarrow> (Inl e, w) | Inr q \<Rightarrow>
      (case sys_get (sys_stat (comps q)) w of
         (Inl e, w1) \<Rightarrow> (Inl (PathError e), w1)
       | (Inr en, w1) \<Rightarrow>
           (let (seek_bad, w2) = (if 0 < sint offset then fault w1 else (False, w1)) in
            if seek_bad then (Inl (PathError EIO), w2)
            else (case read_window en offset len w2 of (out, e, w3) \<Rightarrow> (Inr (out, e), w3))))"
  have "local_ReadRange s p offset len = with_scope s ?body"
    by (rule ext) (use False in \<open>simp add: local_ReadRange_def\<close>)
  moreover have "keeps ?body"
  proof (intro keeps_guest keeps_read)
    fix q w r w'
    assume a: "(case sys_get (sys_stat (comps q)) w of
         (Inl e, w1) \<Rightarrow> (Inl (PathError e), w1)
       | (Inr en, w1) \<Rightarrow>
           (let (seek_bad, w2) = (if 0 < sint offset then fault w1 else (False, w1)) in
            if seek_bad then (Inl (PathError EIO), w2)
            else (case read_window en offset len w2 of (out, e, w3) \<Rightarrow> (Inr (out, e), w3)))) = (r, w')"
    obtain st w1 where st: "sys_get (sys_stat (comps q)) w = (st, w1)" by fastforce
    obtain b w2 where b: "(if 0 < sint offset then fault w1 else (False, w1)) = (b, w2)" by fastforce
    have fs: "sw_fs w2 = sw_fs w" using sys_get_fs [OF st] b fault_fs [of w1 b w2] by (auto split: if_splits)
    show "sw_fs w' = sw_fs w"
    proof (cases st)
      case (Inl e)
      with a st sys_get_fs [OF st] show ?thesis by auto
    next
      case (Inr en)
      obtain out e w3 where r3: "read_window en offset len w2 = (out, e, w3)" using prod_cases3 by blast
      with a st Inr b fs read_window_fs [OF r3] show ?thesis by (auto simp: Let_def split: if_splits)
    qed
  qed
  ultimately show ?thesis by (simp add: contained_with_scope)
qed

lemma write_stream_body:
  assumes a: "(case refuse_existing ow (comps q) w of (Inl e, w1) \<Rightarrow> (Inl e, w1)
      | (Inr _, w1) \<Rightarrow> (case writeTempAndCommit rnd (Pair False) q rr ow w1 of
            (Inl e, w2) \<Rightarrow> (Inl e, w2) | (Inr _, w2) \<Rightarrow> (Inr (digest :: string), w2))) = (r, w')"
    and wf: "fs_wf (sw_fs w)" and g: "guestPath p = Inr q"
  shows "fs_wf (sw_fs w') \<and>
    (case r of
       Inl _ \<Rightarrow> visible (sw_fs w') = visible (sw_fs w)
     | Inr d \<Rightarrow> visible (sw_fs w') = (visible (sw_fs w)) (comps q \<mapsto> EFile (concat (fst rr))) \<and> d = digest \<and>
         snd rr = None \<and> (\<not> ow \<longrightarrow> visible (sw_fs w) (comps q) = None))"
proof -
  obtain r1 w1 where r1: "refuse_existing ow (comps q) w = (r1, w1)" by fastforce
  have fs: "sw_fs w1 = sw_fs w" by (rule refuse_existing_fs [OF r1])
  obtain r2 w2 where r2: "writeTempAndCommit rnd (Pair False) q rr ow w1 = (r2, w2)" by fastforce
  note sp = writeTempAndCommit_spec [OF r2 fault_reads(2) _ g]
  show ?thesis
  proof (cases r1)
    case (Inl e)
    with a r1 fs wf show ?thesis by auto
  next
    case i1: (Inr u)
    with a r1 r2 sp fs wf show ?thesis by (cases r2) auto
  qed
qed

lemma contained_WriteStream: "contained s (local_WriteStream H rnd s p rr ow)"
  unfolding local_WriteStream_def
proof (intro contained_with_scope keeps_guest keepsI)
  fix q w r w'
  assume "guestPath p = Inr q" "fs_wf (sw_fs w)"
    "(case refuse_existing ow (comps q) w of (Inl e, w1) \<Rightarrow> (Inl e, w1)
      | (Inr _, w1) \<Rightarrow> (case writeTempAndCommit rnd (Pair False) q rr ow w1 of
            (Inl e, w2) \<Rightarrow> (Inl e, w2) | (Inr _, w2) \<Rightarrow> (Inr (hex_encode (H (concat (fst rr)))), w2))) = (r, w')"
  from write_stream_body [OF this(3,2,1)] show "fs_wf (sw_fs w')" by simp
qed

lemma contained_CopyFile: "contained s (local_CopyFile rnd s src dst ow)"
  unfolding local_CopyFile_def
proof (intro contained_with_scope keeps_guest keepsI)
  fix q w r w'
  assume g: "guestPath dst = Inr q" and wf: "fs_wf (sw_fs w)"
    and a: "(case refuse_existing ow (comps q) w of (Inl e, w1) \<Rightarrow> (Inl e, w1)
      | (Inr _, w1) \<Rightarrow> (case guestPath src of Inl e \<Rightarrow> (Inl e, w1) | Inr qs \<Rightarrow>
          (case sys_get (sys_stat (comps qs)) w1 of (Inl e, w2) \<Rightarrow> (Inl (PathError e), w2)
           | (Inr en, w2) \<Rightarrow> writeTempAndCommit rnd fault q (file_reader en) ow w2))) = (r, w')"
  obtain r1 w1 where r1: "refuse_existing ow (comps q) w = (r1, w1)" by fastforce
  have fs: "sw_fs w1 = sw_fs w" by (rule refuse_existing_fs [OF r1])
  show "fs_wf (sw_fs w')"
  proof (cases r1)
    case (Inl e)
    with a r1 fs wf show ?thesis by auto
  next
    case i1: (Inr u)
    show ?thesis
    proof (cases "guestPath src")
      case (Inl e)
      with a r1 i1 fs wf show ?thesis by auto
    next
      case i2: (Inr qs)
      obtain st w2 where st: "sys_get (sys_stat (comps qs)) w1 = (st, w2)" by fastforce
      have fs2: "sw_fs w2 = sw_fs w" using sys_get_fs [OF st] fs by simp
      show ?thesis
      proof (cases st)
        case (Inl e)
        with a r1 i1 i2 st fs2 wf show ?thesis by auto
      next
        case (Inr en)
        with a r1 i1 i2 st have "writeTempAndCommit rnd fault q (file_reader en) ow w2 = (r, w')" by simp
        from writeTempAndCommit_spec [OF this fault_reads(1) _ g] fs2 wf show ?thesis by simp
      qed
    qed
  qed
qed

section \<open>Scope lifecycle\<close>

definition data_kept :: "scope_id \<Rightarrow> lvol \<Rightarrow> lvol \<Rightarrow> bool" where
  "data_kept s v v' \<longleftrightarrow> same_elsewhere s v v' \<and> (vol_wf v \<longrightarrow> vol_wf v' \<and> (\<forall>p. p \<noteq> [] \<longrightarrow> visible_at v' s p = visible_at v s p))"

lemma data_kept_trans: "data_kept s u v \<Longrightarrow> data_kept s v w \<Longrightarrow> data_kept s u w"
  unfolding data_kept_def using same_elsewhere_trans by metis

lemma data_kept_base: "lv_base v' = lv_base v \<Longrightarrow> data_kept s v v'"
  unfolding data_kept_def
  using same_elsewhere_base [of v' v] vol_wf_base [of v' v] tree_of_eq [of v' v] visible_at_cong [of v' s v] by simp

lemma tree_of_BDir: "base_at v s = Some (BDir t) \<Longrightarrow> tree_of v s = Some t"
  by (simp add: tree_of_def)

lemma run_in_spec:
  assumes "run_in s t body v = (r, v')" "base_at v s = Some (BDir t)"
  obtains w w' where "sw_fs w = t" "body w = (r, w')" "base_at v' s = Some (BDir (sw_fs w'))" "same_elsewhere s v v'"
proof -
  obtain r1 w' where b: "body (enter t v) = (r1, w')" by fastforce
  have r: "r = r1" "v' = put_tree s (sw_fs w') (leave w' v)" using assms(1) b by (auto simp: run_in_def Let_def)
  have "base_at v' s = Some (BDir (sw_fs w'))" "same_elsewhere s v v'"
    unfolding r using assms(2) by (simp_all add: put_tree_def base_at_put same_elsewhere_def)
  with b r that [of "enter t v" w'] show thesis by simp
qed

lemma data_kept_run_in:
  assumes "run_in s t body v = (r, v')" "base_at v s = Some (BDir t)"
    and body: "\<And>w r w'. body w = (r, w') \<Longrightarrow> fs_wf (sw_fs w) \<Longrightarrow> fs_wf (sw_fs w') \<and> visible (sw_fs w') = visible (sw_fs w)"
  shows "data_kept s v v'"
proof -
  obtain w w' where w: "sw_fs w = t" "body w = (r, w')" "base_at v' s = Some (BDir (sw_fs w'))" "same_elsewhere s v v'"
    using run_in_spec [OF assms(1,2)] by metis
  have t: "tree_of v s = Some t" "tree_of v' s = Some (sw_fs w')" using assms(2) w(3) by (simp_all add: tree_of_BDir)
  have "vol_wf v \<Longrightarrow> fs_wf t" using t(1) by (simp add: vol_wf_def)
  then have b: "vol_wf v \<Longrightarrow> fs_wf (sw_fs w') \<and> visible (sw_fs w') = visible t" using body [OF w(2)] w(1) by simp
  then have "vol_wf v \<Longrightarrow> vol_wf v'" using vol_wf_step [OF _ w(4)] t(2) by simp
  moreover have "visible_at v' s p = visible_at v s p" if "vol_wf v" for p
    using b [OF that] t by (simp add: visible_at_def)
  ultimately show ?thesis using w(4) by (simp add: data_kept_def)
qed

lemma only_under_visible: "only_under (stagingDirName # u) t t' \<Longrightarrow> visible t' = visible t"
proof (rule visible_outside)
  fix p assume o: "only_under (stagingDirName # u) t t'" and p: "p = [] \<or> hd p \<noteq> stagingDirName"
  then have "\<not> prefix (stagingDirName # u) p" by (cases p) auto
  with o show "fs_at t' p = fs_at t p" unfolding only_under_def by blast
qed

lemma sweep_staging_spec:
  assumes "sweep_staging s v = (r, v')" "vol_wf v"
  shows "data_kept s v v' \<and> (\<forall>x. r = Inr x \<longrightarrow> base_at v' s = None \<or>
    (\<exists>t. base_at v' s = Some (BDir t) \<and> (\<forall>u. fs_at t (stagingDirName # u) = None)))"
proof -
  obtain b v1 where b: "vol_fault v = (b, v1)" by fastforce
  have base: "lv_base v1 = lv_base v" by (rule vol_fault_base [OF b])
  note k = data_kept_base [OF base, of s]
  show ?thesis
  proof (cases "b \<or> (\<forall>t. base_at v s \<noteq> Some (BDir t))")
    case True
    then have "v' = v1" "r = Inr x \<Longrightarrow> base_at v s = None" for x
      using assms(1) b by (auto simp: sweep_staging_def Let_def split: if_splits option.splits base_entry.splits)
    with k base_at_eq [OF base] show ?thesis by auto
  next
    case False
    then obtain t where t: "base_at v s = Some (BDir t)" by auto
    with False assms(1) b have run: "run_in s t (removeAllCtx [stagingDirName]) v1 = (r, v')"
      by (simp add: sweep_staging_def Let_def)
    have t1: "base_at v1 s = Some (BDir t)" using t base_at_eq [OF base] by simp
    have d: "data_kept s v1 v'"
      by (rule data_kept_run_in [OF run t1]) (use removeAllCtx_spec only_under_visible in blast)
    obtain w w' where w: "sw_fs w = t" "removeAllCtx [stagingDirName] w = (r, w')" "base_at v' s = Some (BDir (sw_fs w'))"
      using run_in_spec [OF run t1] by metis
    have "fs_wf t" using assms(2) tree_of_BDir [OF t] unfolding vol_wf_def by blast
    with removeAllCtx_spec [OF w(2)] w(1) have "r = Inr x \<Longrightarrow> fs_at (sw_fs w') (stagingDirName # u) = None" for x u by simp
    with w(3) data_kept_trans [OF k d] show ?thesis by auto
  qed
qed

lemma vol_mkdir_all_spec:
  assumes "vol_mkdir_all s v = (r, v')"
  shows "data_kept s v v' \<and>
    (\<forall>x. r = Inr x \<longrightarrow> (base_at v s = None \<longrightarrow> base_at v' s = Some (BDir [])) \<and> (base_at v s \<noteq> None \<longrightarrow> base_at v' s = base_at v s))"
proof -
  obtain b v1 where b: "vol_fault v = (b, v1)" by fastforce
  have base: "lv_base v1 = lv_base v" by (rule vol_fault_base [OF b])
  note k = data_kept_base [OF base, of s]
  show ?thesis
  proof (cases "\<not> b \<and> base_at v s = None")
    case False
    then have "v' = v1" "base_at v s = None \<Longrightarrow> \<exists>e. r = Inl e"
      using assms b by (auto simp: vol_mkdir_all_def Let_def split: if_splits option.splits base_entry.splits)
    with k base_at_eq [OF base] show ?thesis by auto
  next
    case True
    with assms b have v': "v' = base_put s (BDir []) v1" by (simp add: vol_mkdir_all_def Let_def)
    have se: "same_elsewhere s v1 v'" using v' by (simp add: same_elsewhere_def base_at_put)
    have tr: "tree_of v' s = Some []" "tree_of v1 s = None"
      using v' True base_at_eq [OF base] by (simp_all add: tree_of_def base_at_put)
    have "visible_at v' s p = visible_at v1 s p" if "p \<noteq> []" for p
      using tr that by (simp add: visible_at_def visible_def fs_at_empty)
    moreover have "vol_wf v1 \<Longrightarrow> vol_wf v'" using vol_wf_step [OF _ se] tr by simp
    ultimately have "data_kept s v1 v'" using se by (simp add: data_kept_def)
    with data_kept_trans [OF k] v' True show ?thesis by (simp add: base_at_put)
  qed
qed

lemma mkdir_staging_spec:
  assumes "mkdir_staging s v = (r, v')" "vol_wf v" "base_at v s = Some (BDir t)" "\<And>u. fs_at t (stagingDirName # u) = None"
  shows "data_kept s v v' \<and> (\<forall>x. r = Inr x \<longrightarrow>
    (\<exists>t'. base_at v' s = Some (BDir t') \<and> fs_at t' [stagingDirName] = Some EDir \<and>
      (\<forall>u. u \<noteq> [] \<longrightarrow> fs_at t' (stagingDirName # u) = None)))"
proof -
  let ?body = "\<lambda>w. (case sys_set (sys_mkdir [stagingDirName]) w of
       (Inl e, w1) \<Rightarrow> (if is_exist e then Inr () else Inl (PathError e), w1) | (Inr _, w1) \<Rightarrow> (Inr (), w1))"
  have run: "run_in s t ?body v = (r, v')" using assms(1,3) by (simp add: mkdir_staging_def)
  have d: "data_kept s v v'"
  proof (rule data_kept_run_in [OF run assms(3)])
    fix w r w' assume a: "?body w = (r, w')" and wf: "fs_wf (sw_fs w)"
    obtain m w1 where m: "sys_set (sys_mkdir [stagingDirName]) w = (m, w1)" by fastforce
    with a have "w' = w1" by (cases m) auto
    with mkdir_staging_fs [OF m wf] show "fs_wf (sw_fs w') \<and> visible (sw_fs w') = visible (sw_fs w)" by simp
  qed
  obtain w w' where w: "sw_fs w = t" "?body w = (r, w')" "base_at v' s = Some (BDir (sw_fs w'))"
    by (rule run_in_spec [OF run assms(3)])
  obtain m w1 where m: "sys_set (sys_mkdir [stagingDirName]) w = (m, w1)" by fastforce
  have ok: "sys_mkdir [stagingDirName] t = Inr (fs_put [stagingDirName] EDir t)"
    using assms(4) [of "[]"] by (simp add: sys_mkdir_def sys_stat_def)
  have "fs_at (sw_fs w') [stagingDirName] = Some EDir \<and> (\<forall>u. u \<noteq> [] \<longrightarrow> fs_at (sw_fs w') (stagingDirName # u) = None)"
    if "r = Inr x" for x
  proof (cases m)
    case (Inl e)
    then have "e = EIO" using m ok w(1) by (auto simp: sys_set_def split: prod.splits if_splits)
    with Inl m w(2) that show ?thesis by (simp add: is_exist_def)
  next
    case (Inr u)
    then have "sw_fs w1 = fs_put [stagingDirName] EDir t" using ok w(1) sys_set_Inr [OF m [unfolded Inr]] by simp
    moreover have "w' = w1" using w(2) m Inr by simp
    ultimately show ?thesis using assms(4) by (simp add: fs_at_put)
  qed
  with d w(3) show ?thesis by blast
qed

lemma provision_spec:
  assumes "local_ProvisionScope s v = (r, v')" "vol_wf v"
  shows "data_kept s v v' \<and> (\<forall>x. r = Inr x \<longrightarrow>
    (\<exists>t'. base_at v' s = Some (BDir t') \<and> fs_at t' [stagingDirName] = Some EDir \<and>
      (\<forall>u. u \<noteq> [] \<longrightarrow> fs_at t' (stagingDirName # u) = None)))"
  using assms(1) unfolding local_ProvisionScope_def
proof (cases rule: with_ctx_cases)
  case cancelled
  then show ?thesis by (simp add: data_kept_base)
next
  case (run v0)
  have k0: "data_kept s v v0" by (rule data_kept_base [OF run(1)])
  have wf0: "vol_wf v0" using assms(2) vol_wf_base [OF run(1)] by simp
  show ?thesis
  proof (cases "validateScopeID s")
    case (Some e)
    with run k0 show ?thesis by auto
  next
    case None
    obtain r1 v1 where s1: "sweep_staging s v0 = (r1, v1)" by fastforce
    note sw = sweep_staging_spec [OF s1 wf0]
    have k1: "data_kept s v v1" using data_kept_trans [OF k0] sw by blast
    obtain r2 v2 where s2: "vol_mkdir_all s v1 = (r2, v2)" by fastforce
    note mk = vol_mkdir_all_spec [OF s2]
    have k2: "data_kept s v v2" using data_kept_trans [OF k1] mk by blast
    show ?thesis
    proof (cases r1)
      case (Inl e)
      with run None s1 k1 show ?thesis by auto
    next
      case i1: (Inr x1)
      show ?thesis
      proof (cases r2)
        case (Inl e)
        with run None s1 i1 s2 k2 show ?thesis by auto
      next
        case i2: (Inr x2)
        have s3: "mkdir_staging s v2 = (r, v')" using run None s1 i1 s2 i2 by simp
        obtain t where t: "base_at v2 s = Some (BDir t)" "\<And>u. fs_at t (stagingDirName # u) = None"
        proof (cases "base_at v1 s")
          case None
          with mk i2 that [of "[]"] show thesis by (auto simp: fs_at_empty)
        next
          case (Some b)
          with sw i1 mk i2 that show thesis by fastforce
        qed
        have "vol_wf v2" using k2 assms(2) by (simp add: data_kept_def)
        from mkdir_staging_spec [OF s3 this t] data_kept_trans [OF k2] show ?thesis by blast
      qed
    qed
  qed
qed

lemma sys_readdir_keeps: "keeps (remove_entries (remove_tree sys_readdir n) [] names)"
proof (rule keepsI)
  fix w r w'
  assume "remove_entries (remove_tree sys_readdir n) [] names w = (r, w')" "fs_wf (sw_fs w)"
  from remove_entries_spec [OF _ this] remove_tree_spec [of sys_readdir, OF disjI1 [OF refl]]
  show "fs_wf (sw_fs w')" by (metis append_Nil list.distinct(1))
qed

lemma erase_scope_spec:
  assumes "erase_scope s t v = (r, v')" "base_at v s = Some (BDir t)"
  shows "same_elsewhere s v v' \<and> (vol_wf v \<longrightarrow> vol_wf v') \<and> (\<forall>x. r = Inr x \<longrightarrow> base_at v' s = None)"
proof -
  let ?body = "\<lambda>w. (let (cancelled, w1) = consult w; (lstat_bad, w2) = fault w1 in
         if cancelled then (Inl CtxErr, w1)
         else if lstat_bad then (Inl (PathError EIO), w2)
         else (case sys_get (sys_readdir []) w2 of
                 (Inl e, w3) \<Rightarrow> (Inl (PathError e), w3)
               | (Inr names, w3) \<Rightarrow> remove_entries (remove_tree sys_readdir (fs_depth t)) [] names w3))"
  obtain r1 v1 where run: "run_in s t ?body v = (r1, v1)" by fastforce
  obtain w w' where w: "sw_fs w = t" "?body w = (r1, w')" "base_at v1 s = Some (BDir (sw_fs w'))" "same_elsewhere s v v1"
    by (rule run_in_spec [OF run assms(2)])
  have k: "fs_wf t \<Longrightarrow> fs_wf (sw_fs w')"
  proof -
    assume wf: "fs_wf t"
    obtain c w1 b w2 where c: "consult w = (c, w1)" "fault w1 = (b, w2)" by fastforce
    obtain n w3 where n: "sys_get (sys_readdir []) w2 = (n, w3)" by fastforce
    have fs: "sw_fs w1 = t" "sw_fs w2 = t" "sw_fs w3 = t"
      using consult_fs [OF c(1)] fault_fs [OF c(2)] sys_get_fs [OF n] w(1) by simp_all
    show ?thesis
    proof (cases "c \<or> b \<or> (\<exists>e. n = Inl e)")
      case True
      with w(2) c n fs wf show ?thesis by (auto simp: Let_def split: if_splits)
    next
      case False
      then obtain names where "n = Inr names" by (cases n) auto
      with w(2) c n False have "remove_entries (remove_tree sys_readdir (fs_depth t)) [] names w3 = (r1, w')"
        by (simp add: Let_def)
      from keepsD [OF sys_readdir_keeps this] fs wf show ?thesis by simp
    qed
  qed
  have wf1: "vol_wf v \<Longrightarrow> vol_wf v1"
  proof (rule vol_wf_step [OF _ w(4)])
    fix t' assume "vol_wf v" "tree_of v1 s = Some t'"
    then show "fs_wf t'" using k tree_of_BDir [OF assms(2)] tree_of_BDir [OF w(3)] unfolding vol_wf_def by auto
  qed
  obtain b v2 where b: "vol_fault v1 = (b, v2)" by fastforce
  note base = vol_fault_base [OF b]
  have se2: "same_elsewhere s v v2" using same_elsewhere_trans [OF w(4) same_elsewhere_base [OF base]] .
  have wf2: "vol_wf v \<Longrightarrow> vol_wf v2" using wf1 vol_wf_base [OF base] by simp
  show ?thesis
  proof (cases r1)
    case (Inl e)
    with assms(1) run w(4) wf1 show ?thesis by (auto simp: erase_scope_def)
  next
    case (Inr x)
    show ?thesis
    proof (cases b)
      case True
      with Inr assms(1) run b se2 wf2 show ?thesis by (auto simp: erase_scope_def Let_def)
    next
      case False
      with Inr assms(1) run b have v': "v' = base_drop s v2" by (simp add: erase_scope_def Let_def)
      have se: "same_elsewhere s v2 v'" unfolding v' by (simp add: same_elsewhere_def base_at_drop)
      have "base_at v' s = None" unfolding v' by (simp add: base_at_drop)
      moreover have "vol_wf v \<Longrightarrow> vol_wf v'"
        using vol_wf_step [OF wf2 se] calculation by (simp add: tree_of_def)
      ultimately show ?thesis using same_elsewhere_trans [OF se2 se] by blast
    qed
  qed
qed

lemma teardown_spec:
  assumes "local_TeardownScope s v = (r, v')"
  shows "same_elsewhere s v v' \<and> (vol_wf v \<longrightarrow> vol_wf v') \<and> (\<forall>x. r = Inr x \<longrightarrow> base_at v' s = Some (BDir []))"
  using assms unfolding local_TeardownScope_def
proof (cases rule: with_ctx_cases)
  case cancelled
  then show ?thesis using same_elsewhere_base [of v' v] vol_wf_base [of v' v] by simp
next
  case (run v0)
  obtain b v1 where b: "vol_fault v0 = (b, v1)" by fastforce
  have base: "lv_base v1 = lv_base v" using vol_fault_base [OF b] run(1) by simp
  have s1: "same_elsewhere s v v1" "vol_wf v1 = vol_wf v" by (rule same_elsewhere_base [OF base], rule vol_wf_base [OF base])
  have s0: "same_elsewhere s v v0" "vol_wf v0 = vol_wf v"
    by (rule same_elsewhere_base [OF run(1)], rule vol_wf_base [OF run(1)])
  have at: "base_at v0 s = base_at v1 s" using base_at_eq [of v1 v] base_at_eq [OF run(1)] base by simp
  have fin: "same_elsewhere s v v' \<and> (vol_wf v \<longrightarrow> vol_wf v') \<and> (\<forall>x. r = Inr x \<longrightarrow> base_at v' s = Some (BDir []))"
    if "vol_mkdir_all s u = (r, v')" "base_at u s = None" "same_elsewhere s v u" "vol_wf v \<longrightarrow> vol_wf u" for u
    using vol_mkdir_all_spec [OF that(1)] that(2-4) same_elsewhere_trans [OF that(3)] by (auto simp: data_kept_def)
  show ?thesis
  proof (cases "validateScopeID s = None \<and> \<not> b")
    case False
    then have "v' = v0 \<or> v' = v1" "\<exists>e. r = Inl e"
      using run(2) b by (auto simp: Let_def split: option.splits if_splits)
    with s0 s1 show ?thesis by auto
  next
    case True
    show ?thesis
    proof (cases "base_at v0 s")
      case None
      with True run(2) b have "vol_mkdir_all s v1 = (r, v')" by (simp add: Let_def)
      from fin [OF this] None at s1 show ?thesis by simp
    next
      case (Some be)
      show ?thesis
      proof (cases be)
        case (BDir t)
        obtain r2 v2 where er: "erase_scope s t v1 = (r2, v2)" by fastforce
        have "base_at v1 s = Some (BDir t)" using Some BDir at by simp
        note es = erase_scope_spec [OF er this]
        have s2: "same_elsewhere s v v2" "vol_wf v \<longrightarrow> vol_wf v2" using es s1 same_elsewhere_trans by blast+
        show ?thesis
        proof (cases r2)
          case (Inl e)
          with True Some BDir run(2) b er s2 show ?thesis by (auto simp: Let_def)
        next
          case (Inr x)
          with True Some BDir run(2) b er have "vol_mkdir_all s v2 = (r, v')" by (simp add: Let_def)
          from fin [OF this] es Inr s2 show ?thesis by simp
        qed
      qed (use True Some run(2) b s1 in \<open>auto simp: Let_def\<close>)
    qed
  qed
qed

section \<open>Properties\<close>

lemma contained_reply: "contained s f \<Longrightarrow> contained s (\<lambda>v. reply g (f v))"
  unfolding contained_def reply_def by (auto split: prod.splits sum.splits)

lemma contained_Provision: "contained s (local_ProvisionScope s)"
  unfolding contained_def
proof (intro allI impI)
  fix v r v' assume a: "local_ProvisionScope s v = (r, v')"
  have "same_elsewhere s v v'"
    using a unfolding local_ProvisionScope_def
  proof (cases rule: with_ctx_cases)
    case (run v0)
    obtain r1 v1 where s1: "sweep_staging s v0 = (r1, v1)" by fastforce
    obtain r2 v2 where s2: "vol_mkdir_all s v1 = (r2, v2)" by fastforce
    obtain r3 v3 where s3: "mkdir_staging s v2 = (r3, v3)" by fastforce
    have e0: "same_elsewhere s v v0" by (rule same_elsewhere_base [OF run(1)])
    have e1: "same_elsewhere s v0 v1"
    proof -
      obtain b u where b: "vol_fault v0 = (b, u)" by fastforce
      have eu: "same_elsewhere s v0 u" "base_at u s = base_at v0 s"
        using vol_fault_base [OF b] same_elsewhere_base [of u v0] base_at_eq [of u v0] by simp_all
      show ?thesis
      proof (cases "\<not> b \<and> (\<exists>t. base_at v0 s = Some (BDir t))")
        case True
        then obtain t where t: "base_at v0 s = Some (BDir t)" by auto
        with True s1 b have run': "run_in s t (removeAllCtx [stagingDirName]) u = (r1, v1)"
          by (simp add: sweep_staging_def Let_def)
        have "same_elsewhere s u v1" by (rule run_in_spec [OF run']) (use t eu(2) in auto)
        then show ?thesis using same_elsewhere_trans [OF eu(1)] by blast
      next
        case False
        then have "v1 = u"
          using s1 b by (auto simp: sweep_staging_def Let_def split: if_splits option.splits base_entry.splits)
        with eu show ?thesis by simp
      qed
    qed
    have e2: "same_elsewhere s v1 v2" using vol_mkdir_all_spec [OF s2] by (simp add: data_kept_def)
    have e3: "same_elsewhere s v2 v3"
    proof (cases "\<exists>t. base_at v2 s = Some (BDir t)")
      case True
      then obtain t where t: "base_at v2 s = Some (BDir t)" by auto
      with s3 obtain body where "run_in s t body v2 = (r3, v3)" by (auto simp: mkdir_staging_def)
      from run_in_spec [OF this t] show ?thesis by metis
    next
      case False
      with s3 show ?thesis by (auto simp: mkdir_staging_def split: option.splits base_entry.splits)
    qed
    have "v' = v0 \<or> v' = v1 \<or> v' = v2 \<or> v' = v3"
      using run(2) s1 s2 s3 by (auto split: option.splits sum.splits)
    with e0 e1 e2 e3 same_elsewhere_trans show ?thesis by metis
  qed (simp add: same_elsewhere_base)
  moreover have "vol_wf v \<longrightarrow> vol_wf v'" using provision_spec [OF a] by (simp add: data_kept_def)
  ultimately show "same_elsewhere s v v' \<and> (vol_wf v \<longrightarrow> vol_wf v')" by blast
qed

lemma contained_Teardown: "contained s (local_TeardownScope s)"
  using teardown_spec by (auto simp: contained_def)

lemma contained_engine: "contained s (local_engine H rnd s c)"
proof -
  note r = contained_reply
  have mv: "contained s (local_MoveDir s src dst ow)" "contained s (local_MoveFile s src dst ow)" for src dst ow
    unfolding local_MoveDir_def local_MoveFile_def by (rule contained_with_ctx [OF contained_renameWithin])+
  show ?thesis
    unfolding local_engine_def
    by (cases c) (simp_all add: r [OF contained_Provision] r [OF contained_Teardown] r [OF contained_List]
      r [OF contained_Stat] r [OF contained_MakeDir] r [OF mv(1)] r [OF contained_RemoveDir] r [OF contained_CopyFile]
      r [OF mv(2)] r [OF contained_RemoveFile] r [OF contained_ReadRange] r [OF contained_WriteStream])
qed


definition sample_vol :: lvol where
  "sample_vol = \<lparr>lv_base = [(''fs'', BDir [([''a''], EFile ''hello''), ([''d''], EDir)]), (''other'', BDir [])],
     lv_ctx = None, lv_faults = [], lv_dirsize = 4096\<rparr>"

lemma sample_vol_wf: "vol_wf sample_vol"
proof -
  have "fs_wf [([''a''], EFile ''hello''), ([''d''], EDir)]"
    by (simp add: fs_wf_def plain_comp_def dot_def dotdot_def)
  then show ?thesis by (auto simp: vol_wf_def tree_of_def base_at_def sample_vol_def split: if_splits)
qed


lemma visible_at_tree: "tree_of v s = Some t \<Longrightarrow> visible_at v s = visible t"
  by (simp add: visible_at_def)

lemma visible_at_base: "lv_base v' = lv_base v \<Longrightarrow> visible_at v' s = visible_at v s"
  using tree_of_eq [of v' v] by (simp add: visible_at_def)

text \<open>
  C10. A stream write is atomic under every fault script and cancellation point. If it returns
  an error, the visible tree is unchanged. If it returns a digest, the stream had ended
  cleanly, the destination holds exactly the bytes of the stream, everything else is
  unchanged, the digest is that of these bytes, and without overwrite the destination did
  not exist before.
\<close>

theorem write_stream_atomic:
  assumes "vol_wf v" "local_WriteStream H rnd s p rr ow v = (r, v')"
  shows "case r of
      Inl e \<Rightarrow> visible_at v' s = visible_at v s
    | Inr d \<Rightarrow> snd rr = None \<and> d = hex_encode (H (concat (fst rr))) \<and>
        (\<exists>q. guestPath p = Inr q \<and> visible_at v' s = (visible_at v s) (comps q \<mapsto> EFile (concat (fst rr))) \<and>
          (\<not> ow \<longrightarrow> visible_at v s (comps q) = None))"
  using assms(2) unfolding local_WriteStream_def
proof (cases rule: with_scope_cases)
  case (refused e)
  then show ?thesis using visible_at_base [of v' v s] by simp
next
  case (run t w w')
  have wf: "fs_wf (sw_fs w)" using assms(1) run(1,2) by (simp add: vol_wf_def)
  note vt = visible_at_tree [OF run(1)] visible_at_tree [OF run(4)]
  show ?thesis
  proof (cases "guestPath p")
    case (Inl e)
    with run(3) have "r = Inl e" "w' = w" by simp_all
    with run(2) vt show ?thesis by simp
  next
    case (Inr q)
    with run(3) have body: "(case refuse_existing ow (comps q) w of (Inl e, w1) \<Rightarrow> (Inl e, w1)
      | (Inr _, w1) \<Rightarrow> (case writeTempAndCommit rnd (Pair False) q rr ow w1 of
            (Inl e, w2) \<Rightarrow> (Inl e, w2) | (Inr _, w2) \<Rightarrow> (Inr (hex_encode (H (concat (fst rr)))), w2))) = (r, w')"
      by simp
    from write_stream_body [OF body wf Inr] run(2) vt Inr show ?thesis by (cases r) auto
  qed
qed

theorem write_stream_atomic_witness:
  "\<exists>v'. local_WriteStream id 7 ''fs'' ''d/new'' ([''ab'', ''c''], None) False sample_vol = (Inr ''616263'', v') \<and>
     visible_at v' ''fs'' [''d'', ''new''] = Some (EFile ''abc'') \<and> visible_at v' ''fs'' [''a''] = Some (EFile ''hello'')"
proof -
  let ?op = "local_WriteStream id 7 ''fs'' ''d/new'' ([''ab'', ''c''], None) False sample_vol"
  have r: "fst ?op = Inr ''616263''" by code_simp
  have q: "guestPath ''d/new'' = Inr ''d/new''" "comps ''d/new'' = [''d'', ''new'']" by code_simp+
  have a: "visible_at sample_vol ''fs'' [''a''] = Some (EFile ''hello'')" by code_simp
  from write_stream_atomic [OF sample_vol_wf prod.collapse [symmetric], of id 7 "''fs''" "''d/new''" "([''ab'', ''c''], None)" False] r q a
  have "visible_at (snd ?op) ''fs'' [''d'', ''new''] = Some (EFile ''abc'')" "visible_at (snd ?op) ''fs'' [''a''] = Some (EFile ''hello'')"
    by auto
  with r show ?thesis by (metis prod.collapse)
qed

text \<open>
  C21. A move that succeeds takes the whole subtree at the source to the destination name,
  leaves the rest of the visible tree as it was, and without overwrite never replaces an
  entry. A move that fails leaves the visible tree as it was; the one exception is an I/O
  error at the unlink of a linked file whose rollback fails too, after which the file has
  both names.
\<close>

theorem move_exact:
  assumes "vol_wf v" "renameWithin s src dst ow v = (r, v')"
  shows "case r of
      Inl e \<Rightarrow> visible_at v' s = visible_at v s \<or>
        e = PathError EIO \<and> (\<exists>qs qd. guestPath src = Inr qs \<and> guestPath dst = Inr qd \<and>
          visible_at v s (comps qd) = None \<and> visible_at v' s = (visible_at v s) (comps qd := visible_at v s (comps qs)))
    | Inr _ \<Rightarrow> (\<exists>qs qd. guestPath src = Inr qs \<and> guestPath dst = Inr qd \<and>
        visible_at v s (comps qs) \<noteq> None \<and> (\<not> ow \<longrightarrow> visible_at v s (comps qd) = None) \<and>
        visible_at v' s =
          (if comps qs = comps qd then visible_at v s else moved (comps qs) (comps qd) (visible_at v s)))"
  using assms(2) unfolding renameWithin_body
proof (cases rule: with_scope_cases)
  case (refused e)
  then show ?thesis using visible_at_base [of v' v s] by simp
next
  case (run t w w')
  have wf: "fs_wf (sw_fs w)" using assms(1) run(1,2) by (simp add: vol_wf_def)
  note vt = visible_at_tree [OF run(1)] visible_at_tree [OF run(4)]
  show ?thesis
  proof (cases "(\<exists>e. guestPath src = Inl e) \<or> (\<exists>e. guestPath dst = Inl e)")
    case True
    with run(2,3) vt show ?thesis by (auto split: sum.splits)
  next
    case False
    then obtain qs qd where q: "guestPath src = Inr qs" "guestPath dst = Inr qd"
      by (cases "guestPath src"; cases "guestPath dst") auto
    with run(3) have body: "rename_body qs qd ow w = (r, w')" by simp
    note sp = rename_body_spec [OF body wf q]
    note gs = comps_guest(1,3) [OF q(1)] and gd = comps_guest(1,3) [OF q(2)]
    have vs: "visible t (comps qs) = fs_at t (comps qs)" "visible t (comps qd) = fs_at t (comps qd)"
      using gs gd by (simp_all add: visible_def)
    show ?thesis
    proof (cases r)
      case (Inl e)
      have "visible (sw_fs w') = visible t \<or> e = PathError EIO \<and> fs_at t (comps qd) = None \<and>
          visible (sw_fs w') = (visible t) (comps qd := fs_at t (comps qs))"
        using sp Inl run(2) gd by (auto simp: visible_def fun_eq_iff)
      with Inl vt vs q show ?thesis by auto
    next
      case (Inr x)
      have "comps qs \<noteq> comps qd \<Longrightarrow> visible (sw_fs w') = moved (comps qs) (comps qd) (visible t)"
        by (rule moved_visible [OF gs(1) gd(1) gs(2) gd(2)]) (use sp Inr run(2) in simp)
      with sp Inr run(2) vt vs q show ?thesis by (auto split: if_splits)
    qed
  qed
qed

theorem move_exact_witness:
  "\<exists>v'. renameWithin ''fs'' ''a'' ''d/b'' False sample_vol = (Inr (), v') \<and>
     visible_at v' ''fs'' [''d'', ''b''] = Some (EFile ''hello'') \<and> visible_at v' ''fs'' [''a''] = None"
proof -
  let ?op = "renameWithin ''fs'' ''a'' ''d/b'' False sample_vol"
  have r: "fst ?op = Inr ()" by code_simp
  have q: "guestPath ''a'' = Inr ''a''" "guestPath ''d/b'' = Inr ''d/b''" "comps ''a'' = [''a'']" "comps ''d/b'' = [''d'', ''b'']"
    by code_simp+
  have a: "visible_at sample_vol ''fs'' [''a''] = Some (EFile ''hello'')" by code_simp
  from move_exact [OF sample_vol_wf prod.collapse [symmetric], of "''fs''" "''a''" "''d/b''" False] r q a
  have "visible_at (snd ?op) ''fs'' [''d'', ''b''] = Some (EFile ''hello'')" "visible_at (snd ?op) ''fs'' [''a''] = None"
    by (auto simp: moved_def)
  with r show ?thesis by (metis prod.collapse)
qed

lemma list_infos_spec:
  "list_infos p cs w = (Inr fis, w') \<Longrightarrow> fs_wf (sw_fs w) \<Longrightarrow>
   map fi_name fis = filter (\<lambda>c. \<not> (p = [] \<and> c = stagingDirName)) cs \<and>
   (\<forall>fi\<in>set fis. \<exists>e. fs_at (sw_fs w) (p @ [fi_name fi]) = Some e \<and> fi_is_dir fi = (e = EDir) \<and>
      (\<forall>b. e = EFile b \<longrightarrow> fi_size fi = length b))"
proof (induction cs arbitrary: w fis w')
  case (Cons c cs)
  show ?case
  proof (cases "p = [] \<and> c = stagingDirName")
    case True
    with Cons show ?thesis by simp
  next
    case nf: False
    obtain s w1 where s: "sys_get (sys_stat (p @ [c])) w = (s, w1)" by fastforce
    have fs: "sw_fs w1 = sw_fs w" by (rule sys_get_fs [OF s])
    obtain en where en: "s = Inr en" using Cons.prems(1) s nf by (cases s) auto
    obtain fis1 w2 where r: "list_infos p cs w1 = (Inr fis1, w2)" "fis = toFileInfo c en (sw_dirsize w1) # fis1"
      using Cons.prems(1) s nf en by (cases "list_infos p cs w1"; cases "fst (list_infos p cs w1)") auto
    have e: "fs_at (sw_fs w) (p @ [c]) = Some en"
      using sys_get_Inr [OF s [unfolded en]] sys_stat_Inr [OF Cons.prems(2)] by simp
    have h: "fi_name (toFileInfo c en d) = c" "fi_is_dir (toFileInfo c en d) = (en = EDir)"
        "en = EFile b \<Longrightarrow> fi_size (toFileInfo c en d) = length b" for d b
      by (cases en; simp add: toFileInfo_def)+
    from Cons.IH [OF r(1)] Cons.prems(2) fs r(2) nf e h show ?thesis by simp
  qed
qed simp

lemma list_body_spec:
  assumes "list_body p w = (Inr fis, w')" "fs_wf (sw_fs w)" "p = [] \<or> hd p \<noteq> stagingDirName"
  shows "sorted_wrt (<) (map fi_name fis) \<and>
    (\<forall>c. c \<in> set (map fi_name fis) \<longleftrightarrow> visible (sw_fs w) (p @ [c]) \<noteq> None) \<and>
    (\<forall>fi\<in>set fis. \<exists>e. visible (sw_fs w) (p @ [fi_name fi]) = Some e \<and> fi_is_dir fi = (e = EDir) \<and>
      (\<forall>b. e = EFile b \<longrightarrow> fi_size fi = length b))"
proof -
  obtain s w1 where s: "sys_get (rootfs_readdir p) w = (s, w1)" by fastforce
  obtain names where n: "s = Inr names" using assms(1) s by (cases s) (auto simp: list_body_def)
  have fs: "sw_fs w1 = sw_fs w" by (rule sys_get_fs [OF s])
  have names: "names = child_names (sw_fs w) p"
    using sys_get_Inr [OF s [unfolded n]]
    by (auto simp: rootfs_readdir_def sys_readdir_def split: if_splits sum.splits entry.splits)
  have "list_infos p names w1 = (Inr fis, w')" using assms(1) s n by (simp add: list_body_def)
  note li = list_infos_spec [OF this]
  let ?ok = "\<lambda>c. \<not> (p = [] \<and> c = stagingDirName)"
  have m: "map fi_name fis = filter ?ok (child_names (sw_fs w) p)" using li fs assms(2) names by simp
  have vis: "visible (sw_fs w) (p @ [c]) = (if ?ok c then fs_at (sw_fs w) (p @ [c]) else None)" for c
    using assms(3) by (cases p) (auto simp: visible_def)
  have "sorted (child_names (sw_fs w) p)" by (simp add: child_names_def)
  then have "sorted_wrt (<) (child_names (sw_fs w) p)"
    using distinct_child_names [OF assms(2)] by (simp add: strict_sorted_iff)
  then have "sorted_wrt (<) (map fi_name fis)" unfolding m by (rule sorted_wrt_filter)
  moreover have "c \<in> set (map fi_name fis) \<longleftrightarrow> visible (sw_fs w) (p @ [c]) \<noteq> None" for c
    unfolding m vis using child_names_mem [OF assms(2), of c p] by simp
  moreover have "\<exists>e. visible (sw_fs w) (p @ [fi_name fi]) = Some e \<and> fi_is_dir fi = (e = EDir) \<and>
      (\<forall>b. e = EFile b \<longrightarrow> fi_size fi = length b)" if "fi \<in> set fis" for fi
  proof -
    have "fi_name fi \<in> set (map fi_name fis)" using that by simp
    then have "?ok (fi_name fi)" unfolding m by simp
    with li fs assms(2) that show ?thesis unfolding vis by simp
  qed
  ultimately show ?thesis by blast
qed

text \<open>
  C23. A listing that succeeds is exact: the names come in strictly ascending byte order, they
  are precisely the visible children of the directory (the staging area is never among
  them), and kind and size are those of the entry.
\<close>

theorem list_exact:
  assumes "vol_wf v" "local_List s path v = (Inr fis, v')"
  shows "\<exists>p. (if path = dot then p = [] else (\<exists>q. guestPath path = Inr q \<and> p = comps q)) \<and>
    sorted_wrt (<) (map fi_name fis) \<and>
    (\<forall>c. c \<in> set (map fi_name fis) \<longleftrightarrow> visible_at v s (p @ [c]) \<noteq> None) \<and>
    (\<forall>fi\<in>set fis. \<exists>e. visible_at v s (p @ [fi_name fi]) = Some e \<and> fi_is_dir fi = (e = EDir) \<and>
      (\<forall>b. e = EFile b \<longrightarrow> fi_size fi = length b))"
proof -
  obtain v1 where v1: "lv_base v1 = lv_base v" "with_scope s (\<lambda>w. if path = dot then list_body [] w
      else (case guestPath path of Inl e \<Rightarrow> (Inl e, w) | Inr q \<Rightarrow> list_body (comps q) w)) v1 = (Inr fis, v')"
    using assms(2) unfolding local_List_def by (cases rule: with_ctx_cases) auto
  from v1(2) obtain t w w' where run: "tree_of v1 s = Some t" "sw_fs w = t"
    "(if path = dot then list_body [] w else (case guestPath path of Inl e \<Rightarrow> (Inl e, w) | Inr q \<Rightarrow> list_body (comps q) w)) = (Inr fis, w')"
    by (cases rule: with_scope_cases) auto
  have t: "tree_of v s = Some t" using run(1) tree_of_eq [OF v1(1)] by simp
  have wf: "fs_wf (sw_fs w)" using assms(1) t run(2) by (simp add: vol_wf_def)
  note vt = visible_at_tree [OF t]
  show ?thesis
  proof (cases "path = dot")
    case True
    with run(3) have "list_body [] w = (Inr fis, w')" by simp
    from list_body_spec [OF this wf] True vt run(2) show ?thesis by auto
  next
    case False
    with run(3) obtain q where q: "guestPath path = Inr q" "list_body (comps q) w = (Inr fis, w')"
      by (cases "guestPath path") auto
    from list_body_spec [OF q(2) wf] comps_guest(3) [OF q(1)] False q(1) vt run(2) show ?thesis by auto
  qed
qed

theorem list_exact_witness:
  "\<exists>fis v'. local_List ''fs'' dot sample_vol = (Inr fis, v') \<and> map fi_name fis = [''a'', ''d''] \<and> sorted_wrt (<) (map fi_name fis)"
proof -
  have r: "fst (local_List ''fs'' dot sample_vol) =
      Inr [\<lparr>fi_name = ''a'', fi_size = 5, fi_is_dir = False\<rparr>, \<lparr>fi_name = ''d'', fi_size = 4096, fi_is_dir = True\<rparr>]"
    by code_simp
  then obtain v' where v': "local_List ''fs'' dot sample_vol =
      (Inr [\<lparr>fi_name = ''a'', fi_size = 5, fi_is_dir = False\<rparr>, \<lparr>fi_name = ''d'', fi_size = 4096, fi_is_dir = True\<rparr>], v')"
    by (metis prod.collapse)
  from list_exact [OF sample_vol_wf v'] v' show ?thesis by auto
qed

lemma concat_chunks_of: "concat (chunks_of b) = b"
proof (induction b rule: chunks_of.induct)
  case (1 b)
  show ?case
  proof (cases "b = []")
    case True
    then show ?thesis by (simp add: chunks_of.simps)
  next
    case False
    with 1 have "concat (chunks_of (drop copy_buf b)) = drop copy_buf b" by simp
    with False show ?thesis by (simp add: chunks_of.simps [of b])
  qed
qed

lemma read_loop_spec:
  "read_loop full cs w = (out, e, w') \<Longrightarrow> prefix out (concat cs) \<and> (e = None \<longrightarrow> out = concat cs)"
proof (induction cs arbitrary: w out e w')
  case Nil
  then show ?case by (auto simp: Let_def split: prod.splits if_splits)
next
  case (Cons c cs)
  obtain a w1 b w2 where c: "consult w = (a, w1)" "fault w1 = (b, w2)" by fastforce
  obtain b3 w3 where f3: "fault w2 = (b3, w3)" by fastforce
  obtain o4 e4 w4 where r4: "read_loop full cs w3 = (o4, e4, w4)" using prod_cases3 by blast
  show ?case
  proof (cases "a \<or> b \<or> b3")
    case True
    with Cons.prems c f3 show ?thesis by (auto simp: Let_def split: if_splits)
  next
    case False
    with Cons.prems c f3 r4 have "out = c @ o4" "e = e4" by (simp_all add: Let_def)
    with Cons.IH [OF r4] show ?thesis by simp
  qed
qed

text \<open>
  C24. A range read of a file delivers the half-open window of the object's bytes, cut at the
  end of the file, and never a byte outside it: a clean end means the whole window was
  delivered, an error means a prefix of it was. A negative offset or length is refused
  before anything is opened.
\<close>

theorem read_range_exact:
  assumes "vol_wf v" "local_ReadRange s path offset len v = (r, v')"
  shows "case r of
      Inl e \<Rightarrow> sint offset < 0 \<or> sint len < 0 \<longrightarrow> e = ErrInvalidRange \<and> v' = v
    | Inr (out, e) \<Rightarrow> 0 \<le> sint offset \<and> 0 \<le> sint len \<and>
        (\<exists>q en. guestPath path = Inr q \<and> visible_at v s (comps q) = Some en \<and>
          (case en of
             EDir \<Rightarrow> out = [] \<and> (e = None \<longrightarrow> len = 0)
           | EFile b \<Rightarrow> (let win = take (nat (sint len)) (drop (nat (sint offset)) b) in
               prefix out win \<and> (e = None \<longrightarrow> out = win))))"
proof (cases "sint offset < 0 \<or> sint len < 0")
  case True
  with assms(2) show ?thesis by (auto simp: local_ReadRange_def)
next
  case pos: False
  with assms(2) have ws: "with_scope s (\<lambda>w. case guestPath path of Inl e \<Rightarrow> (Inl e, w) | Inr q \<Rightarrow>
      (case sys_get (sys_stat (comps q)) w of
         (Inl e, w1) \<Rightarrow> (Inl (PathError e), w1)
       | (Inr en, w1) \<Rightarrow>
           (let (seek_bad, w2) = (if 0 < sint offset then fault w1 else (False, w1)) in
            if seek_bad then (Inl (PathError EIO), w2)
            else (case read_window en offset len w2 of (out, e, w3) \<Rightarrow> (Inr (out, e), w3))))) v = (r, v')"
    by (simp add: local_ReadRange_def)
  show ?thesis
  proof (cases r)
    case (Inl e)
    with Inl pos show ?thesis by simp
  next
    case (Inr oe)
    obtain out e where oe: "oe = (out, e)" by (cases oe)
    from ws obtain t w w' where run: "tree_of v s = Some t" "sw_fs w = t"
      "(case guestPath path of Inl e \<Rightarrow> (Inl e, w) | Inr q \<Rightarrow>
        (case sys_get (sys_stat (comps q)) w of
           (Inl e, w1) \<Rightarrow> (Inl (PathError e), w1)
         | (Inr en, w1) \<Rightarrow>
             (let (seek_bad, w2) = (if 0 < sint offset then fault w1 else (False, w1)) in
              if seek_bad then (Inl (PathError EIO), w2)
              else (case read_window en offset len w2 of (out, e, w3) \<Rightarrow> (Inr (out, e), w3))))) = (r, w')"
      using Inr by (cases rule: with_scope_cases) auto
    obtain q where q: "guestPath path = Inr q" using run(3) Inr by (cases "guestPath path") auto
    obtain st w1 where st: "sys_get (sys_stat (comps q)) w = (st, w1)" by fastforce
    obtain en where en: "st = Inr en" using run(3) Inr q st by (cases st) auto
    obtain sb w2 where sb: "(if 0 < sint offset then fault w1 else (False, w1)) = (sb, w2)" by fastforce
    have rw: "read_window en offset len w2 = (out, e, w')"
      using run(3) Inr oe q st en sb by (auto simp: Let_def split: if_splits prod.splits)
    have wf: "fs_wf t" using assms(1) run(1) by (simp add: vol_wf_def)
    have "fs_at t (comps q) = Some en"
      using sys_get_Inr [OF st [unfolded en]] run(2) sys_stat_Inr [OF wf] by simp
    then have vis: "visible_at v s (comps q) = Some en"
      using visible_at_tree [OF run(1)] comps_guest [OF q] by (simp add: visible_def)
    have "case en of EDir \<Rightarrow> out = [] \<and> (e = None \<longrightarrow> len = 0)
       | EFile b \<Rightarrow> (let win = take (nat (sint len)) (drop (nat (sint offset)) b) in prefix out win \<and> (e = None \<longrightarrow> out = win))"
    proof (cases en)
      case (EFile b)
      let ?win = "take (nat (sint len)) (drop (nat (sint offset)) b)"
      have "read_loop (length ?win = nat (sint len)) (chunks_of ?win) w2 = (out, e, w')"
        using rw EFile by (simp only: read_window_def Let_def entry.case)
      from read_loop_spec [OF this] EFile show ?thesis unfolding concat_chunks_of by (simp add: Let_def)
    next
      case EDir
      with rw show ?thesis by (auto simp: read_window_def Let_def split: prod.splits if_splits)
    qed
    with Inr oe pos q vis show ?thesis by auto
  qed
qed

theorem read_range_exact_witness:
  "fst (local_ReadRange ''fs'' ''a'' 1 3 sample_vol) = Inr (''ell'', None) \<and>
   (\<exists>q en. guestPath ''a'' = Inr q \<and> visible_at sample_vol ''fs'' (comps q) = Some en \<and> en \<noteq> EDir)"
proof -
  have g: "guestPath ''a'' = Inr ''a''" "comps ''a'' = [''a'']" "validateScopeID ''fs'' = None" by code_simp+
  have "chunks_of ''ell'' = [''ell'']" by (simp add: chunks_of.simps copy_buf_def)
  then have r: "fst (local_ReadRange ''fs'' ''a'' 1 3 sample_vol) = Inr (''ell'', None)"
    by (simp add: local_ReadRange_def with_scope_def openScope_def vol_fault_def fault_def enter_def leave_def sample_vol_def
      base_at_def sys_get_def sys_stat_def fs_at_def read_window_def Let_def consult_def g)
  note t = read_range_exact [where s = "''fs''" and path = "''a''" and offset = 1 and len = 3,
      OF sample_vol_wf prod.collapse [symmetric], unfolded r sum.case prod.case]
  from t obtain q en where "guestPath ''a'' = Inr q" "visible_at sample_vol ''fs'' (comps q) = Some en"
      "case en of EDir \<Rightarrow> ''ell'' = [] \<and> (None = None \<longrightarrow> (3::i64) = 0) | EFile b \<Rightarrow> True"
    by (elim conjE exE) (rule that, assumption, assumption, simp split: entry.splits)
  with r show ?thesis by (cases en) auto
qed

lemma fold_max_ge: "(a::nat) \<le> fold max xs a \<and> (\<forall>x\<in>set xs. x \<le> fold max xs a)"
proof (induction xs arbitrary: a)
  case (Cons y ys)
  have "max y a \<le> fold max ys (max y a)" "\<forall>x\<in>set ys. x \<le> fold max ys (max y a)" using Cons by blast+
  then show ?case by auto
qed simp

lemma fs_depth_bound: "fs_at t q \<noteq> None \<Longrightarrow> length q < fs_depth t"
proof -
  assume "fs_at t q \<noteq> None"
  then consider "q = []" | "q \<in> set (map fst t)" using fs_at_keys by blast
  then show ?thesis
  proof cases
    case 2
    then have "length q \<in> set (map (length \<circ> fst) t)" by (auto simp flip: map_map)
    then show ?thesis unfolding fs_depth_def using fold_max_ge [of 0 "map (length \<circ> fst) t"] by auto
  qed (simp add: fs_depth_def)
qed

text \<open>
  C22. Recursive removal touches nothing outside its subtree, whatever fails; when it reports
  success the whole subtree is gone; and without disk faults and cancellation it does report
  success, provided the names below it are well-formed UTF-8 (the directory reader refuses
  others) and the path exists.
\<close>

theorem remove_dir_exact:
  assumes "vol_wf v" "local_RemoveDir s path v = (r, v')"
  shows "(\<forall>p. visible_at v' s p = visible_at v s p \<or>
      (\<exists>q. guestPath path = Inr q \<and> prefix (comps q) p \<and> visible_at v' s p = None)) \<and>
    (\<forall>x q u. r = Inr x \<longrightarrow> guestPath path = Inr q \<longrightarrow> visible_at v' s (comps q @ u) = None) \<and>
    (\<forall>q. lv_faults v = [] \<and> lv_ctx v = None \<and> validateScopeID s = None \<and> guestPath path = Inr q \<and> visible_at v s (comps q) \<noteq> None \<and>
      (\<forall>p. prefix (comps q) p \<longrightarrow> visible_at v s p \<noteq> None \<longrightarrow> valid_utf8 (join_with CHR ''/'' p)) \<longrightarrow> r = Inr ())"
proof -
  let ?body = "\<lambda>w. case guestPath path of Inl e \<Rightarrow> (Inl e, w) | Inr q \<Rightarrow> removeAllUnderRoot q w"
  have safe: "(\<forall>p. visible_at v' s p = visible_at v s p \<or>
      (\<exists>q. guestPath path = Inr q \<and> prefix (comps q) p \<and> visible_at v' s p = None)) \<and>
    (\<forall>x q u. r = Inr x \<longrightarrow> guestPath path = Inr q \<longrightarrow> visible_at v' s (comps q @ u) = None)"
    using assms(2) unfolding local_RemoveDir_def
  proof (cases rule: with_ctx_cases)
    case cancelled
    then show ?thesis using visible_at_base [of v' v s] by simp
  next
    case c: (run v1)
    from c(2) show ?thesis
    proof (cases rule: with_scope_cases)
      case (refused e)
      then show ?thesis using visible_at_base [of v' v s] c(1) by simp
    next
      case (run t w w')
      have t: "tree_of v s = Some t" using run(1) tree_of_eq [OF c(1)] by simp
      have wf: "fs_wf (sw_fs w)" using assms(1) t run(2) by (simp add: vol_wf_def)
      note vt = visible_at_tree [OF t] visible_at_tree [OF run(4)]
      show ?thesis
      proof (cases "guestPath path")
        case (Inl e)
        with run(2,3) vt show ?thesis by auto
      next
        case (Inr q)
        with run(3) have body: "removeAllUnderRoot q w = (r, w')" by simp
        note sp = removeAllUnderRoot_spec [OF body wf]
        have "visible (sw_fs w') p = visible t p \<or> prefix (comps q) p \<and> visible (sw_fs w') p = None" for p
          using sp run(2) unfolding only_under_def visible_def by auto
        moreover have "r = Inr x \<Longrightarrow> visible (sw_fs w') (comps q @ u) = None" for x u
          using sp by (simp add: visible_def)
        ultimately show ?thesis using vt Inr by auto
      qed
    qed
  qed
  have fin: "r = Inr ()"
    if calm: "lv_faults v = []" "lv_ctx v = None" and sc: "validateScopeID s = None"
      and g: "guestPath path = Inr q" and ex: "visible_at v s (comps q) \<noteq> None"
      and utf: "\<forall>p. prefix (comps q) p \<longrightarrow> visible_at v s p \<noteq> None \<longrightarrow> valid_utf8 (join_with CHR ''/'' p)" for q
  proof -
    obtain t where t: "tree_of v s = Some t" using ex by (cases "tree_of v s") (auto simp: visible_at_def)
    have wf: "fs_wf t" using assms(1) t by (simp add: vol_wf_def)
    have vc: "vol_consult v = (False, v)" "vol_fault v = (False, v)"
      using calm by (simp_all add: vol_consult_def vol_fault_def consult_def fault_def enter_def leave_def)
    have os: "openScope s v = (Inr t, v)"
      using sc t vc by (auto simp: openScope_def tree_of_def split: option.splits base_entry.splits)
    have cw: "calm (enter t v)" using calm by (simp add: calm_def enter_def)
    have "local_RemoveDir s path v = with_scope s ?body v"
      using vc by (simp add: local_RemoveDir_def with_ctx_def)
    then have r: "r = fst (removeAllUnderRoot q (enter t v))"
      using assms(2) os g by (auto simp: with_scope_def Let_def split: prod.splits)
    have False': "fs_at t (comps q) \<noteq> None" using ex visible_at_tree [OF t] by (auto simp: visible_def split: if_splits)
    have "removable rootfs_readdir (fs_depth t) (comps q) t"
      unfolding removable_def
    proof (intro allI impI conjI)
      fix p assume p: "prefix (comps q) p" "fs_at t p \<noteq> None"
      show "length p < length (comps q) + fs_depth t" using fs_depth_bound [OF p(2)] by simp
      have "visible_at v s p \<noteq> None"
        using p comps_guest [OF g] visible_at_tree [OF t] by (auto simp: visible_def prefix_def)
      with utf p(1) have "valid_utf8 (join_with CHR ''/'' p)" by blast
      then show "rootfs_readdir p t' = sys_readdir p t'" for t' by (simp add: rootfs_readdir_def)
    qed
    from remove_tree_done [OF cw _ _ _ comps_guest(1) [OF g], of rootfs_readdir "fs_depth t"] wf this False'
    show ?thesis unfolding r removeAllUnderRoot_def by auto
  qed
  from safe fin show ?thesis by blast
qed

theorem remove_dir_exact_witness:
  "fst (local_RemoveDir ''fs'' ''d'' sample_vol) = Inr () \<and>
   visible_at (snd (local_RemoveDir ''fs'' ''d'' sample_vol)) ''fs'' [''d''] = None"
proof -
  have g: "guestPath ''d'' = Inr ''d''" "comps ''d'' = [''d'']" "validateScopeID ''fs'' = None" by code_simp+
  have v: "visible_at sample_vol ''fs'' [''d''] = Some EDir" by code_simp
  have u: "valid_utf8 (join_with CHR ''/'' p)" if "prefix [''d''] p" "visible_at sample_vol ''fs'' p \<noteq> None" for p
  proof -
    have "p \<in> set [[], [''a''], [''d'']]"
      using that(2) by (auto simp: visible_at_def tree_of_def base_at_def sample_vol_def visible_def fs_at_def split: if_splits)
    with that(1) have "p = [''d'']" by auto
    then show ?thesis by (simp add: valid_utf8_ascii)
  qed
  note t = remove_dir_exact [where s = "''fs''" and path = "''d''", OF sample_vol_wf prod.collapse [symmetric]]
  have r: "fst (local_RemoveDir ''fs'' ''d'' sample_vol) = Inr ()"
    using t g v u by (simp add: sample_vol_def)
  with t g have "visible_at (snd (local_RemoveDir ''fs'' ''d'' sample_vol)) ''fs'' ([''d''] @ []) = None" by metis
  with r show ?thesis by simp
qed

text \<open>
  Provisioning a scope never loses or changes owner data, whatever fails on the way, and
  when it succeeds the staging area exists and is empty, so no partial write of an earlier
  process survives. Teardown, when it succeeds, leaves the scope with no entry at all.
\<close>

lemma provision_teardown:
  assumes "vol_wf v"
  shows "(\<forall>r v' p. local_ProvisionScope s v = (r, v') \<longrightarrow> p \<noteq> [] \<longrightarrow> visible_at v' s p = visible_at v s p) \<and>
    (\<forall>x v'. local_ProvisionScope s v = (Inr x, v') \<longrightarrow>
      (\<exists>t. base_at v' s = Some (BDir t) \<and> fs_at t [stagingDirName] = Some EDir \<and>
        (\<forall>u. u \<noteq> [] \<longrightarrow> fs_at t (stagingDirName # u) = None))) \<and>
    (\<forall>x v'. local_TeardownScope s v = (Inr x, v') \<longrightarrow> base_at v' s = Some (BDir []))"
proof (intro conjI allI impI)
  fix r v' and p :: fpath assume "local_ProvisionScope s v = (r, v')" "p \<noteq> []"
  then show "visible_at v' s p = visible_at v s p"
    using provision_spec [OF _ assms] assms by (auto simp: data_kept_def)
next
  fix x v' assume "local_ProvisionScope s v = (Inr x, v')"
  from provision_spec [OF this assms] show "\<exists>t. base_at v' s = Some (BDir t) \<and> fs_at t [stagingDirName] = Some EDir \<and>
      (\<forall>u. u \<noteq> [] \<longrightarrow> fs_at t (stagingDirName # u) = None)" by blast
next
  fix x v' assume "local_TeardownScope s v = (Inr x, v')"
  from teardown_spec [OF this] show "base_at v' s = Some (BDir [])" by simp
qed

end
