(* ===== verification/ConfinedEngine.thy ===== *)
theory ConfinedEngine
  imports LocalProps
begin

text \<open>
  The two decorators every deployment puts around its engine
  (\<open>src/internal/objectstore/scope_confined.go\<close>, \<open>engine_lazyprovision.go\<close>) and their
  composition in \<open>src/cmd/ocu-filestored/main.go\<close>: the confinement guard that refuses every
  scope outside the deployment's family, and the scaffolder that provisions a derived scope
  on its first data verb. A locale states what the decorators rely on from the engine they
  wrap; the local-volume engine is an interpretation of it. The properties say that a
  deployment cannot touch a scope of another one, and that a scaffolded scope has its
  markers.
\<close>

section \<open>Confinement guard\<close>

definition guard :: "ScopeFamily \<Rightarrow> scope_id \<Rightarrow> store_err option" where
  "guard family s = (if \<not> Contains family s then Some ErrForeignScope else None)"

definition confined_verb :: "ScopeFamily \<Rightarrow> 's engine \<Rightarrow> 's engine" where
  "confined_verb family inner s c w =
     (case guard family s of
        Some e \<Rightarrow> (Inl e, w)
      | None \<Rightarrow> inner s c w)"

definition NewScopeConfinedEngine :: "'s engine option \<Rightarrow> ScopeFamily \<Rightarrow> (store_err, 's engine) res" where
  "NewScopeConfinedEngine inner family =
     (case inner of
        None \<Rightarrow> Inl OtherErr
      | Some e \<Rightarrow> if \<not> family_valid family then Inl OtherErr else Inr (confined_verb family e))"

section \<open>Lazy provisioning\<close>

record 's lazy =
  lz_inner :: 's
  lz_done :: "scope_id list"

definition derivedLegal :: "ScopeFamily \<Rightarrow> scope_id \<Rightarrow> bool" where
  "derivedLegal family s = Contains family s"

type_synonym 's scaffold = "scope_id \<Rightarrow> 's \<Rightarrow> (store_err, unit) res \<times> 's"

definition ensureScaffold :: "ScopeFamily \<Rightarrow> 's scaffold \<Rightarrow> scope_id \<Rightarrow> 's lazy \<Rightarrow> (store_err, unit) res \<times> 's lazy" where
  "ensureScaffold family scaffold s l =
     (if \<not> derivedLegal family s then (Inr (), l)
      else if s \<in> set (lz_done l) then (Inr (), l)
      else (case scaffold s (lz_inner l) of
              (Inl e, w) \<Rightarrow> (Inl e, l\<lparr>lz_inner := w\<rparr>)
            | (Inr _, w) \<Rightarrow> (Inr (), l\<lparr>lz_inner := w, lz_done := s # lz_done l\<rparr>)))"

definition is_lifecycle :: "engine_call \<Rightarrow> bool" where
  "is_lifecycle c = (case c of CallProvisionScope \<Rightarrow> True | CallTeardownScope \<Rightarrow> True | _ \<Rightarrow> False)"

definition delegate :: "'s engine \<Rightarrow> 's lazy engine" where
  "delegate inner s c l = (let (r, w) = inner s c (lz_inner l) in (r, l\<lparr>lz_inner := w\<rparr>))"

definition lazy_verb :: "ScopeFamily \<Rightarrow> 's scaffold \<Rightarrow> 's engine \<Rightarrow> 's lazy engine" where
  "lazy_verb family scaffold inner s c l =
     (if is_lifecycle c then delegate inner s c l
      else (case ensureScaffold family scaffold s l of
              (Inl e, l1) \<Rightarrow> (Inl e, l1)
            | (Inr _, l1) \<Rightarrow> delegate inner s c l1))"

definition NewLazyProvisionEngine :: "'s engine option \<Rightarrow> ScopeFamily \<Rightarrow> 's scaffold option \<Rightarrow> (store_err, 's lazy engine) res" where
  "NewLazyProvisionEngine eng family scaffold =
     (case eng of
        None \<Rightarrow> Inl OtherErr
      | Some e \<Rightarrow>
          if \<not> family_valid family then Inl OtherErr
          else (case scaffold of None \<Rightarrow> Inl OtherErr | Some f \<Rightarrow> Inr (lazy_verb family f e)))"

section \<open>Scaffolding a scope\<close>

definition err_exist :: "store_err \<Rightarrow> bool" where
  "err_exist e = (case e of PathError n \<Rightarrow> is_exist n | LinkError n \<Rightarrow> is_exist n | _ \<Rightarrow> False)"

fun scaffold_markers :: "'s engine \<Rightarrow> scope_id \<Rightarrow> string list \<Rightarrow> 's \<Rightarrow> (store_err, unit) res \<times> 's" where
  "scaffold_markers e s [] w = (Inr (), w)"
| "scaffold_markers e s (sub # subs) w =
     (case e s (CallMakeDir sub) w of
        (Inl err, w1) \<Rightarrow> if err_exist err then scaffold_markers e s subs w1 else (Inl err, w1)
      | (Inr _, w1) \<Rightarrow> scaffold_markers e s subs w1)"

definition scaffoldScope :: "string list \<Rightarrow> 's engine \<Rightarrow> 's scaffold" where
  "scaffoldScope markers e s w =
     (case e s CallProvisionScope w of
        (Inl err, w1) \<Rightarrow> (Inl err, w1)
      | (Inr _, w1) \<Rightarrow> scaffold_markers e s markers w1)"

text \<open>The engine both planes share: the scaffolder over the guard over the backend engine.\<close>

definition deployment_engine :: "ScopeFamily \<Rightarrow> string list \<Rightarrow> 's engine \<Rightarrow> 's lazy engine" where
  "deployment_engine family markers eng =
     lazy_verb family (scaffoldScope markers (confined_verb family eng)) (confined_verb family eng)"

text \<open>A history of calls; every call has its own backend engine value (its random bytes).\<close>

fun run_calls :: "ScopeFamily \<Rightarrow> string list \<Rightarrow> ('s engine \<times> scope_id \<times> engine_call) list \<Rightarrow> 's lazy \<Rightarrow> 's lazy" where
  "run_calls family markers [] l = l"
| "run_calls family markers ((eng, s, c) # cs) l =
     run_calls family markers cs (snd (deployment_engine family markers eng s c l))"

section \<open>What a contained engine gives a deployment\<close>

text \<open>A call on a scope spares the scopes of \<open>P\<close> when its own is none of them or is refused.\<close>

definition spares :: "(scope_id \<Rightarrow> bool) \<Rightarrow> ScopeFamily \<Rightarrow> scope_id \<Rightarrow> bool" where
  "spares P family s \<longleftrightarrow> (P s \<longrightarrow> \<not> Contains family s)"

text \<open>
  \<open>inv\<close> is an invariant of the backend state and \<open>at\<close> what it holds for a scope: a call keeps
  the invariant and changes at most its own scope.
\<close>

locale scoped_engine =
  fixes eng :: "'x \<Rightarrow> 's engine" and inv :: "'s \<Rightarrow> bool" and at :: "'s \<Rightarrow> scope_id \<Rightarrow> 'b"
  assumes call_inv: "inv w \<Longrightarrow> eng x s c w = (r, w') \<Longrightarrow> inv w'"
    and call_frame: "inv w \<Longrightarrow> eng x s c w = (r, w') \<Longrightarrow> s' \<noteq> s \<Longrightarrow> at w' s' = at w s'"
begin

definition kept :: "(scope_id \<Rightarrow> bool) \<Rightarrow> 's \<Rightarrow> 's \<Rightarrow> bool" where
  "kept P w w' \<longleftrightarrow> inv w' \<and> (\<forall>s. P s \<longrightarrow> at w' s = at w s)"

lemma kept_refl: "inv w \<Longrightarrow> kept P w w"
  by (simp add: kept_def)

lemma kept_trans: "kept P u v \<Longrightarrow> kept P v w \<Longrightarrow> kept P u w"
  by (simp add: kept_def)

lemma confined_kept:
  assumes "spares P family s" "inv w" "confined_verb family (eng x) s c w = (r, w')"
  shows "kept P w w'"
proof (cases "Contains family s")
  case True
  with assms(3) have "eng x s c w = (r, w')" by (simp add: confined_verb_def guard_def)
  with assms(1,2) True show ?thesis using call_inv call_frame unfolding kept_def spares_def by metis
next
  case False
  with assms show ?thesis by (simp add: confined_verb_def guard_def kept_def)
qed

lemma markers_kept:
  "spares P family s \<Longrightarrow> inv w \<Longrightarrow> scaffold_markers (confined_verb family (eng x)) s subs w = (r, w') \<Longrightarrow> kept P w w'"
proof (induction subs arbitrary: w)
  case (Cons sub subs)
  obtain r1 w1 where c: "confined_verb family (eng x) s (CallMakeDir sub) w = (r1, w1)" by fastforce
  note o = confined_kept [OF Cons.prems(1,2) c]
  then have "inv w1" by (simp add: kept_def)
  with Cons.IH [of w1] o c Cons.prems(1,3) show ?case
    using kept_trans by (cases r1) (auto split: if_splits)
qed (simp add: kept_refl)

lemma scaffold_kept:
  assumes "spares P family s" "inv w" "scaffoldScope markers (confined_verb family (eng x)) s w = (r, w')"
  shows "kept P w w'"
proof -
  obtain r1 w1 where c: "confined_verb family (eng x) s CallProvisionScope w = (r1, w1)" by fastforce
  note o = confined_kept [OF assms(1,2) c]
  then have "inv w1" by (simp add: kept_def)
  with markers_kept [OF assms(1), of w1 x markers r w'] o c assms(3) show ?thesis
    using kept_trans by (cases r1) (auto simp: scaffoldScope_def)
qed

lemma delegate_kept:
  assumes "spares P family s" "inv (lz_inner l)" "delegate (confined_verb family (eng x)) s c l = (r, l')"
  shows "kept P (lz_inner l) (lz_inner l')"
proof -
  obtain r1 w1 where c: "confined_verb family (eng x) s c (lz_inner l) = (r1, w1)" by fastforce
  with confined_kept [OF assms(1,2) c] assms(3) show ?thesis by (auto simp: delegate_def)
qed

lemma deployment_kept:
  assumes "spares P family s" "inv (lz_inner l)" "deployment_engine family markers (eng x) s c l = (r, l')"
  shows "kept P (lz_inner l) (lz_inner l')"
proof (cases "is_lifecycle c")
  case True
  with delegate_kept [OF assms(1,2)] assms(3) show ?thesis by (simp add: deployment_engine_def lazy_verb_def)
next
  case lc: False
  let ?sc = "scaffoldScope markers (confined_verb family (eng x))"
  obtain r1 l1 where e: "ensureScaffold family ?sc s l = (r1, l1)" by fastforce
  have o: "kept P (lz_inner l) (lz_inner l1)"
  proof (cases "derivedLegal family s \<and> s \<notin> set (lz_done l)")
    case True
    obtain r2 w2 where sc: "?sc s (lz_inner l) = (r2, w2)" by fastforce
    with True e have "lz_inner l1 = w2" by (cases r2) (auto simp: ensureScaffold_def)
    with scaffold_kept [OF assms(1,2) sc] show ?thesis by simp
  next
    case False
    with e have "l1 = l" by (auto simp: ensureScaffold_def split: if_splits)
    with assms(2) show ?thesis by (simp add: kept_refl)
  qed
  show ?thesis
  proof (cases r1)
    case (Inl err)
    with assms(3) e lc o show ?thesis by (simp add: deployment_engine_def lazy_verb_def)
  next
    case (Inr u)
    with assms(3) e lc have d: "delegate (confined_verb family (eng x)) s c l1 = (r, l')"
      by (simp add: deployment_engine_def lazy_verb_def)
    have "inv (lz_inner l1)" using o by (simp add: kept_def)
    from delegate_kept [OF assms(1) this d] o show ?thesis using kept_trans by blast
  qed
qed

lemma run_kept:
  "inv (lz_inner l) \<Longrightarrow> \<forall>(e, s, c)\<in>set calls. e \<in> range eng \<and> spares P family s \<Longrightarrow>
   kept P (lz_inner l) (lz_inner (run_calls family markers calls l))"
proof (induction calls arbitrary: l)
  case (Cons call calls)
  obtain e s c where call: "call = (e, s, c)" by (cases call) auto
  with Cons.prems(2) obtain x where x: "e = eng x" "spares P family s" by auto
  obtain r l1 where d: "deployment_engine family markers (eng x) s c l = (r, l1)" by fastforce
  note o = deployment_kept [OF x(2) Cons.prems(1) d]
  then have "inv (lz_inner l1)" by (simp add: kept_def)
  from Cons.IH [OF this] Cons.prems(2) o kept_trans show ?case by (simp add: call x(1) d)
qed (simp add: kept_refl)

end

interpretation vol: scoped_engine "\<lambda>(H, rnd). local_engine H rnd" vol_wf base_at
proof
  fix w x s c r w'
  assume "vol_wf w" "(case x of (H, rnd) \<Rightarrow> local_engine H rnd) s c w = (r, w')"
  then show "vol_wf w'" using contained_engine unfolding contained_def by (auto split: prod.splits)
next
  fix w x s c r w' s'
  assume "vol_wf w" "(case x of (H, rnd) \<Rightarrow> local_engine H rnd) s c w = (r, w')" "s' \<noteq> s"
  then show "base_at w' s' = base_at w s'"
    using contained_engine unfolding contained_def same_elsewhere_def by (auto split: prod.splits)
qed

section \<open>Properties\<close>

abbreviation local_calls :: "((string \<Rightarrow> string) \<times> u64 \<times> scope_id \<times> engine_call) list \<Rightarrow> (lvol engine \<times> scope_id \<times> engine_call) list" where
  "local_calls \<equiv> map (\<lambda>(H, rnd, s, c). (local_engine H rnd, s, c))"

lemma run_local_outside:
  assumes "vol_wf (lz_inner l)"
  shows "vol_wf (lz_inner (run_calls f markers (local_calls calls) l)) \<and>
    (\<forall>s. \<not> Contains f s \<longrightarrow> base_at (lz_inner (run_calls f markers (local_calls calls) l)) s = base_at (lz_inner l) s)"
proof -
  have "\<forall>(e, s, c)\<in>set (local_calls calls). e \<in> range (\<lambda>(H, rnd). local_engine H rnd) \<and>
      spares (\<lambda>s. \<not> Contains f s) f s"
    by (auto simp: spares_def intro: image_eqI [of _ _ "(_, _)"])
  from vol.run_kept [OF assms this, of markers] show ?thesis by (simp add: vol.kept_def)
qed

text \<open>
  C11. Two deployments over the same base directory cannot touch each other's data. Take the
  engine of the deployment with base \<open>b1\<close> (guard and scaffolder around the local-volume
  engine) and any history of calls on it, with any scopes, arguments, faults and
  cancellations: every scope that belongs to the family of another base \<open>b2\<close> is unchanged,
  scaffolding included, and the volume stays well-formed.
\<close>

theorem deployment_isolation:
  assumes "NewScopeFamily b1 = Inr f1" "NewScopeFamily b2 = Inr f2" "b1 \<noteq> b2" "vol_wf (lz_inner l)" "Contains f2 s"
  shows "base_at (lz_inner (run_calls f1 markers (local_calls calls) l)) s = base_at (lz_inner l) s \<and>
    vol_wf (lz_inner (run_calls f1 markers (local_calls calls) l))"
proof -
  have "\<not> Contains f1 s" using family_unique [OF assms(1,2) _ assms(5)] assms(3) by blast
  with run_local_outside [OF assms(4), of f1 markers calls] show ?thesis by blast
qed

theorem deployment_isolation_witness:
  "\<exists>f1 f2. NewScopeFamily ''fs'' = Inr f1 \<and> NewScopeFamily ''other'' = Inr f2 \<and> Contains f2 ''other'' \<and>
     base_at (lz_inner (run_calls f1 [''uploads''] (local_calls [(id, 0, ''other'', CallTeardownScope), (id, 0, ''fs'', CallTeardownScope)])
       \<lparr>lz_inner = sample_vol, lz_done = []\<rparr>)) ''other'' = Some (BDir [])"
proof -
  obtain f1 where f1: "NewScopeFamily ''fs'' = Inr f1"
    by (rule that [of "\<lparr>sf_base = ''fs'', sf_re = Some ''fs''\<rparr>"]) code_simp
  obtain f2 where f2: "NewScopeFamily ''other'' = Inr f2" "Contains f2 ''other''"
    by (rule that [of "\<lparr>sf_base = ''other'', sf_re = Some ''other''\<rparr>"]) code_simp+
  have l: "vol_wf (lz_inner \<lparr>lz_inner = sample_vol, lz_done = []\<rparr>)" using sample_vol_wf by simp
  have o: "base_at sample_vol ''other'' = Some (BDir [])" by code_simp
  from deployment_isolation [OF f1 f2(1) _ l f2(2), of "[''uploads'']" "[(id, 0, ''other'', CallTeardownScope), (id, 0, ''fs'', CallTeardownScope)]"]
  have "base_at (lz_inner (run_calls f1 [''uploads''] (local_calls [(id, 0, ''other'', CallTeardownScope), (id, 0, ''fs'', CallTeardownScope)])
       \<lparr>lz_inner = sample_vol, lz_done = []\<rparr>)) ''other'' = Some (BDir [])" using o by simp
  with f1 f2 show ?thesis by blast
qed

lemma openScope_no_exist: "openScope s v = (Inl e, v1) \<Longrightarrow> \<not> err_exist e"
proof -
  assume a: "openScope s v = (Inl e, v1)"
  obtain b v2 where b: "vol_fault v = (b, v2)" by fastforce
  have "validateScopeID s = Some e' \<Longrightarrow> e' = ErrInvalidScopeID" for e' by (auto simp: validateScopeID_def split: if_splits)
  then have "e \<in> {ErrInvalidScopeID, PathError EIO, PathError ENOENT, PathError ENOTDIR}"
    using a b by (auto simp: openScope_def Let_def split: option.splits base_entry.splits if_splits)
  then show ?thesis by (auto simp: err_exist_def is_exist_def)
qed

lemma sys_mkdir_exist: "fs_wf t \<Longrightarrow> sys_mkdir p t = Inl e \<Longrightarrow> is_exist e \<Longrightarrow> fs_at t p \<noteq> None"
proof -
  assume wf: "fs_wf t" and m: "sys_mkdir p t = Inl e" and e: "is_exist e"
  have we: "walk_err t pre q = Some x \<Longrightarrow> x = ENOENT \<or> x = ENOTDIR" for pre q x
    by (induction t pre q rule: walk_err.induct) (auto split: option.splits entry.splits)
  show ?thesis
  proof (cases "sys_stat p t")
    case (Inl x)
    then have "x = ENOENT \<or> x = ENOTDIR" using we by (auto simp: sys_stat_def split: option.splits)
    moreover have "e = x" using m Inl by (auto simp: sys_mkdir_def split: if_splits)
    ultimately show ?thesis using e by (auto simp: is_exist_def)
  next
    case (Inr en)
    with sys_stat_Inr [OF wf] show ?thesis by simp
  qed
qed

lemma mkdir_visible:
  assumes "vol_wf v" "local_MakeDir s p v = (r, v')" "guestPath p = Inr q"
  shows "(\<forall>c. visible_at v s c \<noteq> None \<longrightarrow> visible_at v' s c \<noteq> None) \<and>
    ((case r of Inl e \<Rightarrow> err_exist e | Inr _ \<Rightarrow> True) \<longrightarrow> visible_at v' s (comps q) \<noteq> None)"
  using assms(2) unfolding local_MakeDir_def
proof (cases rule: with_ctx_cases)
  case cancelled
  then show ?thesis using visible_at_base [of v' v s] by (simp add: err_exist_def)
next
  case c: (run v1)
  let ?body = "\<lambda>w. case sys_set (sys_mkdir (comps q)) w of (Inl e, w1) \<Rightarrow> (Inl (PathError e), w1) | (Inr _, w1) \<Rightarrow> (Inr (), w1)"
  have ws: "with_scope s ?body v1 = (r, v')" using c(2) assms(3) by simp
  from ws show ?thesis
  proof (cases rule: with_scope_cases)
    case (refused e)
    with openScope_no_exist have "\<not> err_exist e" by blast
    moreover have "visible_at v' s = visible_at v s" using visible_at_base [of v' v s] refused(2) c(1) by simp
    ultimately show ?thesis using refused(1) by simp
  next
    case (run t w w')
    have t: "tree_of v s = Some t" using run(1) tree_of_eq [OF c(1)] by simp
    have wf: "fs_wf (sw_fs w)" using assms(1) t run(2) by (simp add: vol_wf_def)
    note vt = visible_at_tree [OF t] visible_at_tree [OF run(4)]
    have vq: "visible u (comps q) = fs_at u (comps q)" for u using comps_guest [OF assms(3)] by (simp add: visible_def)
    obtain m w1 where m: "sys_set (sys_mkdir (comps q)) w = (m, w1)" by fastforce
    show ?thesis
    proof (cases m)
      case (Inl e)
      with run(3) m have r: "r = Inl (PathError e)" "w' = w1" by auto
      have fs: "sw_fs w1 = t" using sys_set_Inl [OF m [unfolded Inl]] run(2) by simp
      have "is_exist e \<Longrightarrow> fs_at t (comps q) \<noteq> None"
        using sys_mkdir_exist [OF wf] m Inl run(2)
        by (auto simp: sys_set_def is_exist_def split: prod.splits sum.splits if_splits)
      with r fs vt vq show ?thesis by (simp add: err_exist_def)
    next
      case (Inr u)
      with run(3) m have r: "r = Inr ()" "w' = w1" by auto
      have "sys_mkdir (comps q) (sw_fs w) = Inr (sw_fs w1)" using sys_set_Inr [OF m [unfolded Inr]] .
      from sys_mkdir_Inr [OF wf comps_guest(1,2) [OF assms(3)] this]
      have "sw_fs w1 = fs_put (comps q) EDir t" using run(2) by simp
      with r vt vq comps_guest [OF assms(3)] show ?thesis by (auto simp: visible_def fs_at_put)
    qed
  qed
qed

lemma confined_local: "Contains f s \<Longrightarrow> confined_verb f (local_engine H rnd) s c v = local_engine H rnd s c v"
  by (simp add: confined_verb_def guard_def)

lemma scaffold_markers_visible:
  assumes "Contains f s"
  shows "scaffold_markers (confined_verb f (local_engine H rnd)) s subs v = (Inr x, v') \<Longrightarrow> vol_wf v \<Longrightarrow>
    \<forall>sub\<in>set subs. \<exists>q. guestPath sub = Inr q \<Longrightarrow>
    (\<forall>c. visible_at v s c \<noteq> None \<longrightarrow> visible_at v' s c \<noteq> None) \<and>
    (\<forall>sub\<in>set subs. \<exists>q. guestPath sub = Inr q \<and> visible_at v' s (comps q) \<noteq> None)"
proof (induction subs arbitrary: v)
  case (Cons sub subs)
  obtain r1 v1 where m: "local_MakeDir s sub v = (r1, v1)" by fastforce
  obtain q where q: "guestPath sub = Inr q" using Cons.prems(3) by auto
  have wf1: "vol_wf v1" using contained_MakeDir [of s sub] m Cons.prems(2) by (auto simp: contained_def)
  have e: "confined_verb f (local_engine H rnd) s (CallMakeDir sub) v = (case r1 of Inl err \<Rightarrow> (Inl err, v1) | Inr _ \<Rightarrow> (Inr ReplyUnit, v1))"
    using m by (cases r1) (simp_all add: confined_local [OF assms] local_engine_def reply_def)
  have ok: "case r1 of Inl err \<Rightarrow> err_exist err | Inr _ \<Rightarrow> True"
    and rest: "scaffold_markers (confined_verb f (local_engine H rnd)) s subs v1 = (Inr x, v')"
    using Cons.prems(1) e by (cases r1; auto split: if_splits)+
  note mv = mkdir_visible [OF Cons.prems(2) m q]
  note ih = Cons.IH [OF rest wf1] Cons.prems(3)
  have "visible_at v1 s (comps q) \<noteq> None" using mv ok by blast
  then have "visible_at v' s (comps q) \<noteq> None" using ih by auto
  then show ?case using ih mv q by auto
qed simp

text \<open>
  A scope that the scaffolder reports as scaffolded has every configured marker, and
  nothing that was visible in it before has disappeared; so the write-first flow finds the
  directories it writes under.
\<close>

lemma scaffold_complete:
  assumes "vol_wf v" "Contains f s" "list_all (\<lambda>sub. ok (guestPath sub)) markers"
    "scaffoldScope markers (confined_verb f (local_engine H rnd)) s v = (Inr x, v')"
  shows "(\<forall>sub\<in>set markers. \<exists>q. guestPath sub = Inr q \<and> visible_at v' s (comps q) \<noteq> None) \<and>
    (\<forall>p. p \<noteq> [] \<longrightarrow> visible_at v s p \<noteq> None \<longrightarrow> visible_at v' s p \<noteq> None)"
proof -
  obtain r1 v1 where p: "local_ProvisionScope s v = (r1, v1)" by fastforce
  have e: "confined_verb f (local_engine H rnd) s CallProvisionScope v = (case r1 of Inl err \<Rightarrow> (Inl err, v1) | Inr _ \<Rightarrow> (Inr ReplyUnit, v1))"
    using p by (cases r1) (simp_all add: confined_local [OF assms(2)] local_engine_def reply_def)
  then have rest: "scaffold_markers (confined_verb f (local_engine H rnd)) s markers v1 = (Inr x, v')"
    using assms(4) by (cases r1) (auto simp: scaffoldScope_def)
  have k: "data_kept s v v1" using provision_spec [OF p assms(1)] by blast
  then have wf1: "vol_wf v1" using assms(1) by (simp add: data_kept_def)
  have g: "\<forall>sub\<in>set markers. \<exists>q. guestPath sub = Inr q"
  proof
    fix sub assume "sub \<in> set markers"
    then have "ok (guestPath sub)" using assms(3) by (simp add: list_all_iff)
    then show "\<exists>q. guestPath sub = Inr q" by (cases "guestPath sub") simp_all
  qed
  note m = scaffold_markers_visible [OF assms(2) rest wf1 g]
  have "visible_at v' s p \<noteq> None" if "p \<noteq> []" "visible_at v s p \<noteq> None" for p
  proof -
    have "visible_at v1 s p \<noteq> None" using k assms(1) that by (simp add: data_kept_def)
    with m show ?thesis by blast
  qed
  with m show ?thesis by blast
qed

end
