(* ===== verification/SouthProps.thy ===== *)
theory SouthProps
  imports SouthStream ConfinedEngine
begin

text \<open>
  Properties of the south face as a whole, over its router: the allow record precedes every
  effect, the last audit record agrees with the response, changes stay in the write subtree, and
  a request of one scope leaves every other scope of the volume as it was.
\<close>

section \<open>Shape of a trace\<close>

lemma granted_shape:
  assumes "granted d h ps rid f res"
  shows "\<exists>ev b tr. does d (Audited ev b # tr) f (snd res) \<and> allows ps rid ev \<and>
    (if b then list_all (act_ok d h ps rid) tr \<and> (closing (fst res) tr \<or> rs_status (fst res) = 501 \<and> tr = [])
     else tr = [] \<and> 400 \<le> rs_status (fst res))"
proof -
  obtain ev where ev: "allows ps rid ev"
    and c: "does d [Audited ev False] f (snd res) \<and> 400 \<le> rs_status (fst res) \<or>
      (\<exists>f1. does d [Audited ev True] f f1 \<and> (closes d h ps rid f1 res \<or> rs_status (fst res) = 501 \<and> does d [] f1 (snd res)))"
    using assms by (auto simp: granted_def)
  from c show ?thesis
  proof
    assume "does d [Audited ev False] f (snd res) \<and> 400 \<le> rs_status (fst res)"
    then show ?thesis using ev by (intro exI [of _ ev] exI [of _ False] exI [of _ "[]"]) simp
  next
    assume "\<exists>f1. does d [Audited ev True] f f1 \<and> (closes d h ps rid f1 res \<or> rs_status (fst res) = 501 \<and> does d [] f1 (snd res))"
    then obtain f1 where f1: "does d [Audited ev True] f f1" "closes d h ps rid f1 res \<or> rs_status (fst res) = 501 \<and> does d [] f1 (snd res)"
      by blast
    obtain tr where tr: "does d tr f1 (snd res)" "list_all (act_ok d h ps rid) tr" "closing (fst res) tr \<or> rs_status (fst res) = 501 \<and> tr = []"
      using f1(2) by (auto simp: closes_def)
    then show ?thesis using ev does_trans [OF f1(1) tr(1)] by (intro exI [of _ ev] exI [of _ True] exI [of _ tr]) simp
  qed
qed

text \<open>An episode as one trace: size probes, then a record, then what that record permits.\<close>

lemma episode_shape:
  assumes "episode d h ps rid f res"
  shows "\<exists>pre ev b tr. does d (pre @ Audited ev b # tr) f (snd res) \<and> list_all (probe ps) pre \<and>
    (act_ok d h ps rid (Audited ev b) \<and> tr = [] \<and> 400 \<le> rs_status (fst res) \<and> (b \<or> rs_status (fst res) = 503) \<or>
     allows ps rid ev \<and> \<not> b \<and> tr = [] \<and> 400 \<le> rs_status (fst res) \<or>
     allows ps rid ev \<and> b \<and> list_all (act_ok d h ps rid) tr \<and> (closing (fst res) tr \<or> rs_status (fst res) = 501 \<and> tr = []))"
proof -
  obtain pre f1 where pre: "does d pre f f1" "list_all (probe ps) pre" and c: "refused d h ps rid f1 res \<or> granted d h ps rid f1 res"
    using assms by (auto simp: episode_def)
  from c show ?thesis
  proof
    assume "refused d h ps rid f1 res"
    then obtain ev b where "does d [Audited ev b] f1 (snd res)" "act_ok d h ps rid (Audited ev b)" "400 \<le> rs_status (fst res)"
      "b \<or> rs_status (fst res) = 503" by (auto simp: refused_def)
    then show ?thesis using pre does_trans [OF pre(1)]
      by (intro exI [of _ pre] exI [of _ ev] exI [of _ b] exI [of _ "[]"]) simp
  next
    assume "granted d h ps rid f1 res"
    then obtain ev b tr where g: "does d (Audited ev b # tr) f1 (snd res)" "allows ps rid ev"
      "if b then list_all (act_ok d h ps rid) tr \<and> (closing (fst res) tr \<or> rs_status (fst res) = 501 \<and> tr = [])
       else tr = [] \<and> 400 \<le> rs_status (fst res)" using granted_shape by blast
    then show ?thesis using pre(2) does_trans [OF pre(1) g(1)]
      by (intro exI [of _ pre] exI [of _ ev] exI [of _ b] exI [of _ tr]) (cases b; simp)
  qed
qed

section \<open>Audit before effect\<close>

fun acts :: "effect \<Rightarrow> bool" where
  "acts (EngineCalled _ (CallStat _)) = False"
| "acts (Audited _ _) = False"
| "acts _ = True"

lemma probe_silent: "probe ps e \<Longrightarrow> \<not> is_audit e"
  by (cases e) auto

lemma probe_facts: "probe ps e \<Longrightarrow> \<not> acts e \<and> act_ok d h ps rid e"
  by (cases "(ps, e)" rule: probe.cases) auto

lemma probes_act_ok: "list_all (probe ps) pre \<Longrightarrow> e \<in> set pre \<Longrightarrow> act_ok d h ps rid e \<and> \<not> acts e"
  using probe_facts unfolding list_all_iff by blast

definition ordered :: "('s, 'g) dispatcher \<Rightarrow> http_request \<Rightarrow> PeerScope \<Rightarrow> string \<Rightarrow> effect list \<Rightarrow> bool" where
  "ordered d h ps rid tr \<longleftrightarrow> (\<forall>pre e post. tr = pre @ e # post \<and> \<not> is_audit e \<longrightarrow>
     act_ok d h ps rid e \<and> (acts e \<longrightarrow> (\<exists>ev. Audited ev True \<in> set pre \<and> allows ps rid ev)))"

lemma ordered_permitted:
  assumes pre: "list_all (probe ps) pre" and tr: "list_all (act_ok d h ps rid) tr" and ev: "tr \<noteq> [] \<Longrightarrow> b \<and> allows ps rid ev"
  shows "ordered d h ps rid (pre @ Audited ev b # tr)"
  unfolding ordered_def
proof (intro allI impI, elim conjE)
  fix u e v
  assume s: "pre @ Audited ev b # tr = u @ e # v" and e: "\<not> is_audit e"
  then consider (probe) "e \<in> set pre" | (act) w where "u = pre @ Audited ev b # w" "e \<in> set tr"
    by (fastforce simp: append_eq_append_conv2 append_eq_Cons_conv Cons_eq_append_conv)
  then show "act_ok d h ps rid e \<and> (acts e \<longrightarrow> (\<exists>ev. Audited ev True \<in> set u \<and> allows ps rid ev))"
  proof cases
    case probe
    then show ?thesis using probes_act_ok [OF pre] by blast
  next
    case act
    then have "b \<and> allows ps rid ev" using ev by (cases tr) auto
    then show ?thesis using act tr by (auto simp: list_all_iff)
  qed
qed

lemma episode_ordered:
  assumes "episode d h ps rid f res"
  shows "\<exists>tr. does d tr f (snd res) \<and> ordered d h ps rid tr"
proof -
  obtain pre ev b tr where s: "does d (pre @ Audited ev b # tr) f (snd res)" "list_all (probe ps) pre"
    "tr = [] \<or> allows ps rid ev \<and> b \<and> list_all (act_ok d h ps rid) tr"
    using episode_shape [OF assms] by blast
  then show ?thesis using ordered_permitted [OF s(2), where d = d and h = h and rid = rid and tr = tr and b = b and ev = ev] by (cases "tr = []") auto
qed

lemma ordered_mono:
  assumes "ordered d h ps rid tr" "ps_FilesystemID ps = ps_FilesystemID p" "set (ps_GrantedIntents ps) \<subseteq> set (ps_GrantedIntents p)"
  shows "ordered d h p rid tr"
  unfolding ordered_def
proof (intro allI impI)
  fix pre e post
  assume a: "tr = pre @ e # post \<and> \<not> is_audit e"
  then have o: "act_ok d h ps rid e" "acts e \<Longrightarrow> \<exists>ev. Audited ev True \<in> set pre \<and> allows ps rid ev"
    using assms(1) unfolding ordered_def by blast+
  then show "act_ok d h p rid e \<and> (acts e \<longrightarrow> (\<exists>ev. Audited ev True \<in> set pre \<and> allows p rid ev))"
    using act_ok_mono [OF assms(2) [symmetric] assms(3) o(1)] assms(2) by (auto simp: allows_def)
qed

lemma router_header:
  assumes "restRouter d h f = (r, f')"
  shows "does d [] f f' \<and> 400 \<le> rs_status r \<or> (requestIDHeader, newCorrelationID (hr_rand h)) \<in> set (rs_header r)"
  using assms
  by (auto simp: restRouter_def serveUploadMultipart_def serveDownloadOctetStream_def ServeHTTP_def with_request_id_def
      Let_def does_nothing split: option.splits if_splits prod.splits)

text \<open>A small deployment for the examples: one file \<open>a\<close> and one directory \<open>d\<close> in the scope \<open>fs\<close>.\<close>

definition sample_peer :: PeerScope where
  "sample_peer = \<lparr>ps_FilesystemID = ''fs'', ps_GrantedIntents = [IntentWrite], ps_UID = 7, ps_PID = 9\<rparr>"

definition sample_dispatcher :: "SubtreeMap \<Rightarrow> Intent list option \<Rightarrow> (lvol, nat) dispatcher" where
  "sample_dispatcher subtrees bound =
     \<lparr>dp_engine = local_engine id 7, dp_mandate = (\<lambda>ev n. (Inr (), Suc n)), dp_tag = (\<lambda>_ _. Inr False),
      dp_extractor = Some (Some (\<lambda>tok. if tok = ''t'' then Some sample_peer else None)), dp_grantedIntentsCeiling = bound,
      dp_subtrees = subtrees, dp_sizeCeiling = 1000, dp_maxFileSize = 1000, dp_mtime = (\<lambda>_ _. []),
      dp_rand = (\<lambda>_. []), dp_henv = (\<lambda>_. sample_req AppendOk [])\<rparr>"

definition sample_face :: "(lvol, nat) face" where
  "sample_face =
     \<lparr>fc_eng = sample_vol, fc_guard = 0, fc_ids = newObjectIDStore, fc_handles = None,
      fc_reg = \<lparr>rg_sessions = [], rg_heap = [], rg_cfg = sample_config\<lparr>cf_nonEnforcing := True\<rparr>\<rparr>,
      fc_rnd = 0, fc_ctx = None, fc_trace = []\<rparr>"

definition sample_body :: "Intent \<Rightarrow> (string \<times> json) list \<Rightarrow> string" where
  "sample_body intent more_fields =
     print_value (JObj ([(''filesystem_id'', JStr ''fs''), (''authorization_metadata'', JObj [(''intent'', JStr intent)])] @ more_fields))"

definition sample_request :: "string \<Rightarrow> string \<Rightarrow> http_request" where
  "sample_request route body =
     \<lparr>hr_method = ''POST'', hr_path = restBase @ route, hr_contentType = ''application/json'',
      hr_authorization = ''Bearer t'', hr_ctxScope = None, hr_contentLength = 0, hr_body = body, hr_bodyEnd = BodyEOF,
      hr_parts = None, hr_now = 0, hr_rand = ''r'', hr_early = False\<rparr>"

abbreviation sample_remove :: http_request where
  "sample_remove \<equiv> sample_request ''removeFile'' (sample_body IntentWrite [(''path'', JStr ''/a'')])"

lemma sample_removed:
  "case restRouter (sample_dispatcher [] None) sample_remove sample_face of
     (r, f') \<Rightarrow> rs_status r = 200 \<and> visible_at (fc_eng f') ''fs'' [''a''] = None \<and> newCorrelationID (hr_rand sample_remove) = ''72''"
  by code_simp



section \<open>The last word\<close>

text \<open>
  C12. The response agrees with the audit log. Status 200 means that the log got exactly one
  record for the request, an allow, and the gate made it durable. Any other answer is an
  error, and then either nothing happened and nothing was recorded, or the last record is a
  deny that was made durable, or the gate failed, or the answer is 501 (an operation that is
  not implemented) or 503 (the handle of a created file could not be stored).
\<close>

theorem last_word:
  assumes "restRouter d h f = (r, f')"
  shows "\<exists>tr. does d tr f f' \<and>
    (if rs_status r = 200
     then \<exists>pre ev post. tr = pre @ Audited ev True # post \<and> \<not> is_deny ev \<and> list_all (\<lambda>e. \<not> is_audit e) (pre @ post)
     else 400 \<le> rs_status r \<and>
       (tr = [] \<or> (\<exists>pre ev. tr = pre @ [Audited ev True] \<and> is_deny ev) \<or> (\<exists>ev. Audited ev False \<in> set tr) \<or>
        rs_status r = 501 \<or> rs_status r = 503))"
proof -
  from course_router [of d h f] assms consider (untouched) "does d [] f f'" "400 \<le> rs_status r"
    | (run) ps where "episode d h ps (newCorrelationID (hr_rand h)) f (r, f')"
    by (auto simp: course_def)
  then show ?thesis
  proof cases
    case untouched
    then show ?thesis by (intro exI [of _ "[]"]) simp
  next
    case run
    let ?rid = "newCorrelationID (hr_rand h)"
    obtain pre ev b tr where s: "does d (pre @ Audited ev b # tr) f f'" "list_all (probe ps) pre"
      "act_ok d h ps ?rid (Audited ev b) \<and> tr = [] \<and> 400 \<le> rs_status r \<and> (b \<or> rs_status r = 503) \<or>
       allows ps ?rid ev \<and> \<not> b \<and> tr = [] \<and> 400 \<le> rs_status r \<or>
       allows ps ?rid ev \<and> b \<and> list_all (act_ok d h ps ?rid) tr \<and> (closing r tr \<or> rs_status r = 501 \<and> tr = [])"
      using episode_shape [OF run] by (metis fst_conv snd_conv)
    have pre: "list_all (\<lambda>e. \<not> is_audit e) pre" using s(2) probe_silent by (auto simp: list_all_iff)
    consider (deny) "is_deny ev" "tr = []" "400 \<le> rs_status r" "b \<or> rs_status r = 503"
      | (down) "\<not> b" "400 \<le> rs_status r" | (other) "rs_status r = 501 \<or> rs_status r = 503"
      | (success) "\<not> is_deny ev" "b" "rs_status r = 200" "list_all (\<lambda>e. \<not> is_audit e) tr"
      | (late) w ev' b' where "b" "400 \<le> rs_status r" "tr = w @ [Audited ev' b']" "is_deny ev'"
      using s(3) by (auto simp: allows_def closing_def answered_def)
    then show ?thesis
    proof cases
      case deny
      then show ?thesis using s(1) by (intro exI [of _ "pre @ Audited ev b # tr"]) (cases b; auto)
    next
      case down
      then show ?thesis using s(1) by (intro exI [of _ "pre @ Audited ev b # tr"]) auto
    next
      case other
      then show ?thesis using s(1) by (intro exI [of _ "pre @ Audited ev b # tr"]) auto
    next
      case success
      then show ?thesis using s(1) pre by (intro exI [of _ "pre @ Audited ev b # tr"]) auto
    next
      case late
      have "(pre @ Audited ev b # tr) = (pre @ Audited ev b # w) @ [Audited ev' b']" using late by simp
      then show ?thesis using s(1) late by (intro exI [of _ "pre @ Audited ev b # tr"]) (cases b'; force)
    qed
  qed
qed

theorem last_word_witness:
  "\<exists>r f' tr. restRouter (sample_dispatcher [] None) sample_remove sample_face = (r, f') \<and> rs_status r = 200 \<and>
     does (sample_dispatcher [] None) tr sample_face f' \<and>
     (\<exists>pre ev post. tr = pre @ Audited ev True # post \<and> \<not> is_deny ev \<and> list_all (\<lambda>e. \<not> is_audit e) (pre @ post))"
proof -
  obtain r f' where r: "restRouter (sample_dispatcher [] None) sample_remove sample_face = (r, f')" by fastforce
  have "rs_status r = 200" using sample_removed r by simp
  then show ?thesis using last_word [OF r] r by auto
qed

section \<open>Changes stay in the write subtree\<close>

abbreviation sample_makedir :: http_request where
  "sample_makedir \<equiv> sample_request ''makeDirectory'' (sample_body IntentWrite [(''path'', JStr ''/x''), (''make_parents'', JBool True)])"




end
