(* ===== verification/SouthDeploy.thy ===== *)
theory SouthDeploy
  imports SouthProps
begin

text \<open>
  The south face wired as the daemon wires it: the deployment engine over the local volume
  behind it, the file-backed audit sink behind its gate (\<open>src/internal/broker/broker.go\<close>,
  \<open>guardAdapter\<close>). The properties follow a request through all the layers: it leaves every
  other scope of the volume as it was, and a success has its allow record on disk.
\<close>

section \<open>The audit sink as the gate\<close>

text \<open>
  What the n-th call of the sink finds: whether its context is done, the clock, and the outcome
  of the append.
\<close>

record gate_env =
  ge_done :: "nat \<Rightarrow> bool"
  ge_now :: "nat \<Rightarrow> i64"
  ge_io :: "nat \<Rightarrow> append_io"

definition gate_mandate :: "(string \<Rightarrow> string) \<Rightarrow> gate_env \<Rightarrow> FileActivityEvent \<Rightarrow> nat \<times> FileSink \<Rightarrow>
    (south_err, unit) res \<times> nat \<times> FileSink" where
  "gate_mandate H env ev g =
     (case Mandate H (ge_done env (fst g)) (ge_now env (fst g)) (ge_io env (fst g)) (Activity ev) (snd g) of
        (Inl _, s) \<Rightarrow> (Inl sErrAuditUnavailable, Suc (fst g), s)
      | (Inr _, s) \<Rightarrow> (Inr (), Suc (fst g), s))"

lemma gate_mandate_ok:
  assumes "gate_mandate H env ev g = (Inr (), g')"
  shows "\<exists>now. sk_file (snd g') = sk_file (snd g) @ event_line (stamp now (snd g) ev) @ [newline]"
proof -
  obtain x s where m: "Mandate H (ge_done env (fst g)) (ge_now env (fst g)) (ge_io env (fst g)) (Activity ev) (snd g) = (x, s)" by fastforce
  then have "x = Inr ()" "snd g' = s" using assms by (auto simp: gate_mandate_def split: sum.splits)
  then show ?thesis using Mandate_Inr [of H _ _ _ ev "snd g" s] m by auto
qed

lemma allows_stamp: "allows ps rid (stamp now s ev) = allows ps rid ev"
  by (simp add: allows_def is_deny_def stamp_def Let_def)

lemma replay_no_audit: "list_all (\<lambda>e. \<not> is_audit e) tr \<Longrightarrow> replay_guard d tr g g' \<Longrightarrow> g' = g"
  by (induction d tr g g' rule: replay_guard.induct) auto

lemma replay_one_audit:
  assumes "replay_guard d (pre @ Audited ev True # post) g g'" "list_all (\<lambda>e. \<not> is_audit e) (pre @ post)"
  shows "dp_mandate d ev g = (Inr (), g')"
proof -
  have "replay_guard d (Audited ev True # post) g g'" using assms
  proof (induction pre)
    case (Cons e pre)
    then show ?case by (cases e) auto
  qed simp
  then show ?thesis using replay_no_audit [of post d "snd (dp_mandate d ev g)" g'] assms(2)
    by (cases "dp_mandate d ev g") (auto simp: ok_def split: sum.splits)
qed

text \<open>The allow record of a success.\<close>

lemma success_allow:
  assumes "restRouter d h f = (r, f')" "rs_status r = 200"
  shows "\<exists>p ev. caller d h = Some p \<and> allows p (newCorrelationID (hr_rand h)) ev \<and> dp_mandate d ev (fc_guard f) = (Inr (), fc_guard f')"
proof -
  let ?rid = "newCorrelationID (hr_rand h)"
  from course_router [of d h f] assms obtain p ps where run: "caller d h = Some p" "ps_FilesystemID ps = ps_FilesystemID p"
      "episode d h ps ?rid f (r, f')"
    by (auto simp: course_def)
  obtain pre ev b tr where s: "does d (pre @ Audited ev b # tr) f f'" "list_all (probe ps) pre"
    "allows ps ?rid ev \<and> b \<and> closing r tr"
    using episode_shape [OF run(3)] assms(2) by fastforce
  have "list_all (\<lambda>e. \<not> is_audit e) pre" using s(2) probe_silent by (auto simp: list_all_iff)
  moreover have "list_all (\<lambda>e. \<not> is_audit e) tr" using s(3) assms(2) by (auto simp: closing_def answered_def)
  ultimately have "dp_mandate d ev (fc_guard f) = (Inr (), fc_guard f')"
    using replay_one_audit [of d pre ev tr] s(1,3) by (simp add: does_def)
  moreover have "allows p ?rid ev" using s(3) run(2) by (simp add: allows_def)
  ultimately show ?thesis using run(1) by blast
qed

section \<open>Properties\<close>

lemma replay_kept:
  assumes "dp_engine d = deployment_engine family markers (local_engine H rnd)"
    "\<forall>s c. EngineCalled s c \<in> set tr \<longrightarrow> s = scope" "vol_wf (lz_inner l)"
  shows "vol.kept (\<lambda>s. s \<noteq> scope) (lz_inner l) (lz_inner (replay_engine d tr l))"
  using assms(2,3)
proof (induction tr arbitrary: l)
  case Nil
  then show ?case by (simp add: vol.kept_refl)
next
  case (Cons e tr)
  show ?case
  proof (cases e)
    case (EngineCalled s c)
    then have s: "s = scope" using Cons.prems(1) by simp
    obtain x l1 where l1: "deployment_engine family markers (local_engine H rnd) scope c l = (x, l1)" by fastforce
    have k: "vol.kept (\<lambda>s. s \<noteq> scope) (lz_inner l) (lz_inner l1)"
      using vol.deployment_kept [of "\<lambda>s. s \<noteq> scope" family scope l markers "(H, rnd)" c x l1] Cons.prems(2) l1
      by (simp add: spares_def)
    then have "vol_wf (lz_inner l1)" by (simp add: vol.kept_def)
    moreover have "\<forall>s c. EngineCalled s c \<in> set tr \<longrightarrow> s = scope" using Cons.prems(1) by simp
    ultimately have "vol.kept (\<lambda>s. s \<noteq> scope) (lz_inner l1) (lz_inner (replay_engine d tr l1))" using Cons.IH by blast
    then show ?thesis using vol.kept_trans [OF k] EngineCalled s assms(1) l1 by simp
  qed (use Cons in simp_all)
qed


definition sample_deployment :: "(lvol lazy, nat \<times> FileSink) dispatcher" where
  "sample_deployment =
     \<lparr>dp_engine = deployment_engine \<lparr>sf_base = ''fs'', sf_re = Some ''fs''\<rparr> [] (local_engine id 7),
      dp_mandate = gate_mandate id \<lparr>ge_done = (\<lambda>_. False), ge_now = (\<lambda>_. 5), ge_io = (\<lambda>_. AppendOk)\<rparr>,
      dp_tag = (\<lambda>_ _. Inr False),
      dp_extractor = Some (Some (\<lambda>tok. if tok = ''t'' then Some sample_peer else None)), dp_grantedIntentsCeiling = None,
      dp_subtrees = [], dp_sizeCeiling = 1000, dp_maxFileSize = 1000, dp_mtime = (\<lambda>_ _. []),
      dp_rand = (\<lambda>_. []), dp_henv = (\<lambda>_. sample_req AppendOk [])\<rparr>"

definition sample_deployed :: "(lvol lazy, nat \<times> FileSink) face" where
  "sample_deployed =
     \<lparr>fc_eng = \<lparr>lz_inner = sample_vol, lz_done = [''fs'']\<rparr>, fc_guard = (0, fresh_sink [] (genesisHash id)),
      fc_ids = newObjectIDStore, fc_handles = None,
      fc_reg = \<lparr>rg_sessions = [], rg_heap = [], rg_cfg = sample_config\<lparr>cf_nonEnforcing := True\<rparr>\<rparr>,
      fc_rnd = 0, fc_ctx = None, fc_trace = []\<rparr>"


text \<open>
  C2. A success is on disk. On a face whose gate is the file-backed sink, a response with status
  200 means that the audit file grew by exactly one line, and that line is the record of an
  allow for the caller's scope under the correlation id of the response.
\<close>

theorem success_on_disk:
  assumes "dp_mandate d = gate_mandate H env" "restRouter d h f = (r, f')" "rs_status r = 200"
  shows "\<exists>p ev. caller d h = Some p \<and> allows p (newCorrelationID (hr_rand h)) ev \<and>
    sk_file (snd (fc_guard f')) = sk_file (snd (fc_guard f)) @ event_line ev @ [newline]"
proof -
  obtain p ev where e: "caller d h = Some p" "allows p (newCorrelationID (hr_rand h)) ev"
    "dp_mandate d ev (fc_guard f) = (Inr (), fc_guard f')"
    using success_allow [OF assms(2,3)] by blast
  then obtain now where "sk_file (snd (fc_guard f')) = sk_file (snd (fc_guard f)) @ event_line (stamp now (snd (fc_guard f)) ev) @ [newline]"
    using gate_mandate_ok [of H env ev "fc_guard f" "fc_guard f'"] assms(1) by auto
  then show ?thesis using e allows_stamp by blast
qed

theorem success_on_disk_witness:
  "\<exists>r f' ev. restRouter sample_deployment sample_remove sample_deployed = (r, f') \<and> rs_status r = 200 \<and>
     allows sample_peer ''72'' ev \<and> sk_file (snd (fc_guard f')) = event_line ev @ [newline]"
proof -
  obtain r f' where r: "restRouter sample_deployment sample_remove sample_deployed = (r, f')" by fastforce
  have "case restRouter sample_deployment sample_remove sample_deployed of (r, f') \<Rightarrow> rs_status r = 200" by code_simp
  then have ok: "rs_status r = 200" using r by simp
  have m: "dp_mandate sample_deployment = gate_mandate id \<lparr>ge_done = (\<lambda>_. False), ge_now = (\<lambda>_. 5), ge_io = (\<lambda>_. AppendOk)\<rparr>"
    by (simp add: sample_deployment_def)
  have c: "caller sample_deployment sample_remove = Some sample_peer" "newCorrelationID (hr_rand sample_remove) = ''72''" by code_simp+
  have "sk_file (snd (fc_guard sample_deployed)) = []" by (simp add: sample_deployed_def fresh_sink_def)
  then show ?thesis using success_on_disk [OF m r ok] c ok r by auto
qed

end
