(* ===== verification/FilesEffects.thy ===== *)
theory FilesEffects
  imports FilesApi SouthDeploy
begin

text \<open>
  What the handlers of the Files API do to the shared state. A request looks things up, then
  offers one record to the audit gate, and goes on only after an allow record is durable; every
  engine and handle call names the attested scope, and only a create changes the volume, below
  the create subtree. One rule per building block carries the proofs of the handlers.
\<close>

section \<open>Permitted effects\<close>

fun looked :: "PeerScope \<Rightarrow> effect \<Rightarrow> bool" where
  "looked ps (EngineCalled s (CallStat _)) \<longleftrightarrow> s = ps_FilesystemID ps"
| "looked ps (HandleCalled s) \<longleftrightarrow> s = ps_FilesystemID ps"
| "looked ps _ \<longleftrightarrow> False"

definition owned :: "PeerScope \<Rightarrow> string \<Rightarrow> FileActivityEvent \<Rightarrow> bool" where
  "owned ps rid ev \<longleftrightarrow> ev_FilesystemID ev = ps_FilesystemID ps \<and> CorrelationUID ev = rid"

fun files_act :: "(engine_call \<Rightarrow> bool) \<Rightarrow> PeerScope \<Rightarrow> string \<Rightarrow> effect \<Rightarrow> bool" where
  "files_act W ps rid (EngineCalled s c) \<longleftrightarrow> s = ps_FilesystemID ps \<and> (call_mutates c \<longrightarrow> W c)"
| "files_act W ps rid (HandleCalled s) \<longleftrightarrow> s = ps_FilesystemID ps"
| "files_act W ps rid (Audited ev b) \<longleftrightarrow> owned ps rid ev"

definition steps :: "('s, 'g) dispatcher \<Rightarrow> (effect \<Rightarrow> bool) \<Rightarrow> ('s, 'g) face \<Rightarrow> ('s, 'g) face \<Rightarrow> bool" where
  "steps d P f f' \<longleftrightarrow> (\<exists>tr. does d tr f f' \<and> list_all P tr)"

definition answers :: "('s, 'g) Deps \<Rightarrow> (engine_call \<Rightarrow> bool) \<Rightarrow> PeerScope \<Rightarrow> string \<Rightarrow> ('s, 'g) face \<Rightarrow>
    response \<times> ('s, 'g) face \<Rightarrow> bool" where
  "answers h W ps rid f res \<longleftrightarrow>
     (\<exists>f1. steps (fa_d h) (looked ps) f f1 \<and>
       (does (fa_d h) [] f1 (snd res) \<and> 400 \<le> rs_status (fst res) \<or>
        (\<exists>ev b. does (fa_d h) [Audited ev b] f1 (snd res) \<and> owned ps rid ev \<and> 400 \<le> rs_status (fst res)) \<or>
        (\<exists>ev f2. does (fa_d h) [Audited ev True] f1 f2 \<and> allows ps rid ev \<and>
           steps (fa_d h) (files_act W ps rid) f2 (snd res))))"

section \<open>Rules\<close>

lemma steps_refl [simp]: "steps d P f f"
  by (auto simp: steps_def does_nothing intro: exI [of _ "[]"])

lemma steps_trans: "steps d P f f1 \<Longrightarrow> steps d P f1 f2 \<Longrightarrow> steps d P f f2"
  unfolding steps_def using does_trans list_all_append by metis

lemma steps_one: "does d [e] f f1 \<Longrightarrow> P e \<Longrightarrow> steps d P f f1"
  unfolding steps_def by (intro exI [of _ "[e]"]) simp

lemma steps_nothing: "does d [] f f1 \<Longrightarrow> steps d P f f1"
  unfolding steps_def by (intro exI [of _ "[]"]) simp

lemma handle_op_does: "handle_op d s g st f = (x, f1) \<Longrightarrow> does d [HandleCalled s] f f1"
  by (auto simp: handle_op_def emit_effect_def Let_def does_def split: prod.splits)

lemma store_op_does: "store_op h s g f = (x, f1) \<Longrightarrow> does (fa_d h) [HandleCalled s] f f1"
  by (auto simp: store_op_def dest: handle_op_does)

lemma files_session_does: "files_session s f = (i, f1) \<Longrightarrow> does d [] f f1"
  by (auto simp: files_session_def does_nothing Let_def split: prod.splits)

lemma session_op_does: "session_op r n i f = (b, f1) \<Longrightarrow> does d [] f f1"
  by (auto simp: session_op_def Let_def dest: session_does split: prod.splits)

lemma ctx_err_does: "ctx_err f = (b, f1) \<Longrightarrow> does d [] f f1"
  by (auto simp: ctx_err_def does_nothing split: option.splits nat.splits)

lemma refuse_status [simp]: "400 \<le> rs_status (refuse c m)"
  using status_refuse [of c m] by linarith

lemma resolution_status [simp]: "400 \<le> rs_status (writeResolutionDeny e rid)"
  using MapDeny_status_ge [of dc_NotFound] by (auto simp: writeResolutionDeny_def status_deny split: hs_err.splits)

lemma files_refusals [simp]: "400 \<le> rs_status rate_refusal" "400 \<le> rs_status writeNotFound" "400 \<le> rs_status (writeMethodNotAllowed a)"
  by (simp_all add: rate_refusal_def writeNotFound_def writeMethodNotAllowed_def Let_def status_deny withStatus_def)

lemma answers_refuse: "400 \<le> rs_status r \<Longrightarrow> answers h W ps rid f (r, f)"
  unfolding answers_def by (intro exI [of _ f]) (simp add: does_nothing)

lemma answers_after: "steps (fa_d h) (looked ps) f f1 \<Longrightarrow> answers h W ps rid f1 res \<Longrightarrow> answers h W ps rid f res"
  unfolding answers_def using steps_trans by blast

lemma answers_nothing: "does (fa_d h) [] f f1 \<Longrightarrow> answers h W ps rid f1 res \<Longrightarrow> answers h W ps rid f res"
  using answers_after steps_nothing by blast

lemma answers_deny: "owned ps rid ev \<Longrightarrow> answers h W ps rid f (audited_deny h ev cls m f)"
proof -
  assume o: "owned ps rid ev"
  obtain x f1 where m: "mandate (fa_d h) ev f = (x, f1)" by fastforce
  have "snd (audited_deny h ev cls m f) = f1" "400 \<le> rs_status (fst (audited_deny h ev cls m f))"
    using m by (auto simp: audited_deny_def split: sum.splits)
  then show ?thesis unfolding answers_def using mandate_does [OF m] o by (intro exI [of _ f]) auto
qed

lemma owned_event [simp]: "owned ps rid (files_event a ps ob n i b d rid)"
  by (simp add: owned_def files_event_def)

lemma allows_event [simp]: "allows ps rid (files_event a ps ob n i b None rid)"
  by (simp add: allows_def is_deny_def files_event_def DispositionAllow_def DispositionDeny_def)

lemma owned_events [simp]:
  "owned ps rid (readAllowEvent ps rec g rid)" "owned ps rid (readDenyEvent ps rec g c rid)"
  "owned ps rid (listAllowEvent ps g rid)" "owned ps rid (listDenyEvent ps g c rid)"
  "owned ps rid (createAllowEvent ps ref g n rid)" "owned ps rid (createDenyEvent ps ref g c rid)"
  "owned ps rid (deleteAllowEvent ps rec rid)" "owned ps rid (deleteDenyEvent ps rec c rid)"
  "allows ps rid (readAllowEvent ps rec g rid)" "allows ps rid (listAllowEvent ps g rid)"
  "allows ps rid (createAllowEvent ps ref g n rid)" "allows ps rid (deleteAllowEvent ps rec rid)"
  by (simp_all add: readAllowEvent_def readDenyEvent_def listAllowEvent_def listDenyEvent_def createAllowEvent_def
      createDenyEvent_def deleteAllowEvent_def deleteDenyEvent_def)

lemma answers_denials [simp]:
  "answers h W ps rid f (denyRead h ps rec g rid c m f)" "answers h W ps rid f (denyList h ps g rid c m f)"
  "answers h W ps rid f (denyDelete h ps rec rid c m f)" "answers h W ps rid f (denyCreate h ps ref g rid c m f)"
  by (simp_all add: denyRead_def denyList_def denyDelete_def denyCreate_def answers_deny)

lemma answers_admit:
  assumes "\<And>i f2. answers h W ps rid f2 (K i f2)"
  shows "answers h W ps rid f
    (case files_session s f of (i, f1) \<Rightarrow> case session_op r n i f1 of (adm, f2) \<Rightarrow> if \<not> adm then (rate_refusal, f2) else K i f2)"
proof -
  obtain i f1 where i: "files_session s f = (i, f1)" by fastforce
  obtain b f2 where b: "session_op r n i f1 = (b, f2)" by fastforce
  have d: "does (fa_d h) [] f f2" using does_fst_nothing [OF files_session_does [OF i] session_op_does [OF b]] .
  show ?thesis using answers_nothing [OF d assms] answers_nothing [OF d answers_refuse] i b by simp
qed

lemma answers_get:
  assumes "\<And>e f1. answers h W ps rid f1 (A e f1)" "\<And>rec f1. answers h W ps rid f1 (B rec f1)"
  shows "answers h W ps rid f (case store_get h fid (ps_FilesystemID ps) f of (Inl e, f1) \<Rightarrow> A e f1 | (Inr rec, f1) \<Rightarrow> B rec f1)"
proof -
  obtain x f1 where x: "store_get h fid (ps_FilesystemID ps) f = (x, f1)" by fastforce
  then have "steps (fa_d h) (looked ps) f f1" by (auto simp: store_get_def intro: steps_one dest: store_op_does)
  then show ?thesis using x assms by (cases x) (auto intro: answers_after)
qed

lemma answers_grant:
  assumes "allows ps rid ev" "\<And>f1. steps (fa_d h) (files_act W ps rid) f1 (snd (K f1))"
  shows "answers h W ps rid f (case mandate (fa_d h) ev f of (Inl _, f1) \<Rightarrow> (refuse c m, f1) | (Inr _, f1) \<Rightarrow> K f1)"
proof -
  obtain x f1 where m: "mandate (fa_d h) ev f = (x, f1)" by fastforce
  have "owned ps rid ev" using assms(1) by (simp add: allows_def owned_def)
  then show ?thesis
  proof (cases x)
    case (Inl e)
    then show ?thesis using mandate_does [OF m] m \<open>owned ps rid ev\<close> unfolding answers_def by (intro exI [of _ f]) (auto simp: ok_def)
  next
    case (Inr u)
    then have "does (fa_d h) [Audited ev True] f f1" using mandate_does [OF m] by (simp add: ok_def)
    then show ?thesis using m Inr assms unfolding answers_def by (intro exI [of _ f]) (auto intro!: exI [of _ ev] exI [of _ f1])
  qed
qed

text \<open>After the allow record: engine calls, handle calls, further records and ceilings.\<close>

abbreviation goes :: "('s, 'g) Deps \<Rightarrow> (engine_call \<Rightarrow> bool) \<Rightarrow> PeerScope \<Rightarrow> string \<Rightarrow> ('s, 'g) face \<Rightarrow> ('s, 'g) face \<Rightarrow> bool" where
  "goes h W ps rid \<equiv> steps (fa_d h) (files_act W ps rid)"

lemma goes_store: "store_op h (ps_FilesystemID ps) g f = (x, f1) \<Longrightarrow> goes h W ps rid f f1"
  by (auto intro: steps_one dest: store_op_does)

lemma goes_engine: "engine (fa_d h) (ps_FilesystemID ps) c f = (x, f1) \<Longrightarrow> (call_mutates c \<Longrightarrow> W c) \<Longrightarrow> goes h W ps rid f f1"
  by (auto intro: steps_one dest: engine_does)

lemma goes_mandate: "mandate (fa_d h) ev f = (x, f1) \<Longrightarrow> owned ps rid ev \<Longrightarrow> goes h W ps rid f f1"
  by (auto intro: steps_one dest: mandate_does)

lemma goes_session: "on_face_session i g f = (x, f1) \<Longrightarrow> goes h W ps rid f f1"
  by (auto intro: steps_nothing dest: session_does)

lemma goes_deny: "owned ps rid ev \<Longrightarrow> goes h W ps rid f (snd (audited_deny h ev c m f))"
  by (auto simp: audited_deny_def split: prod.splits sum.splits dest: goes_mandate)

section \<open>Handlers\<close>

lemma answers_metadata: "answers h W ps rid f (serveMetadata h ps fid rid r f)"
  unfolding serveMetadata_def Let_def
  by (intro answers_admit answers_get)
     (auto simp: answers_refuse intro!: answers_grant split: option.splits sum.splits)

lemma answers_delete: "answers h W ps rid f (serveDelete h ps fid rid r f)"
proof -
  have "goes h W ps rid f1 (snd (denyDeleteAfterAudit h ps rec e rid f1))" for rec e f1
    by (auto simp: denyDeleteAfterAudit_def Let_def split: prod.splits intro: goes_mandate)
  then have "goes h W ps rid f1 (snd (case store_op h (ps_FilesystemID ps) (\<lambda>q. delete_handle q fid (ps_FilesystemID ps)) f1 of
      (Inl e, f5) \<Rightarrow> denyDeleteAfterAudit h ps rec e rid f5 | (Inr _, f5) \<Rightarrow> (\<lparr>rs_status = 204, rs_header = [], rs_body = []\<rparr>, f5)))"
    for rec f1
    by (auto split: prod.splits sum.splits intro: steps_trans goes_store)
  then show ?thesis unfolding serveDelete_def Let_def
    by (intro answers_admit answers_get) (auto simp: answers_refuse intro!: answers_grant split: option.splits sum.splits)
qed

lemma looked_window:
  "content_window h ps p r f = (x, f1) \<Longrightarrow> steps (fa_d h) (looked ps) f f1"
  by (auto simp: content_window_def split: option.splits if_splits prod.splits sum.splits intro: steps_one dest!: engine_does)

lemma goes_content_stream: "goes h W ps rid f (snd (content_stream h ps i p w f))"
proof -
  obtain e f1 where e: "on_face_session i TryAcquireFD f = (e, f1)" by fastforce
  let ?c = "CallReadRange p (word_of_int (fst w)) (word_of_int (snd w))"
  obtain x f2 where x: "engine (fa_d h) (ps_FilesystemID ps) ?c f1 = (x, f2)" by fastforce
  obtain y f3 where y: "on_face_session i ReleaseFD f2 = (y, f3)" by fastforce
  have "goes h W ps rid f1 f2" by (rule goes_engine [OF x]) simp
  note steps_trans [OF steps_trans [OF goes_session [OF e] this] goes_session [OF y]]
  then show ?thesis using e x y goes_session [OF e, of h W ps rid] by (cases e) (simp_all add: content_stream_def)
qed

lemma answers_window:
  assumes "\<And>c m f4. answers h W ps rid f4 (A c m f4)" "\<And>w f4. answers h W ps rid f4 (B w f4)"
  shows "answers h W ps rid f (case content_window h ps p r f of (Inl (c, m), f4) \<Rightarrow> A c m f4 | (Inr w, f4) \<Rightarrow> B w f4)"
proof -
  obtain x f4 where x: "content_window h ps p r f = (x, f4)" by fastforce
  have "answers h W ps rid f4 (case (x, f4) of (Inl (c, m), f4) \<Rightarrow> A c m f4 | (Inr w, f4) \<Rightarrow> B w f4)"
    using assms by (auto split: sum.splits prod.splits)
  then show ?thesis using answers_after [OF looked_window [OF x]] x by simp
qed

lemma answers_content: "answers h W ps rid f (serveContent h ps fid rid r f)"
  unfolding serveContent_def Let_def
  by (intro answers_admit answers_get)
     (auto simp: answers_refuse intro!: answers_window answers_grant goes_content_stream split: option.splits sum.splits)

lemma goes_reconcile_loop: "goes h W ps rid f (reconcile_loop h (ps_FilesystemID ps) st f)"
proof (induction h "ps_FilesystemID ps" st f rule: reconcile_loop.induct)
  case (2 h rel es st f)
  obtain b f1 where b: "ctx_err f = (b, f1)" by fastforce
  note s1 = steps_nothing [OF ctx_err_does [OF b]]
  show ?case
  proof (cases "b \<or> es = []")
    case True
    then show ?thesis using 2(1) b s1 by (cases b) (auto simp: reconcile_loop.simps(2) split: list.splits intro: steps_trans)
  next
    case False
    then obtain e rest where es: "es = e # rest" by (cases es) auto
    let ?c = "child_rel rel (fi_name e)"
    obtain y f2 where y: "store_op h (ps_FilesystemID ps) (\<lambda>q. ensure_object q
       \<lparr>ei_scope = ps_FilesystemID ps, ei_object_ref = ?c, ei_filename = path_base ?c, ei_mime = [],
        ei_size = of_nat (fi_size e), ei_policy_ref = []\<rparr>) f1 = (y, f2)" by fastforce
    obtain x f3 where x: "engine (fa_d h) (ps_FilesystemID ps) (CallList ?c) f1 = (x, f3)" by fastforce
    have s2: "goes h W ps rid f f2" using steps_trans [OF s1 goes_store [OF y]] .
    have "goes h W ps rid f1 f3" by (rule goes_engine [OF x]) simp
    note s3 = steps_trans [OF s1 this]
    show ?thesis
    proof (cases "fi_is_dir e")
      case True
      then show ?thesis using 2(2) [OF b [symmetric] _ es True _ x [symmetric]] False b es x s1 s3
        by (cases x) (auto simp: reconcile_loop.simps(2) intro: steps_trans)
    next
      case plain: False
      then have "reconcile_loop h (ps_FilesystemID ps) ((rel, es) # st) f = reconcile_loop h (ps_FilesystemID ps) ((rel, rest) # st) f2"
        using False b es y by (simp add: reconcile_loop.simps(2) ensure_entry_def)
      moreover have "goes h W ps rid f2 (reconcile_loop h (ps_FilesystemID ps) ((rel, rest) # st) f2)"
        using 2(3) [OF b [symmetric] _ es plain] False y by (simp add: ensure_entry_def)
      ultimately show ?thesis using steps_trans [OF s2] by simp
    qed
  qed
qed simp

lemma goes_list_answer: "goes h W ps rid f (snd (list_answer h ps g rid inp f))"
proof -
  obtain x f1 where x: "store_op h (ps_FilesystemID ps) (\<lambda>_ st. (list_handles inp st, st)) f = (x, f1)" by fastforce
  note s1 = goes_store [OF x]
  show ?thesis
  proof (cases x)
    case (Inl e)
    obtain y f2 where y: "mandate (fa_d h) (listDenyEvent ps g (if e = ErrMalformedCursor then dc_Malformed else dc_BackendUnavailable) rid) f1 = (y, f2)"
      by fastforce
    then have "snd (list_answer h ps g rid inp f) = f2" using x Inl by (simp add: list_answer_def Let_def split: if_splits)
    then show ?thesis using steps_trans [OF s1 goes_mandate [OF y]] by simp
  next
    case (Inr pg)
    then show ?thesis using x s1 by (simp add: list_answer_def)
  qed
qed

lemma answers_list: "answers h W ps rid f (serveList h ps rid r f)"
proof -
  have "goes h W ps rid f1 (reconcileEngineNamespace h (ps_FilesystemID ps) f1)" for f1
  proof -
    obtain x f2 where x: "engine (fa_d h) (ps_FilesystemID ps) (CallList dot) f1 = (x, f2)" by fastforce
    have "goes h W ps rid f1 f2" by (rule goes_engine [OF x]) simp
    then show ?thesis using x steps_trans [OF _ goes_reconcile_loop] by (cases x) (auto simp: reconcileEngineNamespace_def)
  qed
  then have "goes h W ps rid f1 (snd (let f4 = (if b then reconcileEngineNamespace h (ps_FilesystemID ps) f1 else f1)
      in list_answer h ps g rid inp f4))" for b f1 g inp
    by (auto simp: Let_def goes_list_answer intro: steps_trans [OF _ goes_list_answer])
  then show ?thesis unfolding serveList_def Let_def
    by (intro answers_admit) (auto simp: answers_refuse Let_def intro!: answers_grant split: option.splits sum.splits)
qed

lemma consume_members_does: "consume_members r n i ids f = (b, f1) \<Longrightarrow> does d [] f f1"
proof (induction r n i ids f rule: consume_members.induct)
  case (2 r n i x ids f)
  obtain c f2 where c: "session_op r n i f = (c, f2)" by fastforce
  show ?case using 2 c does_fst_nothing [OF session_op_does [OF c, of d]] session_op_does [OF c, of d]
    by (cases c) auto
qed (simp add: does_nothing)

lemma looked_get: "store_get h fid (ps_FilesystemID ps) f = (x, f1) \<Longrightarrow> steps (fa_d h) (looked ps) f f1"
  by (auto simp: store_get_def intro: steps_one dest: store_op_does)

lemma looked_stat: "engine (fa_d h) (ps_FilesystemID ps) (CallStat p) f = (x, f1) \<Longrightarrow> steps (fa_d h) (looked ps) f f1"
  by (auto intro: steps_one dest: engine_does)

lemma looked_member: "archive_member h ps fid f = (x, f1) \<Longrightarrow> steps (fa_d h) (looked ps) f f1"
  by (auto simp: archive_member_def split: prod.splits sum.splits option.splits if_splits
      dest!: looked_get looked_stat intro: steps_trans)

lemma looked_members:
  "archive_members h ps ids f = (x, f1) \<Longrightarrow> steps (fa_d h) (looked ps) f f1 \<and> (\<forall>r. x = Inl r \<longrightarrow> 400 \<le> rs_status r)"
proof (induction h ps ids f arbitrary: x f1 rule: archive_members.induct)
  case (2 h ps fid ids f)
  obtain y f2 where y: "archive_member h ps fid f = (y, f2)" by fastforce
  note s1 = looked_member [OF y]
  show ?case
  proof (cases y)
    case (Inl r)
    moreover have "400 \<le> rs_status r" using y Inl
      by (auto simp: archive_member_def split: prod.splits sum.splits option.splits if_splits)
    ultimately show ?thesis using 2(2) y s1 by auto
  next
    case (Inr m)
    obtain z f3 where z: "archive_members h ps ids f2 = (z, f3)" by fastforce
    from 2(1) [OF y [symmetric] Inr z] steps_trans [OF s1] 2(2) y z Inr show ?thesis by (auto split: sum.splits)
  qed
qed simp

lemma goes_mandate_members: "mandate_members h ps rid ms f = (b, f1) \<Longrightarrow> goes h W ps rid f f1"
proof (induction h ps rid ms f rule: mandate_members.induct)
  case (2 h ps rid m ms f)
  obtain x f2 where x: "mandate (fa_d h) (readAllowEvent ps (mb_rec m) (mb_grant m) rid) f = (x, f2)" by fastforce
  note s = goes_mandate [OF x, of ps rid W]
  show ?case using 2 x s by (cases x) (auto intro: steps_trans)
qed simp

lemma goes_stream_archive: "streamArchive h ps i used ms f = (es, f1) \<Longrightarrow> goes h W ps rid f f1"
proof (induction h ps i used ms f arbitrary: es f1 rule: streamArchive.induct)
  case (2 h ps i used m ms f)
  obtain n used1 where n: "dedupeEntryName used (sanitizeEntryName (hr_filename (mb_rec m))) = (n, used1)" by fastforce
  obtain e f2 where e: "on_face_session i TryAcquireFD f = (e, f2)" by fastforce
  let ?c = "CallReadRange (mb_engPath m) 0 (of_int (mb_size m))"
  obtain x f3 where x: "engine (fa_d h) (ps_FilesystemID ps) ?c f2 = (x, f3)" by fastforce
  obtain y f4 where y: "on_face_session i ReleaseFD f3 = (y, f4)" by fastforce
  obtain es' f5 where r: "streamArchive h ps i used1 ms f4 = (es', f5)" by fastforce
  have "goes h W ps rid f2 f3" by (rule goes_engine [OF x]) simp
  note s4 = steps_trans [OF steps_trans [OF goes_session [OF e] this] goes_session [OF y]]
  have "f1 = f2 \<or> f1 = f4 \<or> f1 = f5 \<and> e = None \<and> \<not> read_failed x"
    using 2(2) n e x y r by (auto simp: Let_def split: option.splits if_splits)
  moreover have "goes h W ps rid f f5" if "e = None" "\<not> read_failed x"
    using steps_trans [OF s4 2(1) [OF n [symmetric] refl e [symmetric] that(1) x [symmetric] refl y [symmetric] refl that(2) r]] .
  ultimately show ?case using goes_session [OF e, of h W ps rid] s4 by blast
qed simp

lemma answers_consume:
  assumes "\<And>f3. answers h W ps rid f3 (K f3)"
  shows "answers h W ps rid f (case consume_members r n i ids f of (False, f3) \<Rightarrow> (refuse c m, f3) | (True, f3) \<Rightarrow> K f3)"
proof -
  obtain b f3 where b: "consume_members r n i ids f = (b, f3)" by fastforce
  show ?thesis using answers_nothing [OF consume_members_does [OF b]] assms b by (cases b) (auto simp: answers_refuse)
qed

lemma answers_members:
  assumes "\<And>ms f4. answers h W ps rid f4 (K ms f4)"
  shows "answers h W ps rid f (case archive_members h ps ids f of (Inl resp, f4) \<Rightarrow> (resp, f4) | (Inr ms, f4) \<Rightarrow> K ms f4)"
proof -
  obtain x f4 where x: "archive_members h ps ids f = (x, f4)" by fastforce
  have "answers h W ps rid f4 (case (x, f4) of (Inl resp, f4) \<Rightarrow> (resp, f4) | (Inr ms, f4) \<Rightarrow> K ms f4)"
    using assms looked_members [OF x] by (auto simp: answers_refuse split: sum.splits)
  then have "answers h W ps rid f (case (x, f4) of (Inl resp, f4) \<Rightarrow> (resp, f4) | (Inr ms, f4) \<Rightarrow> K ms f4)"
    by (rule answers_after [OF conjunct1 [OF looked_members [OF x]]])
  then show ?thesis using x by simp
qed

lemma answers_mandates:
  assumes ne: "ms \<noteq> []" and K: "\<And>f5. goes h W ps rid f5 (snd (K f5))"
  shows "answers h W ps rid f (case mandate_members h ps rid ms f of (False, f5) \<Rightarrow> (refuse c m, f5) | (True, f5) \<Rightarrow> K f5)"
proof -
  obtain m1 ms' where ms: "ms = m1 # ms'" using ne by (cases ms) auto
  let ?ev = "readAllowEvent ps (mb_rec m1) (mb_grant m1) rid"
  obtain x f5 where x: "mandate (fa_d h) ?ev f = (x, f5)" by fastforce
  obtain b f6 where b: "mandate_members h ps rid ms' f5 = (b, f6)" by fastforce
  note s6 = goes_mandate_members [OF b, of W]
  show ?thesis
  proof (cases x)
    case (Inl e)
    then show ?thesis unfolding answers_def using mandate_does [OF x] ms x by (intro exI [of _ f]) (auto simp: ok_def)
  next
    case (Inr u)
    then have "does (fa_d h) [Audited ?ev True] f f5" using mandate_does [OF x] by (simp add: ok_def)
    moreover have "goes h W ps rid f5 (snd (case mandate_members h ps rid ms f of (False, f5) \<Rightarrow> (refuse c m, f5) | (True, f5) \<Rightarrow> K f5))"
      using ms x Inr b s6 steps_trans [OF s6 K] by (cases b) auto
    ultimately show ?thesis unfolding answers_def by (intro exI [of _ f]) (auto intro!: exI [of _ ?ev] exI [of _ f5])
  qed
qed

lemma goes_archive_body: "goes h W ps rid f (snd (case streamArchive h ps i used ms f of (entries, f6) \<Rightarrow> (Q entries, f6)))"
  by (auto split: prod.splits intro: goes_stream_archive)

lemma answers_archive: "answers h W ps rid f (serveArchive h ps rid r f)"
  unfolding serveArchive_def Let_def
  by (intro answers_admit answers_consume answers_members)
     (auto simp: answers_refuse simp del: split_paired_All intro!: answers_mandates goes_archive_body)

section \<open>Create\<close>

text \<open>The object reference: plain components, below the create subtree when there is one.\<close>

definition plain_path :: "string \<Rightarrow> bool" where
  "plain_path p \<longleftrightarrow> list_all plain_comp (split_on CHR ''/'' p)"

lemma plain_join: "cs \<noteq> [] \<Longrightarrow> list_all plain_comp cs \<Longrightarrow> split_on CHR ''/'' (join_with CHR ''/'' cs) = cs"
  by (rule split_join) (auto simp: list_all_iff plain_comp_def)

lemma canonicalize_plain:
  assumes "canonicalizeCreatePath wire = Some eng"
  shows "plain_path eng"
proof -
  let ?p = "''/'' @ trim_prefix wire ''/''"
  let ?cs = "clean_comps ?p"
  have cs: "list_all plain_comp ?cs" using clean_comps_clean [of ?p] by (intro clean_list_rooted) (simp add: is_abs_def)
  have "path_clean ?p = CHR ''/'' # join_with CHR ''/'' ?cs" by (simp add: path_clean_def is_abs_def)
  then have e: "eng = join_with CHR ''/'' ?cs" "eng \<noteq> []"
    using assms by (auto simp: canonicalizeCreatePath_def Let_def trim_prefix_def split: if_splits)
  then have "?cs \<noteq> []" by auto
  then show ?thesis using plain_join cs e(1) by (simp add: plain_path_def)
qed

lemma path_clean_plain:
  assumes "cs \<noteq> []" "list_all plain_comp cs"
  shows "path_clean (join_with CHR ''/'' cs) = join_with CHR ''/'' cs"
proof -
  have "[] \<notin> set cs" using assms(2) by (auto simp: list_all_iff)
  then show ?thesis
    using clean_comps_rel [OF clean_list_plain [OF assms(2)] assms(1)] is_abs_join [OF clean_list_plain [OF assms(2), of False]]
      join_with_eq_Nil [of cs] assms(1)
    by (simp add: path_clean_def)
qed

lemma join_plain_path:
  assumes "plain_path sub" "plain_path eng"
  shows "split_on CHR ''/'' (path_join [sub, eng]) = split_on CHR ''/'' sub @ split_on CHR ''/'' eng"
proof -
  let ?s = "split_on CHR ''/'' sub" and ?e = "split_on CHR ''/'' eng"
  have ne: "?s \<noteq> []" "?e \<noteq> []" by simp_all
  have j: "join_with CHR ''/'' ?s = sub" "join_with CHR ''/'' ?e = eng" by simp_all
  have pl: "list_all plain_comp (?s @ ?e)" using assms by (simp add: plain_path_def)
  have "sub \<noteq> []" "eng \<noteq> []" using assms by (auto simp: plain_path_def)
  then have "path_join [sub, eng] = path_clean (join_with CHR ''/'' (?s @ ?e))"
    using join_append [OF ne, of "CHR ''/''"] j by (simp add: path_join_def)
  also have "\<dots> = join_with CHR ''/'' (?s @ ?e)" using path_clean_plain [OF _ pl] ne by simp
  finally show ?thesis using plain_join [OF _ pl] ne by simp
qed

lemma split_on_snoc_sep: "split_on c (s @ [c]) = split_on c s @ [[]]"
  by (induction c s rule: split_on.induct) (auto split: list.splits)

lemma path_dir_plain:
  assumes "plain_path p" "split_on CHR ''/'' p = xs @ [leaf]" "xs \<noteq> []"
  shows "split_on CHR ''/'' (path_dir p) = xs" "path_dir p \<noteq> []"
proof -
  have pl: "list_all plain_comp xs" "CHR ''/'' \<notin> set leaf" using assms(1,2) by (simp_all add: plain_path_def plain_comp_def)
  have "p = join_with CHR ''/'' (xs @ [leaf])" using assms(2) by (metis join_split)
  then have "p = join_with CHR ''/'' xs @ CHR ''/'' # leaf" using join_append [OF assms(3), of "[leaf]"] by simp
  then have up: "up_to_last_slash p = join_with CHR ''/'' xs @ ''/''"
    using pl(2) by (simp add: up_to_last_slash_def dropWhile_append)
  have "split_on CHR ''/'' (join_with CHR ''/'' xs @ ''/'') = xs @ [[]]"
    using plain_join [OF assms(3) pl(1)] split_on_snoc_sep [of "CHR ''/''" "join_with CHR ''/'' xs"] by simp
  moreover have na: "\<not> is_abs (join_with CHR ''/'' xs)" using is_abs_join [OF clean_list_plain [OF pl(1), of False]] .
  moreover have ne: "join_with CHR ''/'' xs \<noteq> []" using join_with_eq_Nil [of xs "CHR ''/''"] pl(1) assms(3) by (metis list_all_iff plain_comp_simps(1))
  ultimately have c: "clean_comps (join_with CHR ''/'' xs @ ''/'') = xs" "\<not> is_abs (join_with CHR ''/'' xs @ ''/'')"
    using clean_stack_trailing [of False "[]" xs] clean_stack_plain [OF pl(1), of False "[]"]
    by (cases "join_with CHR ''/'' xs"; simp add: clean_comps_def is_abs_def)+
  then have "path_dir p = join_with CHR ''/'' xs" using ne by (simp add: path_dir_def up path_clean_def)
  then show "split_on CHR ''/'' (path_dir p) = xs" "path_dir p \<noteq> []" using plain_join [OF assms(3) pl(1)] ne by simp_all
qed

text \<open>What a create may do to the volume.\<close>

definition create_call :: "('s, 'g) Deps \<Rightarrow> engine_call \<Rightarrow> bool" where
  "create_call h c \<longleftrightarrow>
     (case c of CallMakeDir _ \<Rightarrow> fa_CreateSubtree h \<noteq> [] | CallWriteStream _ _ _ \<Rightarrow> True | _ \<Rightarrow> False) \<and>
     (plain_path (fa_CreateSubtree h) \<longrightarrow> call_inside (fa_CreateSubtree h) c)"

lemma ref_inside:
  assumes "canonicalizeCreatePath wire = Some eng" "plain_path (fa_CreateSubtree h)"
  shows "pathUnderPrefix (create_ref h eng) (fa_CreateSubtree h)" "plain_path (create_ref h eng)"
    "pathUnderPrefix (path_dir (create_ref h eng)) (fa_CreateSubtree h)"
proof -
  let ?s = "split_on CHR ''/'' (fa_CreateSubtree h)" and ?e = "split_on CHR ''/'' eng"
  note e = canonicalize_plain [OF assms(1)]
  have ne: "fa_CreateSubtree h \<noteq> []" using assms(2) by (auto simp: plain_path_def)
  then have sp: "split_on CHR ''/'' (create_ref h eng) = ?s @ ?e" using join_plain_path [OF assms(2) e] by (simp add: create_ref_def)
  then show "pathUnderPrefix (create_ref h eng) (fa_CreateSubtree h)" by (simp add: pathUnderPrefix_comps)
  show pl: "plain_path (create_ref h eng)" using sp assms(2) e by (simp add: plain_path_def)
  have "split_on CHR ''/'' (create_ref h eng) = (?s @ butlast ?e) @ [last ?e]" using sp by simp
  from path_dir_plain [OF pl this] show "pathUnderPrefix (path_dir (create_ref h eng)) (fa_CreateSubtree h)"
    by (simp add: pathUnderPrefix_comps)
qed

lemma goes_ensure_levels:
  "ensure_levels (fa_d h) (ps_FilesystemID ps) dirs f = (x, f1) \<Longrightarrow> \<forall>p\<in>set dirs. W (CallMakeDir p) \<Longrightarrow> goes h W ps rid f f1"
proof (induction dirs arbitrary: f)
  case (Cons p dirs)
  obtain b f2 where b: "ctx_err f = (b, f2)" by fastforce
  obtain y f3 where y: "engine (fa_d h) (ps_FilesystemID ps) (CallMakeDir p) f2 = (y, f3)" by fastforce
  have s: "goes h W ps rid f f2" using steps_nothing [OF ctx_err_does [OF b]] .
  have "goes h W ps rid f2 f3" using goes_engine [OF y] Cons.prems(2) by simp
  note s3 = steps_trans [OF s this]
  have "f1 = f2 \<or> f1 = f3 \<or> ensure_levels (fa_d h) (ps_FilesystemID ps) dirs f3 = (x, f1)"
    using Cons.prems(1) b y by (cases b) (auto split: sum.splits if_splits)
  then show ?case using Cons.IH [of f3] Cons.prems(2) s s3 steps_trans [OF s3] by auto
qed simp

lemma goes_ensure_parent:
  assumes "ensure_parent h ps (create_ref h eng) f = (x, f1)" "canonicalizeCreatePath wire = Some eng"
  shows "goes h (create_call h) ps rid f f1"
proof (cases "fa_CreateSubtree h = []")
  case False
  let ?dir = "path_dir (create_ref h eng)"
  have "create_call h (CallMakeDir p)" if p: "p \<in> set (dir_prefixes (split_on CHR ''/'' ?dir))" for p
  proof -
    let ?parts = "split_on CHR ''/'' ?dir"
    obtain i where i: "p = join_with CHR ''/'' (take (Suc i) ?parts)" using p by (auto simp: dir_prefixes_def)
    have "pathUnderPrefix (join_with CHR ''/'' ?parts) (fa_CreateSubtree h)" if "plain_path (fa_CreateSubtree h)"
      using ref_inside(3) [OF assms(2) that] by simp
    moreover have "\<forall>w\<in>set ?parts. CHR ''/'' \<notin> set w" using split_on_no_sep by blast
    ultimately show ?thesis using under_prefixes [of ?parts "fa_CreateSubtree h" "Suc i"] i False by (auto simp: create_call_def)
  qed
  moreover obtain y f2 where y: "EnsureDir (fa_d h) (ps_FilesystemID ps) ?dir f = (y, f2)" by fastforce
  ultimately have "goes h (create_call h) ps rid f f2"
    using goes_ensure_levels [of h ps "dir_prefixes (split_on CHR ''/'' ?dir)" f y f2 "create_call h" rid]
    by (auto simp: EnsureDir_def Let_def split: if_splits)
  then show ?thesis using assms(1) y False by (auto simp: ensure_parent_def Let_def split: if_splits sum.splits)
qed (use assms in \<open>simp add: ensure_parent_def\<close>)

lemma goes_create_answer: "goes h W ps rid f (snd (create_answer h ps u ref dg f))"
  unfolding create_answer_def by (auto split: prod.splits sum.splits dest: goes_store)

lemma goes_create_body:
  assumes "create_body h ps i rid early u ref g p f = (r, n, f')" "\<And>rd ow. W (CallWriteStream ref rd ow)"
  shows "goes h W ps rid f f'"
proof -
  obtain fin offered acquired f1 where fd: "feed_part (cp_DeclaredSizeBytes u) i (pt_eof p) (pt_reads p) [] 0 f = (fin, offered, acquired, f1)"
    by (metis prod_cases4)
  obtain fin' where cf: "create_feed (cp_DeclaredSizeBytes u) i p f = (fin', offered, acquired, f1)"
    using fd by (cases fin) (auto simp: create_feed_def)
  let ?c = "CallWriteStream ref (offered, if fin' = FeedDone then None else Some errCreateAborted) (cp_OverwriteExisting u)"
  obtain er f2 where e: "engine (fa_d h) (ps_FilesystemID ps) ?c f1 = (er, f2)" by fastforce
  have "goes h W ps rid f1 f2" using goes_engine [OF e] assms(2) by simp
  note s2 = steps_trans [OF steps_nothing [OF feed_part_does [OF fd]] this]
  let ?ans = "case (fin', er) of
       (FeedDone, Inr x) \<Rightarrow> create_answer h ps u ref (digest_of x) f2
     | (FeedDone, Inl e) \<Rightarrow> denyCreate h ps ref g rid (north_denyClassForEngineErr e) ''upload refused'' f2
     | (FeedAbort cls message, Inl e) \<Rightarrow>
         if early then denyCreate h ps ref g rid (north_denyClassForEngineErr e) ''upload refused'' f2
         else denyCreate h ps ref g rid cls message f2
     | (FeedAbort cls message, Inr _) \<Rightarrow> denyCreate h ps ref g rid cls message f2"
  have "goes h W ps rid f2 (snd ?ans)"
    by (auto simp: denyCreate_def intro: goes_create_answer goes_deny split: feed_end.splits sum.splits)
  moreover have "snd ?ans = f'" using assms(1) cf e by (simp add: create_body_def Let_def split: prod.splits)
  ultimately show ?thesis using steps_trans [OF s2] by simp
qed

lemma goes_create_allowed:
  assumes "canonicalizeCreatePath wire = Some eng"
  shows "goes h (create_call h) ps rid f (snd (create_allowed h ps i rid early u (create_ref h eng) g rest f))"
proof -
  let ?ref = "create_ref h eng" and ?W = "create_call h"
  have w: "?W (CallWriteStream ?ref rd ow)" for rd ow
    using ref_inside(1) [OF assms, of h] by (simp add: create_call_def)
  have dn: "goes h ?W ps rid f (snd (denyCreate h ps ref g rid cls message f))" for ref cls message f
    by (simp add: denyCreate_def goes_deny)
  show ?thesis
  proof (cases "openCreateFilePart rest")
    case (Inl y)
    then show ?thesis using dn by (cases y) (simp add: create_allowed_def)
  next
    case (Inr p)
    obtain e f1 where e: "on_face_session i TryAcquireFD f = (e, f1)" by fastforce
    note s1 = goes_session [OF e, of h ?W ps rid]
    obtain x f2 where x: "ensure_parent h ps ?ref f1 = (x, f2)" by fastforce
    note s2 = goes_ensure_parent [OF x assms, of rid]
    obtain r n f3 where b: "(case ensure_parent h ps ?ref f1 of
        (Inl (cls, message), f2) \<Rightarrow> (let (r, f3) = denyCreate h ps ?ref g rid cls message f2 in (r, 0, f3))
      | (Inr _, f2) \<Rightarrow> create_body h ps i rid early u ?ref g p f2) = (r, n, f3)" by (rule prod_cases3)
    have "goes h ?W ps rid f2 f3"
    proof (cases x)
      case (Inl y)
      obtain cls message where y: "y = (cls, message)" by fastforce
      then have "snd (denyCreate h ps ?ref g rid cls message f2) = f3"
        using b x Inl by (simp add: Let_def split: prod.splits)
      then show ?thesis using dn [of f2 ?ref cls message] by simp
    next
      case (Inr z)
      then show ?thesis using b x goes_create_body [of h ps i rid early u ?ref g p f2 r n f3 ?W] w by simp
    qed
    note s3 = steps_trans [OF s1 steps_trans [OF s2 this]]
    obtain e4 f4 where r4: "on_face_session i ReleaseFD f3 = (e4, f4)" by fastforce
    obtain e5 f5 where r5: "on_face_session i (ReleaseBytes (of_int n)) f4 = (e5, f5)" by fastforce
    note s5 = steps_trans [OF s3 steps_trans [OF goes_session [OF r4] goes_session [OF r5]]]
    show ?thesis
    proof (cases e)
      case None
      then have "snd (create_allowed h ps i rid early u ?ref g rest f) = f5"
        using Inr e b r4 r5 by (simp add: create_allowed_def Let_def)
      then show ?thesis using s5 by simp
    next
      case (Some c)
      then show ?thesis using Inr e dn [of f1 ?ref] s1 by (auto simp: create_allowed_def intro: steps_trans)
    qed
  qed
qed

lemma answers_create: "answers h (create_call h) ps rid f (serveCreate h ps rid r f)"
  unfolding serveCreate_def Let_def
  by (intro answers_admit)
     (auto intro!: answers_grant goes_create_allowed split: option.splits sum.splits)

section \<open>Routing\<close>

definition may_change :: "('s, 'g) Deps \<Rightarrow> files_request \<Rightarrow> engine_call \<Rightarrow> bool" where
  "may_change h r c \<longleftrightarrow> fr_method r = ''POST'' \<and> fr_path r = filesRoot \<and> create_call h c"

lemma if_cases: "(b \<Longrightarrow> P x) \<Longrightarrow> (\<not> b \<Longrightarrow> P y) \<Longrightarrow> P (if b then x else y)"
  by simp

lemma answers_route:
  assumes "files_route h rid r f = (resp, f')"
  shows "does (fa_d h) [] f f' \<and> 400 \<le> rs_status resp \<or>
    (\<exists>ps. fa_Scope h r = Some ps \<and> validateScopeShape (ps_FilesystemID ps) \<and> answers h (may_change h r) ps rid f (resp, f'))"
proof -
  have c: "answers h (may_change h r) ps rid f (routeCollection h ps rid r f)" if "fr_path r = filesRoot" for ps
  proof (cases "fr_method r = ''POST''")
    case True
    then have "may_change h r = create_call h" using that by (simp add: may_change_def fun_eq_iff)
    then show ?thesis using answers_create True by (simp add: routeCollection_def)
  qed (simp add: routeCollection_def answers_list answers_refuse)
  have a: "answers h W ps rid f (routeArchive h ps rid r f)" for W ps
    by (simp add: routeArchive_def answers_archive answers_refuse)
  have t: "answers h W ps rid f (routeResource h ps rid tail r f)" for W ps tail
    by (simp add: routeResource_def Let_def answers_metadata answers_delete answers_content answers_refuse)
  show ?thesis
  proof (cases "fa_Scope h r")
    case None
    then have "resp = refuse dc_BackendUnavailable ''missing host-attested scope''" "f' = f"
      using assms by (auto simp: files_route_def)
    then show ?thesis by (simp add: does_nothing)
  next
    case (Some ps)
    show ?thesis
    proof (cases "validateScopeShape (ps_FilesystemID ps)")
      case True
      have "answers h (may_change h r) ps rid f (files_route h rid r f)"
        unfolding files_route_def Some option.case if_not_P [OF not_not [THEN iffD2, OF True]]
        by (rule if_cases; (rule if_cases)?; (rule if_cases)?; rule c a t answers_refuse; simp)
      then show ?thesis using Some True assms by simp
    next
      case False
      then have "resp = refuse dc_BackendUnavailable ''malformed scope shape''" "f' = f"
        using assms Some by (auto simp: files_route_def)
      then show ?thesis by (simp add: does_nothing)
    qed
  qed
qed

end
