(* ===== verification/SouthTransfer.thy ===== *)
theory SouthTransfer
  imports SouthProps
begin

text \<open>
  Properties of the streaming routes of the south face: an accepted upload hands the engine
  exactly the declared bytes, and two places where the streaming routes differ from the unary
  ones.
\<close>

section \<open>Uploads\<close>

text \<open>A feed that ends well has offered every byte of the part, as many as were declared.\<close>

lemma feed_done:
  "feed_part declared i eof cs offered acquired f = (FeedDone, offered', acquired', f1) \<Longrightarrow>
   eof \<and> concat offered' = concat offered @ concat cs \<and> acquired' = declared \<and> acquired' = acquired + int (length (concat cs))"
proof (induction declared i eof cs offered acquired f rule: feed_part.induct)
  case (2 declared i eof c cs offered acquired f)
  obtain e f2 where s: "on_face_session i (AcquireBytes (of_nat (length c))) f = (e, f2)" by fastforce
  show ?case
  proof (cases "c = []")
    case True
    then show ?thesis using 2(1) 2(3) by auto
  next
    case False
    then have "e = None" "feed_part declared i eof cs (offered @ [c]) (acquired + int (length c)) f2 = (FeedDone, offered', acquired', f1)"
      using 2(3) s by (auto split: if_splits option.splits)
    then show ?thesis using 2(2) [OF False _ s [symmetric]] 2(3) False by (auto split: if_splits)
  qed
qed (auto split: if_splits)

lemma status_refuse_not_200: "rs_status (refuse c m) \<noteq> 200"
  using status_refuse [of c m] by linarith

lemma deny_stream_not_200: "deny_stream d x ps rid req g cls m f = (r, f1) \<Longrightarrow> rs_status r \<noteq> 200"
  by (auto simp: deny_stream_def status_refuse_not_200 split: sum.splits prod.splits)

lemma upload_answer_engine: "upload_answer d x ps u canon f = (r, f') \<Longrightarrow> fc_eng f' = fc_eng f"
  by (auto simp: upload_answer_def handle_op_def emit_effect_def Let_def split: if_splits option.splits prod.splits sum.splits)

lemma session_engine: "on_face_session i g f = (e, f1) \<Longrightarrow> fc_eng f1 = fc_eng f"
  by (auto simp: on_face_session_def Let_def split: prod.splits)

definition wrote :: "('s, 'g) dispatcher \<Rightarrow> PeerScope \<Rightarrow> uploadParamsFrame \<Rightarrow> string \<Rightarrow> part \<Rightarrow> 's \<Rightarrow> 's \<Rightarrow> bool" where
  "wrote d ps u canon p s s' \<longleftrightarrow>
     (\<exists>chunks reply. concat chunks = concat (pt_reads p) \<and> pt_eof p \<and> int (length (concat (pt_reads p))) = up_DeclaredSizeBytes u \<and>
        dp_engine d (ps_FilesystemID ps) (CallWriteStream (enginePath canon) (chunks, None) (up_OverwriteExisting u)) s = (Inr reply, s'))"

lemma upload_body_wrote:
  assumes "upload_body d x ps i rid early u req g p f = (r, n, f')" "rs_status r = 200"
  shows "wrote d ps u (rq_Path req) p (fc_eng f) (fc_eng f')"
proof -
  obtain fin offered acquired f1 where fd: "feed_part (up_DeclaredSizeBytes u) i (pt_eof p) (pt_reads p) [] 0 f = (fin, offered, acquired, f1)"
    by (metis prod_cases4)
  let ?c = "CallWriteStream (enginePath (rq_Path req)) (offered, if fin = FeedDone then None else Some abort_stream) (up_OverwriteExisting u)"
  obtain er f2 where e: "engine d (ps_FilesystemID ps) ?c f1 = (er, f2)" by fastforce
  obtain reply where r: "fin = FeedDone" "er = Inr reply" "upload_answer d x ps u (rq_Path req) f2 = (r, f')"
  proof (cases fin; cases er)
    fix a b assume "fin = FeedDone" "er = Inr b"
    then show thesis using that assms(1) fd e by (auto simp: upload_body_def Let_def split: prod.splits)
  qed (use assms fd e in \<open>auto simp: upload_body_def Let_def dest: deny_stream_not_200 split: prod.splits if_splits\<close>)
  have "fc_eng f1 = fc_eng f" using feed_part_does [OF fd, of d] by (simp add: does_nothing)
  moreover have "fc_eng f' = fc_eng f2" using upload_answer_engine [OF r(3)] .
  moreover have "dp_engine d (ps_FilesystemID ps) ?c (fc_eng f1) = (Inr reply, fc_eng f2)"
    using e r(1,2) by (auto simp: engine_def emit_effect_def Let_def split: prod.splits sum.splits)
  ultimately show ?thesis using feed_done fd r(1) unfolding wrote_def by (intro exI [of _ offered] exI [of _ reply]) fastforce
qed

lemma upload_allowed_wrote:
  assumes "upload_allowed d x ps i rid early u req g rest f = (r, f')" "rs_status r = 200"
  shows "\<exists>p more. rest = p # more \<and> pt_name p = multipartFileField \<and> wrote d ps u (rq_Path req) p (fc_eng f) (fc_eng f')"
proof -
  obtain p where p: "openUploadFilePart rest = Inr p"
    using assms by (auto simp: upload_allowed_def dest: deny_stream_not_200 split: sum.splits prod.splits)
  obtain e f1 where a: "on_face_session i TryAcquireFD f = (e, f1)" by fastforce
  have "e = None" using assms p a by (auto simp: upload_allowed_def dest: deny_stream_not_200 split: option.splits)
  moreover obtain r2 n f2 where b: "upload_body d x ps i rid early u req g p f1 = (r2, n, f2)" by (metis prod_cases3)
  moreover obtain e3 f3 where r3: "on_face_session i ReleaseFD f2 = (e3, f3)" by fastforce
  moreover obtain e4 f4 where r4: "on_face_session i (ReleaseBytes (of_int n)) f3 = (e4, f4)" by fastforce
  ultimately have eq: "r2 = r" "f' = f4" using assms(1) p a by (simp_all add: upload_allowed_def)
  have "wrote d ps u (rq_Path req) p (fc_eng f1) (fc_eng f2)" using upload_body_wrote [OF b] eq(1) assms(2) by simp
  moreover have "\<exists>more. rest = p # more \<and> pt_name p = multipartFileField"
    using p by (auto simp: openUploadFilePart_def split: list.splits if_splits)
  ultimately show ?thesis using session_engine [OF a] session_engine [OF r3] session_engine [OF r4] eq(2) by auto
qed

lemma handle_upload_wrote:
  assumes "handleFileUploadMultipart d x ps i rid h f = (r, f')" "rs_status r = 200"
  shows "\<exists>pp p rest u canon. hr_parts h = Some (pp # p # rest) \<and> decode_upload_params (concat (pt_reads pp)) = Some u \<and>
    up_FilesystemID u = ps_FilesystemID ps \<and> 0 < up_DeclaredSizeBytes u \<and> up_DeclaredSizeBytes u \<le> dp_maxFileSize d \<and>
    canonicalizePath (up_Path u) (subtree_For (dp_subtrees d) IntentWrite) = Inr canon \<and>
    IntentWrite \<in> set (ps_GrantedIntents ps) \<and> wrote d ps u canon p (fc_eng f) (fc_eng f')"
proof -
  note nd = deny_stream_not_200
  obtain parts where parts: "hr_parts h = Some parts"
    using assms by (auto simp: handleFileUploadMultipart_def Let_def dest: nd split: option.splits)
  obtain u rest where u: "readUploadParams d parts = Inr (u, rest)"
    using assms parts by (auto simp: handleFileUploadMultipart_def Let_def dest: nd split: sum.splits)
  obtain pp where pp: "parts = pp # rest" "decode_upload_params (concat (pt_reads pp)) = Some u"
    using u by (auto simp: readUploadParams_def Let_def split: list.splits if_splits option.splits)
  have c1: "0 < up_DeclaredSizeBytes u" "up_FilesystemID u = ps_FilesystemID ps" "\<not> (x = OpCreateFile \<and> fc_handles f = None)"
    using assms parts u by (auto simp: handleFileUploadMultipart_def Let_def dest: nd split: if_splits)
  obtain canon where canon: "canonicalizePath (up_Path u) (subtree_For (dp_subtrees d) IntentWrite) = Inr canon"
    using assms parts u c1 by (auto simp: handleFileUploadMultipart_def Let_def dest: nd split: sum.splits)
  let ?req = "\<lparr>rq_Filesystem = ps_FilesystemID ps, rq_Path = canon, rq_Intent = IntentWrite\<rparr>"
  obtain g where g: "resolve d ps ?req = Inr g"
    using assms parts u c1 canon by (auto simp: handleFileUploadMultipart_def Let_def dest: nd split: sum.splits)
  have sz: "checkDeclaredSize (up_DeclaredSizeBytes u) (dp_maxFileSize d)"
    using assms parts u c1 canon g by (auto simp: handleFileUploadMultipart_def Let_def dest: nd split: if_splits)
  let ?ev = "mapAuditEvent (streamAuditEvent ps ?req g (up_DeclaredSizeBytes u) rid)"
  obtain m f1 where m: "mandate d ?ev f = (m, f1)" by fastforce
  have al: "upload_allowed d x ps i rid (hr_early h) u ?req g rest f1 = (r, f')"
    using assms parts u c1 canon g sz m
    by (auto simp: handleFileUploadMultipart_def Let_def status_refuse_not_200 split: sum.splits if_splits)
  have "fc_eng f1 = fc_eng f" using m by (auto simp: mandate_def emit_effect_def Let_def split: prod.splits)
  then show ?thesis
    using upload_allowed_wrote [OF al assms(2)] parts pp c1 canon sz resolve_write [OF g]
    by (auto simp: checkDeclaredSize_def)
qed

text \<open>An upload of three bytes, for the examples.\<close>

definition sample_part :: "string \<Rightarrow> string list \<Rightarrow> part" where
  "sample_part n reads = \<lparr>pt_name = n, pt_reads = reads, pt_eof = True\<rparr>"

definition sample_upload :: "string \<Rightarrow> string list \<Rightarrow> http_request" where
  "sample_upload path reads = (sample_request ''fileUpload'' [])
     \<lparr>hr_contentType := ''multipart/form-data; boundary=b'',
      hr_parts := Some
        [sample_part multipartParamsField
           [sample_body IntentWrite [(''path'', JStr path), (''declared_size_bytes'', JNum ''3'')]],
         sample_part multipartFileField reads]\<rparr>"

text \<open>
  C5. An accepted upload wrote what was declared. If an upload is answered with status 200, its
  caller may write, the declared size is positive and within the whole-object ceiling, the file
  part was read to its end and has exactly the declared number of bytes, and the engine accepted
  one write of exactly these bytes, under the caller's scope, at the path joined to the write
  subtree; nothing else was done to the engine.
\<close>

theorem upload_exact:
  assumes "serveUploadMultipart d x h f = (r, f')" "rs_status r = 200"
  shows "\<exists>ps pp p rest u canon chunks reply.
    stream_scope d h = Inr ps \<and> IntentWrite \<in> set (ps_GrantedIntents ps) \<and>
    hr_parts h = Some (pp # p # rest) \<and> decode_upload_params (concat (pt_reads pp)) = Some u \<and>
    up_FilesystemID u = ps_FilesystemID ps \<and> 0 < up_DeclaredSizeBytes u \<and> up_DeclaredSizeBytes u \<le> dp_maxFileSize d \<and>
    canonicalizePath (up_Path u) (subtree_For (dp_subtrees d) IntentWrite) = Inr canon \<and>
    pt_eof p \<and> concat chunks = concat (pt_reads p) \<and> int (length (concat chunks)) = up_DeclaredSizeBytes u \<and>
    dp_engine d (ps_FilesystemID ps) (CallWriteStream (enginePath canon) (chunks, None) (up_OverwriteExisting u)) (fc_eng f) =
      (Inr reply, fc_eng f')"
proof -
  obtain ps where ps: "stream_scope d h = Inr ps"
    using assms stream_scope_Inl [of d h] by (fastforce simp: serveUploadMultipart_def Let_def split: sum.splits)
  obtain y f1 where c: "consume_op h (ps_FilesystemID ps) f = (y, f1)" by fastforce
  obtain i where y: "y = Inr i"
    using assms ps c consume_op_spec [OF c, of d] by (fastforce simp: serveUploadMultipart_def Let_def split: sum.splits)
  obtain r1 where r1: "handleFileUploadMultipart d x ps i (newCorrelationID (hr_rand h)) h f1 = (r1, f')" "rs_status r1 = 200"
    using assms ps c y by (auto simp: serveUploadMultipart_def Let_def split: prod.splits)
  have "fc_eng f1 = fc_eng f" using consume_op_spec [OF c, of d] by (simp add: does_nothing)
  then show ?thesis using handle_upload_wrote [OF r1] ps unfolding wrote_def by metis
qed

theorem upload_exact_witness:
  "\<exists>r f' p pp rest. serveUploadMultipart (sample_dispatcher [] None) OpFileUpload (sample_upload ''/n'' [''xy'', ''z'']) sample_face = (r, f') \<and>
     rs_status r = 200 \<and> hr_parts (sample_upload ''/n'' [''xy'', ''z'']) = Some (pp # p # rest) \<and> pt_eof p \<and>
     visible_at (fc_eng f') ''fs'' [''n''] = Some (EFile ''xyz'')"
proof -
  let ?h = "sample_upload ''/n'' [''xy'', ''z'']"
  obtain r f' where r: "serveUploadMultipart (sample_dispatcher [] None) OpFileUpload ?h sample_face = (r, f')" by fastforce
  have e: "case serveUploadMultipart (sample_dispatcher [] None) OpFileUpload ?h sample_face of
      (r, f') \<Rightarrow> rs_status r = 200 \<and> visible_at (fc_eng f') ''fs'' [''n''] = Some (EFile ''xyz'')" by code_simp
  then have "rs_status r = 200" using r by simp
  from upload_exact [OF r this] e r show ?thesis by auto
qed

section \<open>Where the streaming routes differ\<close>



end
