(* ===== verification/FilesProps.thy ===== *)
theory FilesProps
  imports FilesEffects SouthTransfer
begin

text \<open>
  Properties of the Files API: the audit record before every effect, isolation of the scopes,
  and the exactness of a create.
\<close>

section \<open>Order and scope of effects\<close>

lemma steps_split:
  assumes "answers h W ps rid f (resp, f')"
  obtains pre post where "does (fa_d h) (pre @ post) f f'" "list_all (looked ps) pre"
    "post = [] \<and> 400 \<le> rs_status resp \<or>
     (\<exists>ev b. post = [Audited ev b] \<and> owned ps rid ev \<and> 400 \<le> rs_status resp) \<or>
     (\<exists>ev tr. post = Audited ev True # tr \<and> allows ps rid ev \<and> list_all (files_act W ps rid) tr)"
proof -
  obtain f1 where f1: "steps (fa_d h) (looked ps) f f1"
    and cs: "does (fa_d h) [] f1 f' \<and> 400 \<le> rs_status resp \<or>
        (\<exists>ev b. does (fa_d h) [Audited ev b] f1 f' \<and> owned ps rid ev \<and> 400 \<le> rs_status resp) \<or>
        (\<exists>ev f2. does (fa_d h) [Audited ev True] f1 f2 \<and> allows ps rid ev \<and> steps (fa_d h) (files_act W ps rid) f2 f')"
    using assms unfolding answers_def fst_conv snd_conv by (elim exE conjE) (rule that)
  obtain pre where pre: "does (fa_d h) pre f f1" "list_all (looked ps) pre" using f1 by (auto simp: steps_def)
  from cs show thesis
  proof (elim disjE exE conjE)
    assume "does (fa_d h) [] f1 f'" "400 \<le> rs_status resp"
    then show thesis using that [of pre "[]"] does_trans [OF pre(1)] pre(2) by fastforce
  next
    fix ev b assume "does (fa_d h) [Audited ev b] f1 f'" "owned ps rid ev" "400 \<le> rs_status resp"
    then show thesis using that [of pre "[Audited ev b]"] does_trans [OF pre(1)] pre(2) by blast
  next
    fix ev f2 assume a: "does (fa_d h) [Audited ev True] f1 f2" "allows ps rid ev" "steps (fa_d h) (files_act W ps rid) f2 f'"
    then obtain tr where tr: "does (fa_d h) tr f2 f'" "list_all (files_act W ps rid) tr" by (auto simp: steps_def)
    have "does (fa_d h) (pre @ Audited ev True # tr) f f'" using does_trans [OF pre(1) does_trans [OF a(1) tr(1)]] by simp
    then show thesis using that [of pre "Audited ev True # tr"] pre(2) a(2) tr(2) by blast
  qed
qed

fun effect_scope :: "effect \<Rightarrow> string" where
  "effect_scope (EngineCalled s _) = s"
| "effect_scope (HandleCalled s) = s"
| "effect_scope (Audited ev _) = ev_FilesystemID ev"

definition effect_mutates :: "effect \<Rightarrow> engine_call \<Rightarrow> bool" where
  "effect_mutates e c \<longleftrightarrow> (\<exists>s. e = EngineCalled s c) \<and> call_mutates c"

definition probes :: "effect \<Rightarrow> bool" where
  "probes e = (case e of EngineCalled _ (CallStat _) \<Rightarrow> True | EngineCalled _ _ \<Rightarrow> False | _ \<Rightarrow> True)"

lemma looked_facts: "looked ps e \<Longrightarrow> effect_scope e = ps_FilesystemID ps \<and> probes e \<and> \<not> effect_mutates e c"
  by (cases "(ps, e)" rule: looked.cases) (auto simp: probes_def effect_mutates_def)

lemma act_facts: "files_act W ps rid e \<Longrightarrow> effect_scope e = ps_FilesystemID ps \<and> (effect_mutates e c \<longrightarrow> W c)"
  by (cases e) (auto simp: effect_mutates_def owned_def)

lemma allows_owned: "allows ps rid ev \<Longrightarrow> effect_scope (Audited ev b) = ps_FilesystemID ps"
  by (simp add: allows_def)

definition in_order :: "('s, 'g) Deps \<Rightarrow> files_request \<Rightarrow> PeerScope \<Rightarrow> effect list \<Rightarrow> bool" where
  "in_order h r ps tr \<longleftrightarrow>
     (\<forall>pre e post. tr = pre @ e # post \<longrightarrow>
        effect_scope e = ps_FilesystemID ps \<and>
        (\<forall>c. effect_mutates e c \<longrightarrow> may_change h r c) \<and>
        (probes e \<or> (\<exists>ev. Audited ev True \<in> set pre \<and> allows ps (newRequestID (fr_rand r)) ev)))"

lemma route_in_order:
  assumes "files_ServeHTTP h r f = (resp, f')"
  shows "does (fa_d h) [] f f' \<and> 400 \<le> rs_status resp \<or>
    (\<exists>ps tr. fa_Scope h r = Some ps \<and> does (fa_d h) tr f f' \<and> in_order h r ps tr \<and>
       (rs_status resp < 400 \<longrightarrow> (\<exists>ev. Audited ev True \<in> set tr \<and> allows ps (newRequestID (fr_rand r)) ev)))"
proof -
  let ?rid = "newRequestID (fr_rand r)"
  obtain r1 where r1: "files_route h ?rid r f = (r1, f')" "rs_status resp = rs_status r1"
    using assms by (auto simp: files_ServeHTTP_def Let_def with_request_id_def split: prod.splits)
  from answers_route [OF r1(1)] show ?thesis
  proof (elim disjE exE conjE)
    fix ps assume ps: "fa_Scope h r = Some ps" and an: "answers h (may_change h r) ps ?rid f (r1, f')"
    obtain pre post where t: "does (fa_d h) (pre @ post) f f'" "list_all (looked ps) pre" and
      c: "post = [] \<and> 400 \<le> rs_status r1 \<or>
       (\<exists>ev b. post = [Audited ev b] \<and> owned ps ?rid ev \<and> 400 \<le> rs_status r1) \<or>
       (\<exists>ev tr. post = Audited ev True # tr \<and> allows ps ?rid ev \<and> list_all (files_act (may_change h r) ps ?rid) tr)"
      by (rule steps_split [OF an])
    have "in_order h r ps (pre @ post)"
      unfolding in_order_def
    proof (intro allI impI)
      fix pre' e post' assume e: "pre @ post = pre' @ e # post'"
      consider (early) "e \<in> set pre" | (late) us where "pre' = pre @ us" "post = us @ e # post'"
        using e by (auto simp: append_eq_append_conv2 append_eq_Cons_conv Cons_eq_append_conv)
      then show "effect_scope e = ps_FilesystemID ps \<and> (\<forall>c. effect_mutates e c \<longrightarrow> may_change h r c) \<and>
          (probes e \<or> (\<exists>ev. Audited ev True \<in> set pre' \<and> allows ps ?rid ev))"
      proof cases
        case early
        then show ?thesis using t(2) looked_facts [of ps e] by (auto simp: list_all_iff)
      next
        case late
        then consider (audit) ev b where "e = Audited ev b" "owned ps ?rid ev"
          | (act) ev where "Audited ev True \<in> set us" "allows ps ?rid ev" "files_act (may_change h r) ps ?rid e"
          using c by (cases us) (auto simp: allows_def owned_def)
        then show ?thesis
          using late(1) act_facts [of "may_change h r" ps ?rid e]
          by cases (auto simp: probes_def effect_mutates_def owned_def)
      qed
    qed
    moreover have "rs_status resp < 400 \<longrightarrow> (\<exists>ev. Audited ev True \<in> set (pre @ post) \<and> allows ps ?rid ev)"
      using c r1(2) by auto
    ultimately show ?thesis using ps t(1) by blast
  qed (use r1(2) in simp)
qed

text \<open>An installation of the Files API, and requests, for the examples.\<close>

definition sample_files :: "('s, 'g) dispatcher \<Rightarrow> string \<Rightarrow> ('s, 'g) Deps" where
  "sample_files d subtree =
     \<lparr>fa_d = d, fa_Scope = headerScope, fa_CreateSubtree = subtree, fa_mime = (\<lambda>_. []), fa_zip = concat \<circ> map fst\<rparr>"

definition sample_get :: "string \<Rightarrow> string \<Rightarrow> files_request" where
  "sample_get verb path =
     \<lparr>fr_method = verb, fr_path = path, fr_scopeHeader = ''fs'', fr_query = [], fr_parts = None,
      fr_now = (\<lambda>_. 0), fr_rand = ''r'', fr_early = False\<rparr>"

definition sample_create :: "string \<Rightarrow> string list \<Rightarrow> files_request" where
  "sample_create path reads = (sample_get ''POST'' filesRoot)
     \<lparr>fr_parts := Some
        [sample_part createParamsField
           [print_value (JObj [(''path'', JStr path), (''declared_size_bytes'', JNum ''3'')])],
         sample_part createFileField reads]\<rparr>"

abbreviation sample_api :: "(lvol, nat) Deps" where
  "sample_api \<equiv> sample_files (sample_dispatcher [] None) ''out''"

lemma sample_created:
  "case files_ServeHTTP sample_api (sample_create ''/n'' [''xy'', ''z'']) sample_face of
     (r, f') \<Rightarrow> rs_status r = 201 \<and> visible_at (fc_eng f') ''fs'' [''out'', ''n''] = Some (EFile ''xyz'') \<and>
       newRequestID (fr_rand (sample_create ''/n'' [''xy'', ''z''])) = ''72''"
  by code_simp



text \<open>
  C38. A request to the Files API cannot touch another scope. Over the deployment engine of a
  family, every scope of the volume other than the attested one holds after the request what it
  held before, whatever the request and its outcome, and the volume stays well-formed.
\<close>

theorem files_isolation:
  assumes "dp_engine (fa_d h) = deployment_engine family markers (local_engine H rnd)" "vol_wf (lz_inner (fc_eng f))"
    "files_ServeHTTP h r f = (resp, f')" "\<forall>ps. fa_Scope h r = Some ps \<longrightarrow> s \<noteq> ps_FilesystemID ps"
  shows "base_at (lz_inner (fc_eng f')) s = base_at (lz_inner (fc_eng f)) s \<and> vol_wf (lz_inner (fc_eng f'))"
  using route_in_order [OF assms(3)]
proof (elim disjE exE conjE)
  assume "does (fa_d h) [] f f'"
  then show ?thesis using assms(2) by (simp add: does_nothing)
next
  fix ps tr assume a: "fa_Scope h r = Some ps" "does (fa_d h) tr f f'" "in_order h r ps tr"
  have "sc = ps_FilesystemID ps" if ec: "EngineCalled sc c \<in> set tr" for sc c
  proof -
    obtain pre post where "tr = pre @ EngineCalled sc c # post" using split_list [OF ec] by blast
    then show ?thesis using a(3) unfolding in_order_def by fastforce
  qed
  then have "\<forall>sc c. EngineCalled sc c \<in> set tr \<longrightarrow> sc = ps_FilesystemID ps" by blast
  from replay_kept [OF assms(1) this assms(2)] show ?thesis
    using a(1,2) assms(4) by (simp add: does_def vol.kept_def)
qed

theorem files_isolation_witness:
  "\<exists>r f'. files_ServeHTTP (sample_files sample_deployment ''out'') (sample_create ''/n'' [''xyz'']) sample_deployed = (r, f') \<and>
     base_at (lz_inner (fc_eng f')) ''other'' = Some (BDir []) \<and> vol_wf (lz_inner (fc_eng f'))"
proof -
  let ?h = "sample_files sample_deployment ''out''" and ?q = "sample_create ''/n'' [''xyz'']"
  obtain r f' where r: "files_ServeHTTP ?h ?q sample_deployed = (r, f')" by fastforce
  have e: "dp_engine (fa_d ?h) = deployment_engine \<lparr>sf_base = ''fs'', sf_re = Some ''fs''\<rparr> [] (local_engine id 7)"
    by (simp add: sample_files_def sample_deployment_def)
  have v: "vol_wf (lz_inner (fc_eng sample_deployed))" using sample_vol_wf by (simp add: sample_deployed_def)
  have "map_option ps_FilesystemID (fa_Scope ?h ?q) = Some ''fs''" by code_simp
  then have c: "\<forall>ps. fa_Scope ?h ?q = Some ps \<longrightarrow> ''other'' \<noteq> ps_FilesystemID ps" by auto
  have "base_at (lz_inner (fc_eng sample_deployed)) ''other'' = Some (BDir [])" by code_simp
  then show ?thesis using files_isolation [OF e v r c] r by auto
qed

section \<open>Creating a file\<close>

lemma status_refuse_not_201: "rs_status (refuse c m) \<noteq> 201"
  using MapDeny_status_ge [of c] by (auto simp: refuse_def status_deny)

lemma denyCreate_not_201: "denyCreate h ps ref g rid cls m f = (r, f1) \<Longrightarrow> rs_status r \<noteq> 201"
  by (auto simp: denyCreate_def audited_deny_def status_refuse_not_201 split: sum.splits prod.splits)

definition created :: "('s, 'g) Deps \<Rightarrow> PeerScope \<Rightarrow> createUploadParams \<Rightarrow> string \<Rightarrow> part \<Rightarrow> response \<Rightarrow> ('s, 'g) face \<Rightarrow> bool" where
  "created h ps u ref p r f' \<longleftrightarrow>
     (\<exists>chunks s reply rec. concat chunks = concat (pt_reads p) \<and> pt_eof p \<and> int (length (concat (pt_reads p))) = cp_DeclaredSizeBytes u \<and>
        dp_engine (fa_d h) (ps_FilesystemID ps) (CallWriteStream ref (chunks, None) (cp_OverwriteExisting u)) s = (Inr reply, fc_eng f') \<and>
        r = files_writeJSON 201 (newFileObject h rec) \<and> map_of (hm_recs (ds_mem (files_store f'))) (hr_file_id rec) = Some rec \<and>
        hr_scope rec = ps_FilesystemID ps \<and> hr_object_ref rec = ref \<and> hr_sha256 rec = digest_of reply \<and>
        hr_size rec = of_int (cp_DeclaredSizeBytes u) \<and> hr_filename rec = createFilename u ref)"

lemma put_stored:
  assumes "put q i st = (Inr rec, st')"
  shows "rec = put_record q i" "map_of (hm_recs (ds_mem st')) (hr_file_id rec) = Some rec"
  using assms by (auto simp: put_def Let_def fold_put_def update_conv' split: if_splits prod.splits sum.splits)

lemma create_body_created:
  assumes "create_body h ps i rid early u ref g p f = (r, n, f')" "rs_status r = 201"
  shows "created h ps u ref p r f'"
proof -
  obtain fin0 offered acquired f1 where fd: "feed_part (cp_DeclaredSizeBytes u) i (pt_eof p) (pt_reads p) [] 0 f = (fin0, offered, acquired, f1)"
    by (metis prod_cases4)
  obtain fin where cf: "create_feed (cp_DeclaredSizeBytes u) i p f = (fin, offered, acquired, f1)" "fin = FeedDone \<longrightarrow> fin0 = FeedDone"
    using fd by (cases fin0) (auto simp: create_feed_def)
  let ?c = "CallWriteStream ref (offered, if fin = FeedDone then None else Some errCreateAborted) (cp_OverwriteExisting u)"
  obtain er f2 where e: "engine (fa_d h) (ps_FilesystemID ps) ?c f1 = (er, f2)" by fastforce
  obtain reply where r: "fin = FeedDone" "er = Inr reply" "create_answer h ps u ref (digest_of reply) f2 = (r, f')"
  proof (cases fin; cases er)
    fix b assume "fin = FeedDone" "er = Inr b"
    then show thesis using that assms(1) cf(1) e by (auto simp: create_body_def Let_def split: prod.splits)
  qed (use assms cf(1) e in \<open>auto simp: create_body_def Let_def dest: denyCreate_not_201 split: prod.splits if_splits\<close>)
  have w: "dp_engine (fa_d h) (ps_FilesystemID ps) (CallWriteStream ref (offered, None) (cp_OverwriteExisting u)) (fc_eng f1) = (Inr reply, fc_eng f2)"
    using e r(1,2) by (auto simp: engine_def emit_effect_def Let_def split: prod.splits sum.splits)
  let ?i = "\<lparr>pi_scope = ps_FilesystemID ps, pi_object_ref = ref, pi_filename = createFilename u ref,
      pi_mime = cp_MediaType u, pi_size = of_int (cp_DeclaredSizeBytes u), pi_policy_ref = [], pi_sha256 = digest_of reply\<rparr>"
  let ?q = "dp_henv (fa_d h) (fc_rnd f2)"
  obtain x st' where x: "put ?q ?i (files_store f2) = (x, st')" by fastforce
  obtain rec where rec: "x = Inr rec"
    using r(3) x assms(2) status_refuse_not_201
    by (cases x) (auto simp: create_answer_def store_op_def handle_op_def Let_def split: if_splits)
  have a: "r = files_writeJSON 201 (newFileObject h rec)" "files_store f' = st'" "fc_eng f' = fc_eng f2"
    using r(3) x rec by (auto simp: create_answer_def store_op_def handle_op_def Let_def emit_effect_def files_store_def)
  note st = put_stored [OF x [unfolded rec]]
  show ?thesis unfolding created_def using feed_done fd cf(2) r(1) w a st
    by (intro exI [of _ offered] exI [of _ "fc_eng f1"] exI [of _ reply] exI [of _ rec]) (fastforce simp: put_record_def)
qed

lemma session_handles: "on_face_session i g f = (e, f1) \<Longrightarrow> fc_handles f1 = fc_handles f \<and> fc_eng f1 = fc_eng f"
  by (auto simp: on_face_session_def Let_def split: prod.splits)

lemma created_frame: "created h ps u ref p r f1 \<Longrightarrow> fc_eng f2 = fc_eng f1 \<Longrightarrow> fc_handles f2 = fc_handles f1 \<Longrightarrow> created h ps u ref p r f2"
  by (simp add: created_def files_store_def)

lemma create_allowed_created:
  assumes "create_allowed h ps i rid early u ref g rest f = (r, f')" "rs_status r = 201"
  shows "\<exists>p more. rest = p # more \<and> created h ps u ref p r f'"
proof -
  note nd = denyCreate_not_201
  obtain p where p: "openCreateFilePart rest = Inr p"
    using assms by (auto simp: create_allowed_def dest: nd split: sum.splits prod.splits)
  obtain e f1 where a: "on_face_session i TryAcquireFD f = (e, f1)" by fastforce
  have e: "e = None" using assms p a by (auto simp: create_allowed_def dest: nd split: option.splits)
  obtain x f2 where x: "ensure_parent h ps ref f1 = (x, f2)" by fastforce
  obtain z where z: "x = Inr z"
    using assms p a e x by (cases x) (auto simp: create_allowed_def Let_def dest: nd split: prod.splits)
  obtain r2 n f3 where b: "create_body h ps i rid early u ref g p f2 = (r2, n, f3)" by (rule prod_cases3)
  obtain e3 f4 where r3: "on_face_session i ReleaseFD f3 = (e3, f4)" by fastforce
  obtain e4 f5 where r4: "on_face_session i (ReleaseBytes (of_int n)) f4 = (e4, f5)" by fastforce
  have eq: "r2 = r" "f' = f5" using assms(1) p a e x z b r3 r4 by (simp_all add: create_allowed_def Let_def)
  have "created h ps u ref p r f3" using create_body_created [OF b] eq(1) assms(2) by simp
  then have "created h ps u ref p r f'" using created_frame session_handles [OF r3] session_handles [OF r4] eq(2) by metis
  moreover have "\<exists>more. rest = p # more" using p by (auto simp: openCreateFilePart_def split: list.splits if_splits)
  ultimately show ?thesis by blast
qed

lemma serveCreate_created:
  assumes "serveCreate h ps rid r f = (resp, f')" "rs_status resp = 201"
  shows "\<exists>pp p more u canon. fr_parts r = Some (pp # p # more) \<and> decode_create_params (concat (pt_reads pp)) = Some u \<and>
    0 < cp_DeclaredSizeBytes u \<and> cp_DeclaredSizeBytes u \<le> dp_maxFileSize (fa_d h) \<and>
    (cp_FilesystemID u = [] \<or> cp_FilesystemID u = ps_FilesystemID ps) \<and>
    canonicalizeCreatePath (cp_Path u) = Some canon \<and> created h ps u (create_ref h canon) p resp f'"
proof -
  note nd = denyCreate_not_201
  obtain i f1 where i: "files_session (ps_FilesystemID ps) f = (i, f1)" by fastforce
  obtain adm f2 where a: "session_op r 0 i f1 = (adm, f2)" by fastforce
  note d = serveCreate_def Let_def i a prod.case
  have adm: adm using assms by (auto simp: d rate_refusal_def status_refuse_not_201 split: if_splits)
  obtain parts where parts: "fr_parts r = Some parts"
    using assms adm by (auto simp: d dest: nd split: option.splits)
  obtain u rest where u: "readCreateParams h parts = Inr (u, rest)"
    using assms adm parts by (auto simp: d dest: nd split: sum.splits)
  obtain pp where pp: "parts = pp # rest" "decode_create_params (concat (pt_reads pp)) = Some u"
    using u by (auto simp: readCreateParams_def Let_def split: list.splits if_splits option.splits)
  have c1: "0 < cp_DeclaredSizeBytes u" "cp_FilesystemID u = [] \<or> cp_FilesystemID u = ps_FilesystemID ps"
    using assms adm parts u by (auto simp: d dest: nd split: if_splits)
  then have n1: "\<not> cp_DeclaredSizeBytes u \<le> 0" "\<not> (cp_FilesystemID u \<noteq> [] \<and> cp_FilesystemID u \<noteq> ps_FilesystemID ps)" by auto
  note d1 = d adm parts u n1 option.case sum.case if_True if_False not_True_eq_False if_not_P [OF n1(1)] if_not_P [OF n1(2)]
  obtain canon where canon: "canonicalizeCreatePath (cp_Path u) = Some canon"
    using assms by (cases "canonicalizeCreatePath (cp_Path u)") (auto simp: d1 dest: nd)
  obtain g where g: "files_resolve h ps (writeEvidenceIntents ps) (create_ref h canon) IntentWrite = Inr g"
    using assms canon by (cases "files_resolve h ps (writeEvidenceIntents ps) (create_ref h canon) IntentWrite") (auto simp: d1 dest: nd)
  have sz: "cp_DeclaredSizeBytes u \<le> dp_maxFileSize (fa_d h)"
    using assms canon g by (auto simp: d1 dest: nd split: if_splits)
  obtain m f3 where m: "mandate (fa_d h) (createAllowEvent ps (create_ref h canon) g (cp_DeclaredSizeBytes u) rid) f2 = (m, f3)" by fastforce
  have "create_allowed h ps i rid (fr_early r) u (create_ref h canon) g rest f3 = (resp, f')"
    using assms canon g sz m by (cases m) (auto simp: d1 status_refuse_not_201)
  then show ?thesis using create_allowed_created assms(2) parts pp c1 canon sz by fastforce
qed

text \<open>
  C7. A created file is what was sent. If a POST to the collection is answered with status 201,
  the declared size is positive and within the whole-object ceiling, the file part was read to
  its end and has exactly the declared number of bytes, the engine's last act was to accept one
  write of exactly these bytes, under the attested scope, at the sanitized path below the create
  subtree; and the body names a handle that the store resolves, in this scope, to that path with
  the size and the digest of the write.
\<close>

theorem create_exact:
  assumes "files_ServeHTTP h r f = (resp, f')" "fr_method r = ''POST''" "fr_path r = filesRoot" "rs_status resp = 201"
  shows "\<exists>ps pp p more u canon chunks s reply rec.
    fa_Scope h r = Some ps \<and> fr_parts r = Some (pp # p # more) \<and> decode_create_params (concat (pt_reads pp)) = Some u \<and>
    0 < cp_DeclaredSizeBytes u \<and> cp_DeclaredSizeBytes u \<le> dp_maxFileSize (fa_d h) \<and>
    canonicalizeCreatePath (cp_Path u) = Some canon \<and>
    pt_eof p \<and> concat chunks = concat (pt_reads p) \<and> int (length (concat chunks)) = cp_DeclaredSizeBytes u \<and>
    dp_engine (fa_d h) (ps_FilesystemID ps) (CallWriteStream (create_ref h canon) (chunks, None) (cp_OverwriteExisting u)) s =
      (Inr reply, fc_eng f') \<and>
    rs_body resp = rs_body (files_writeJSON 201 (newFileObject h rec)) \<and>
    get_handle (hr_file_id rec) (ps_FilesystemID ps) (files_store f') = Inr rec \<and>
    hr_object_ref rec = create_ref h canon \<and> hr_size rec = of_int (cp_DeclaredSizeBytes u) \<and> hr_sha256 rec = digest_of reply"
proof -
  let ?rid = "newRequestID (fr_rand r)"
  obtain r1 where r1: "files_route h ?rid r f = (r1, f')" "rs_status r1 = 201" "rs_body resp = rs_body r1"
    using assms(1,4) by (auto simp: files_ServeHTTP_def Let_def with_request_id_def split: prod.splits)
  obtain ps where ps: "fa_Scope h r = Some ps" "validateScopeShape (ps_FilesystemID ps)" "serveCreate h ps ?rid r f = (r1, f')"
    using r1 assms(2,3) status_refuse_not_201
    by (auto simp: files_route_def routeCollection_def split: option.splits if_splits)
  have ne: "ps_FilesystemID ps \<noteq> []" using ps(2) by (auto simp: validateScopeShape_def)
  obtain pp p more u canon where c: "fr_parts r = Some (pp # p # more)" "decode_create_params (concat (pt_reads pp)) = Some u"
    "0 < cp_DeclaredSizeBytes u" "cp_DeclaredSizeBytes u \<le> dp_maxFileSize (fa_d h)"
    "canonicalizeCreatePath (cp_Path u) = Some canon" "created h ps u (create_ref h canon) p r1 f'"
    using serveCreate_created [OF ps(3) r1(2)] by blast
  obtain chunks s reply rec where w: "concat chunks = concat (pt_reads p)" "pt_eof p" "int (length (concat (pt_reads p))) = cp_DeclaredSizeBytes u"
    "dp_engine (fa_d h) (ps_FilesystemID ps) (CallWriteStream (create_ref h canon) (chunks, None) (cp_OverwriteExisting u)) s = (Inr reply, fc_eng f')"
    "r1 = files_writeJSON 201 (newFileObject h rec)" "map_of (hm_recs (ds_mem (files_store f'))) (hr_file_id rec) = Some rec"
    "hr_scope rec = ps_FilesystemID ps" "hr_object_ref rec = create_ref h canon" "hr_sha256 rec = digest_of reply"
    "hr_size rec = of_int (cp_DeclaredSizeBytes u)"
    using c(6) unfolding created_def by blast
  then have "get_handle (hr_file_id rec) (ps_FilesystemID ps) (files_store f') = Inr rec" using ne by (simp add: get_handle_def)
  then show ?thesis using ps(1) c(1-5) w r1(3)
    by (intro exI [of _ ps] exI [of _ pp] exI [of _ p] exI [of _ more] exI [of _ u] exI [of _ canon] exI [of _ chunks]
        exI [of _ s] exI [of _ reply] exI [of _ rec]) simp
qed

theorem create_exact_witness:
  "\<exists>r f' rec. files_ServeHTTP sample_api (sample_create ''/n'' [''xy'', ''z'']) sample_face = (r, f') \<and> rs_status r = 201 \<and>
     visible_at (fc_eng f') ''fs'' [''out'', ''n''] = Some (EFile ''xyz'') \<and>
     rs_body r = rs_body (files_writeJSON 201 (newFileObject sample_api rec)) \<and>
     get_handle (hr_file_id rec) ''fs'' (files_store f') = Inr rec"
proof -
  let ?q = "sample_create ''/n'' [''xy'', ''z'']"
  obtain r f' where r: "files_ServeHTTP sample_api ?q sample_face = (r, f')" by fastforce
  have s: "rs_status r = 201" "visible_at (fc_eng f') ''fs'' [''out'', ''n''] = Some (EFile ''xyz'')"
    using sample_created r by simp_all
  have q: "fr_method ?q = ''POST''" "fr_path ?q = filesRoot" by (simp_all add: sample_create_def sample_get_def)
  have "map_option ps_FilesystemID (fa_Scope sample_api ?q) = Some ''fs''" by code_simp
  then show ?thesis using create_exact [OF r q s(1)] s r by auto
qed

end
