(* ===== verification/FilesDownloads.thy ===== *)
theory FilesDownloads
  imports FilesProps
begin

text \<open>
  Properties of what the Files API serves: the names of the entries of an archive, and a place
  where the content of an id is the content of another object.
\<close>

section \<open>Archive entries\<close>

definition entry_ok :: "string \<Rightarrow> bool" where
  "entry_ok n \<longleftrightarrow> n \<notin> {[], dot, dotdot} \<and> CHR ''/'' \<notin> set n \<and> CHR 0x5C \<notin> set n"

lemma path_base_no_slash: "path_base p = ''/'' \<or> CHR ''/'' \<notin> set (path_base p)"
  by (auto simp: path_base_def Let_def dot_def dest: set_takeWhileD)

lemma set_path_base: "set (path_base p) \<subseteq> set p \<union> {CHR ''/'', CHR ''.''}"
  by (auto simp: path_base_def Let_def dot_def dest!: set_takeWhileD set_dropWhileD)

lemma sanitize_ok: "entry_ok (sanitizeEntryName n)"
proof -
  let ?m = "map (\<lambda>c. if c = CHR 0x5C then CHR ''/'' else c) n"
  have "CHR 0x5C \<notin> set (path_base ?m)" using set_path_base [of ?m] by auto
  then show ?thesis using path_base_no_slash [of ?m]
    by (auto simp: entry_ok_def sanitizeEntryName_def Let_def dot_def dotdot_def)
qed

lemma numbered_ok: "entry_ok name \<Longrightarrow> entry_ok (numbered name n)"
proof -
  have "\<not> is_digit (CHR ''/'')" "\<not> is_digit (CHR 0x5C)" by (simp_all add: is_digit_def)
  then have "CHR ''/'' \<notin> set (dec_nat n)" "CHR 0x5C \<notin> set (dec_nat n)" using dec_nat_digits [of n] by (auto simp: list_all_iff)
  then show "entry_ok name \<Longrightarrow> entry_ok (numbered name n)"
    by (auto simp: entry_ok_def numbered_def dot_def dotdot_def append_eq_Cons_conv)
qed

lemma dedupe_loop_fresh:
  "dedupe_loop used name n = (entry, used') \<Longrightarrow> entry_ok name \<Longrightarrow> name \<in> dom (map_of used) \<Longrightarrow>
   entry_ok entry \<and> entry \<notin> dom (map_of used) \<and> dom (map_of used') = insert entry (dom (map_of used))"
proof (induction used name n rule: dedupe_loop.induct)
  case (1 used name n)
  show ?case
  proof (cases "map_of used (numbered name n) = None")
    case True
    then have "entry = numbered name n" "used' = AList.update (numbered name n) 1 used"
      using 1(2) by (auto simp: dedupe_loop.simps)
    then show ?thesis using True numbered_ok [OF 1(3)] by (auto simp: update_conv')
  next
    case False
    then have "dedupe_loop (AList.update name (Suc (Suc n)) used) name (Suc n) = (entry, used')"
      using 1(2) dedupe_loop.simps [of used name n] by (simp only: if_False)
    moreover have "dom (map_of (AList.update name (Suc (Suc n)) used)) = dom (map_of used)"
      using 1(4) by (auto simp: update_conv')
    ultimately show ?thesis using 1(1) [OF False] 1(3,4) by simp
  qed
qed

lemma dedupe_fresh:
  assumes "dedupeEntryName used n = (entry, used')" "entry_ok n"
  shows "entry_ok entry \<and> entry \<notin> dom (map_of used) \<and> dom (map_of used') = insert entry (dom (map_of used))"
proof (cases "map_of used n")
  case None
  then have "entry = n" "used' = AList.update n 1 used" using assms by (auto simp: dedupeEntryName_def Let_def entry_ok_def)
  then show ?thesis using None assms(2) by (auto simp: update_conv')
next
  case (Some k)
  then have "dedupe_loop (AList.update n (Suc k) used) n k = (entry, used')"
    using assms by (simp add: dedupeEntryName_def Let_def entry_ok_def)
  moreover have "dom (map_of (AList.update n (Suc k) used)) = dom (map_of used)" using Some by (auto simp: update_conv')
  moreover have "n \<in> dom (map_of used)" using Some by blast
  ultimately show ?thesis using dedupe_loop_fresh [of "AList.update n (Suc k) used" n k entry used'] assms(2) by simp
qed

lemma stream_entries:
  "streamArchive h ps i used ms f = (entries, f') \<Longrightarrow>
   distinct (map fst entries) \<and> set (map fst entries) \<inter> dom (map_of used) = {} \<and>
   list_all (\<lambda>e. entry_ok (fst e)) entries \<and> length entries \<le> length ms"
proof (induction ms arbitrary: used f entries f')
  case (Cons m ms)
  obtain n used1 where d: "dedupeEntryName used (sanitizeEntryName (hr_filename (mb_rec m))) = (n, used1)" by fastforce
  note fr = dedupe_fresh [OF d sanitize_ok]
  obtain e f1 where s: "on_face_session i TryAcquireFD f = (e, f1)" by fastforce
  obtain er f2 where er: "engine (fa_d h) (ps_FilesystemID ps) (CallReadRange (mb_engPath m) 0 (of_int (mb_size m))) f1 = (er, f2)" by fastforce
  obtain e3 f3 where f3: "on_face_session i ReleaseFD f2 = (e3, f3)" by fastforce
  obtain rest f4 where st: "streamArchive h ps i used1 ms f3 = (rest, f4)" by fastforce
  have "entries = [] \<or> entries = [(n, read_bytes er)] \<or> entries = (n, read_bytes er) # rest"
    using Cons.prems d s er f3 st by (auto split: option.splits if_splits)
  moreover have "set (map fst rest) \<inter> dom (map_of used) = {}" "n \<notin> set (map fst rest)" using Cons.IH [OF st] fr by auto
  ultimately show ?case using Cons.IH [OF st] fr by (elim disjE) simp_all
qed simp

lemma member_refusal: "archive_member h ps i f = (Inl resp, f') \<Longrightarrow> 400 \<le> rs_status resp"
  by (auto simp: archive_member_def split: prod.splits sum.splits option.splits if_splits)

lemma members_answer:
  "archive_members h ps ids f = (x, f') \<Longrightarrow>
   (case x of Inl resp \<Rightarrow> 400 \<le> rs_status resp | Inr ms \<Rightarrow> length ms \<le> length ids)"
proof (induction ids arbitrary: f x f')
  case (Cons i ids)
  obtain y f1 where y: "archive_member h ps i f = (y, f1)" by fastforce
  obtain z f2 where z: "archive_members h ps ids f1 = (z, f2)" by fastforce
  show ?case using Cons.IH [OF z] Cons.prems y z member_refusal [of h ps i f]
    by (cases y; cases z) (auto split: option.splits)
qed auto

text \<open>
  C39. The entries of an archive stay apart and inside. If a request for an archive is answered
  with status 200, the archive has at most one entry per requested id, no two entries have the
  same name, and no name is empty, is a dot segment or contains a separator, whatever the file
  names in the store are.
\<close>

theorem archive_entries:
  assumes "files_ServeHTTP h r f = (resp, f')" "fr_path r = archivePath" "rs_status resp < 400"
  shows "\<exists>entries. rs_body resp = fa_zip h entries \<and> distinct (map fst entries) \<and>
    length entries \<le> length (query_all archiveFileIDParam r) \<and>
    (\<forall>n\<in>set (map fst entries). n \<notin> {[], dot, dotdot} \<and> CHR ''/'' \<notin> set n \<and> CHR 0x5C \<notin> set n)"
proof -
  let ?rid = "newRequestID (fr_rand r)" and ?ids = "query_all archiveFileIDParam r"
  obtain r1 where r1: "files_route h ?rid r f = (r1, f')" "\<not> 400 \<le> rs_status r1" "rs_body resp = rs_body r1"
    using assms(1,3) by (auto simp: files_ServeHTTP_def Let_def with_request_id_def split: prod.splits)
  have "archivePath \<noteq> filesRoot" by (simp add: archivePath_def filesRoot_def)
  then obtain ps where a: "serveArchive h ps ?rid r f = (r1, f')"
    using r1(1,2) assms(2) by (auto simp: files_route_def routeArchive_def split: option.splits if_splits)
  obtain i f1 where i: "files_session (ps_FilesystemID ps) f = (i, f1)" by fastforce
  obtain adm f2 where adm: "session_op r 0 i f1 = (adm, f2)" by fastforce
  obtain b f3 where b: "consume_members r (Suc 0) i ?ids f2 = (b, f3)" by fastforce
  obtain x f4 where x: "archive_members h ps ?ids f3 = (x, f4)" by fastforce
  note d = serveArchive_def Let_def One_nat_def i adm b x prod.case
  have ok: adm b using a r1(2) by (cases adm; cases b; auto simp: d)+
  obtain ms where ms: "x = Inr ms" "ms \<noteq> []"
    using a r1(2) ok members_answer [OF x] by (cases x) (auto simp: d split: if_splits)
  obtain m f5 where m: "mandate_members h ps ?rid ms f4 = (m, f5)" by fastforce
  obtain entries f6 where st: "streamArchive h ps i [] ms f5 = (entries, f6)" by fastforce
  have "rs_body r1 = fa_zip h entries" using a r1(2) ok ms m st by (cases m) (auto simp: d)
  moreover note stream_entries [OF st] members_answer [OF x [unfolded ms(1)]]
  ultimately show ?thesis using r1(3) by (intro exI [of _ entries]) (auto simp: list_all_iff entry_ok_def)
qed

text \<open>A file of at most one buffer is one chunk.\<close>

lemma chunks_of_code [code]:
  "chunks_of b =
     (if b = [] then [] else if int (length b) \<le> 32768 then [b] else take copy_buf b # chunks_of (drop copy_buf b))"
proof -
  have "b \<noteq> [] \<Longrightarrow> int (length b) \<le> 32768 \<Longrightarrow> chunks_of b = [b]"
    by (simp add: chunks_of.simps [of b] chunks_of.simps [of "[]"] copy_buf_def)
  then show ?thesis using chunks_of.simps [of b] by auto
qed

definition sample_flat :: "(lvol, nat) Deps" where
  "sample_flat = sample_files ((sample_dispatcher [] None)\<lparr>dp_tag := \<lambda>_ _. Inr True, dp_henv := \<lambda>_. sample_req AppendOk ''x''\<rparr>) []"

definition sample_archive :: files_request where
  "sample_archive = (sample_get ''GET'' archivePath)
     \<lparr>fr_query := [(archiveFileIDParam, objectid_new ''x''), (archiveFileIDParam, objectid_new ''y'')]\<rparr>"

definition sample_stored :: "(lvol, nat) face" where
  "sample_stored = sample_face\<lparr>fc_handles := Some
     (let save = (\<lambda>n name st. snd (put (sample_req AppendOk n) (sample_put ''fs'' ''a''\<lparr>pi_filename := name\<rparr>) st))
      in save ''y'' ''c/b'' (save ''x'' ''../b'' (fresh_store empty_mem [])))\<rparr>"

theorem archive_entries_witness:
  "\<exists>r f' entries. files_ServeHTTP sample_flat sample_archive sample_stored = (r, f') \<and> rs_status r = 200 \<and>
     rs_body r = ''bb-1'' \<and> rs_body r = fa_zip sample_flat entries \<and> distinct (map fst entries) \<and>
     length entries \<le> 2"
proof -
  obtain r f' where r: "files_ServeHTTP sample_flat sample_archive sample_stored = (r, f')" by fastforce
  have e: "case files_ServeHTTP sample_flat sample_archive sample_stored of (r, f') \<Rightarrow> rs_status r = 200 \<and> rs_body r = ''bb-1''"
    by code_simp
  then have s: "rs_status r < 400" using r by simp
  have p: "fr_path sample_archive = archivePath" "length (query_all archiveFileIDParam sample_archive) = 2"
    by (simp_all add: sample_archive_def sample_get_def query_all_def)
  show ?thesis using archive_entries [OF r p(1) s] e r p(2) by auto
qed

section \<open>Content of another object\<close>


end
