(* ===== verification/Spec2Isabelle.thy ===== *)
theory Spec2Isabelle
  imports HandleList FilesDownloads
begin

text \<open>
  Verification of the object-handle file store (Go sources under \<open>src/\<close>).
\<close>

end
